(* ===== verification/Prelude.thy ===== *)
theory Prelude imports Main "HOL-Library.Multiset" "HOL-Library.Word" begin

text \<open>
  What every component shares: the result type of a Go call (a value, a returned error or
  a panic), the loop combinators over it, and Go's fixed-width integers.

  A Go function \<open>func f(..) (T, error)\<close> becomes a HOL function into \<open>T res\<close>:
  \<open>Inr v\<close> is the pair (v, nil), \<open>Inl (GoErr e)\<close> a non-nil error with its message and
  \<open>Inl (GoPanic p)\<close> a run-time panic, which no \<open>if err != nil\<close> of the callers sees.
\<close>

section \<open>Results\<close>

datatype fail = GoErr string | GoPanic string

type_synonym 'a res = "fail + 'a"

named_theorems res_simps \<open>unfolding of the result combinators\<close>

definition bindr :: "'a res \<Rightarrow> ('a \<Rightarrow> 'b res) \<Rightarrow> 'b res" where
  "bindr m f = (case m of Inl e \<Rightarrow> Inl e | Inr x \<Rightarrow> f x)"

text \<open>\<open>if err != nil { ... }\<close>: the handler sees a returned error, never a panic.\<close>

definition onErr :: "'a res \<Rightarrow> (string \<Rightarrow> 'b res) \<Rightarrow> ('a \<Rightarrow> 'b res) \<Rightarrow> 'b res" where
  "onErr m h f = (case m of
      Inl (GoErr e) \<Rightarrow> h e
    | Inl (GoPanic p) \<Rightarrow> Inl (GoPanic p)
    | Inr x \<Rightarrow> f x)"

definition isOk :: "'a res \<Rightarrow> bool" where
  "isOk m = (case m of Inl _ \<Rightarrow> False | Inr _ \<Rightarrow> True)"

lemma bindr_simps [simp]:
  "bindr (Inl e) f = Inl e"
  "bindr (Inr x) f = f x"
  by (simp_all add: bindr_def)

lemma onErr_simps [simp]:
  "onErr (Inl (GoErr s)) h f = h s"
  "onErr (Inl (GoPanic s)) h f = Inl (GoPanic s)"
  "onErr (Inr x) h f = f x"
  by (simp_all add: onErr_def)

lemma isOk_simps [simp]: "isOk (Inl e) = False" "isOk (Inr x) = True"
  by (simp_all add: isOk_def)

lemma isOk_iff: "isOk m \<longleftrightarrow> (\<exists>x. m = Inr x)"
  by (cases m) auto

lemma bindr_cong [fundef_cong]:
  "m = m' \<Longrightarrow> (\<And>x. m' = Inr x \<Longrightarrow> f x = f' x) \<Longrightarrow> bindr m f = bindr m' f'"
  by (cases m') auto

lemma onErr_cong [fundef_cong]:
  "m = m' \<Longrightarrow> (\<And>s. m' = Inl (GoErr s) \<Longrightarrow> h s = h' s) \<Longrightarrow> (\<And>x. m' = Inr x \<Longrightarrow> f x = f' x)
    \<Longrightarrow> onErr m h f = onErr m' h' f'"
  by (auto simp: onErr_def split: sum.splits fail.splits)

lemma bindr_Inr_iff [res_simps]: "bindr m f = Inr y \<longleftrightarrow> (\<exists>x. m = Inr x \<and> f x = Inr y)"
  by (cases m) auto

lemma bindr_Inl_iff [res_simps]:
  "bindr m f = Inl e \<longleftrightarrow> m = Inl e \<or> (\<exists>x. m = Inr x \<and> f x = Inl e)"
  by (cases m) auto

lemma bindr_assoc: "bindr (bindr m f) g = bindr m (\<lambda>x. bindr (f x) g)"
  by (cases m) auto

lemma bindr_Inr_right [simp]: "bindr m Inr = m"
  by (cases m) auto

section \<open>Loops over slices\<close>

text \<open>
  A \<open>for range\<close> loop whose body returns early on an error: \<open>mapM\<close> collects one value
  per element, \<open>concatM\<close> the values each iteration appends, \<open>filterM\<close> keeps the elements
  that pass a test that can fail, \<open>foldM\<close> threads a state.
\<close>

fun mapM :: "('a \<Rightarrow> 'b res) \<Rightarrow> 'a list \<Rightarrow> 'b list res" where
  "mapM f [] = Inr []"
| "mapM f (x # xs) = bindr (f x) (\<lambda>y. bindr (mapM f xs) (\<lambda>ys. Inr (y # ys)))"

fun concatM :: "('a \<Rightarrow> 'b list res) \<Rightarrow> 'a list \<Rightarrow> 'b list res" where
  "concatM f [] = Inr []"
| "concatM f (x # xs) = bindr (f x) (\<lambda>ys. bindr (concatM f xs) (\<lambda>zs. Inr (ys @ zs)))"

fun filterM :: "('a \<Rightarrow> bool res) \<Rightarrow> 'a list \<Rightarrow> 'a list res" where
  "filterM f [] = Inr []"
| "filterM f (x # xs) =
     bindr (f x) (\<lambda>b. bindr (filterM f xs) (\<lambda>ys. Inr (if b then x # ys else ys)))"

fun foldM :: "('s \<Rightarrow> 'a \<Rightarrow> 's res) \<Rightarrow> 's \<Rightarrow> 'a list \<Rightarrow> 's res" where
  "foldM f s [] = Inr s"
| "foldM f s (x # xs) = bindr (f s x) (\<lambda>s'. foldM f s' xs)"

lemma concatM_cong [fundef_cong]:
  "xs = ys \<Longrightarrow> (\<And>x. x \<in> set ys \<Longrightarrow> f x = g x) \<Longrightarrow> concatM f xs = concatM g ys"
  by (induction ys arbitrary: xs) auto

lemma mapM_cong [fundef_cong]:
  "xs = ys \<Longrightarrow> (\<And>x. x \<in> set ys \<Longrightarrow> f x = g x) \<Longrightarrow> mapM f xs = mapM g ys"
  by (induction ys arbitrary: xs) auto

lemma filterM_cong [fundef_cong]:
  "xs = ys \<Longrightarrow> (\<And>x. x \<in> set ys \<Longrightarrow> f x = g x) \<Longrightarrow> filterM f xs = filterM g ys"
  by (induction ys arbitrary: xs) auto

lemma concatM_append:
  "concatM f (xs @ ys) = bindr (concatM f xs) (\<lambda>a. bindr (concatM f ys) (\<lambda>b. Inr (a @ b)))"
proof (induction xs)
  case Nil
  show ?case by simp
next
  case (Cons x xs)
  then show ?case
    by (cases "f x"; cases "concatM f xs"; cases "concatM f ys") auto
qed

lemma concatM_Inr: "(\<And>x. x \<in> set xs \<Longrightarrow> f x = Inr (g x)) \<Longrightarrow> concatM f xs = Inr (concat (map g xs))"
  by (induction xs) auto

lemma filterM_Inr: "(\<And>x. x \<in> set xs \<Longrightarrow> f x = Inr (g x)) \<Longrightarrow> filterM f xs = Inr (filter g xs)"
  by (induction xs) auto

lemma concatM_set:
  "concatM f xs = Inr ys \<Longrightarrow> y \<in> set ys \<Longrightarrow> \<exists>x \<in> set xs. \<exists>zs. f x = Inr zs \<and> y \<in> set zs"
  by (induction xs arbitrary: ys) (fastforce simp: res_simps)+

lemma concatM_map: "concatM f (map g xs) = concatM (\<lambda>x. f (g x)) xs"
  by (induction xs) auto

section \<open>Fixed-width integers\<close>

text \<open>
  Go's \<open>int16\<close> is a 16-bit word read as two's complement; its order is the signed one.
  \<open>int\<close> is 64 bits wide on the platforms the program is built for: arithmetic on it is
  arithmetic on HOL's \<open>int\<close> followed by \<open>wrap64\<close>.
\<close>

datatype int16 = I16 "16 word"

primrec i16 :: "int16 \<Rightarrow> int" where
  "i16 (I16 w) = sint w"

definition toInt16 :: "int \<Rightarrow> int16" where
  "toInt16 n = I16 (word_of_int n)"

definition MinInt16 :: int16 where
  "MinInt16 = toInt16 (-32768)"

definition MaxInt16 :: int16 where
  "MaxInt16 = toInt16 32767"

lemma sint16_eqD: "sint v = sint w \<Longrightarrow> v = w" for v w :: "16 word"
  by (rule signed_word_eqI)

instantiation int16 :: linorder
begin

definition less_eq_int16 :: "int16 \<Rightarrow> int16 \<Rightarrow> bool" where
  "less_eq_int16 a b \<longleftrightarrow> i16 a \<le> i16 b"

definition less_int16 :: "int16 \<Rightarrow> int16 \<Rightarrow> bool" where
  "less_int16 a b \<longleftrightarrow> i16 a < i16 b"

instance
proof
  fix x y z :: int16
  show "x < y \<longleftrightarrow> x \<le> y \<and> \<not> y \<le> x"
    by (auto simp: less_eq_int16_def less_int16_def)
  show "x \<le> x" by (simp add: less_eq_int16_def)
  show "x \<le> y \<Longrightarrow> y \<le> z \<Longrightarrow> x \<le> z" by (simp add: less_eq_int16_def)
  show "x \<le> y \<Longrightarrow> y \<le> x \<Longrightarrow> x = y"
    by (cases x; cases y) (auto simp: less_eq_int16_def dest: sint16_eqD)
  show "x \<le> y \<or> y \<le> x" by (auto simp: less_eq_int16_def)
qed

end

text \<open>\<open>x + 1\<close> on an \<open>int16\<close>, wrapping at the top.\<close>

definition inc16 :: "int16 \<Rightarrow> int16" where
  "inc16 a = (case a of I16 w \<Rightarrow> I16 (w + 1))"

lemma i16_range: "- 32768 \<le> i16 a" "i16 a \<le> 32767"
proof -
  obtain w where w: "a = I16 w" by (cases a)
  show "- 32768 \<le> i16 a" "i16 a \<le> 32767"
    using sint_greater_eq [of w] sint_less [of w] by (simp_all add: w)
qed

lemma i16_toInt16: "- 32768 \<le> n \<Longrightarrow> n \<le> 32767 \<Longrightarrow> i16 (toInt16 n) = n"
  by (simp add: toInt16_def sint_word_ariths word_of_int_inverse sint_sbintrunc' signed_take_bit_int_eq_self)

lemma i16_Min [simp]: "i16 MinInt16 = -32768"
  by (simp add: MinInt16_def i16_toInt16)

lemma i16_Max [simp]: "i16 MaxInt16 = 32767"
  by (simp add: MaxInt16_def i16_toInt16)

lemma i16_inject: "i16 a = i16 b \<longleftrightarrow> a = b"
  by (cases a; cases b) (auto dest: sint16_eqD)

lemma MaxInt16_top [simp]: "a \<le> MaxInt16"
  by (simp add: less_eq_int16_def i16_range)

lemma MinInt16_bot [simp]: "MinInt16 \<le> a"
  by (simp add: less_eq_int16_def i16_range)

lemma less_MaxInt16: "a < MaxInt16 \<longleftrightarrow> a \<noteq> MaxInt16"
  by (auto simp: order_less_le)

lemma i16_inc16: "a \<noteq> MaxInt16 \<Longrightarrow> i16 (inc16 a) = i16 a + 1"
proof -
  assume ne: "a \<noteq> MaxInt16"
  then have "i16 a \<noteq> 32767" by (simp flip: i16_Max add: i16_inject)
  with i16_range [of a] have b: "i16 a < 32767" "- 32768 \<le> i16 a" by auto
  obtain w where w: "a = I16 w" by (cases a)
  have "sint (w + 1) = signed_take_bit 15 (sint w + 1)"
    by (simp add: sint_word_ariths)
  with b w show ?thesis
    by (simp add: inc16_def signed_take_bit_int_eq_self)
qed

lemma inc16_le_iff: "a \<noteq> MaxInt16 \<Longrightarrow> inc16 a \<le> b \<longleftrightarrow> a < b"
  by (auto simp: less_eq_int16_def less_int16_def i16_inc16)

lemma inc16_Max [simp]: "inc16 MaxInt16 = MinInt16"
  by (simp add: inc16_def MaxInt16_def MinInt16_def toInt16_def)

definition wrap64 :: "int \<Rightarrow> int" where
  "wrap64 n = signed_take_bit 63 n"

lemma wrap64_id: "- (2 ^ 63) \<le> n \<Longrightarrow> n < 2 ^ 63 \<Longrightarrow> wrap64 n = n"
  by (simp add: wrap64_def signed_take_bit_int_eq_self)

lemma wrap64_overflow: "2 ^ 63 \<le> n \<Longrightarrow> n < 2 ^ 64 \<Longrightarrow> wrap64 n < 0"
proof -
  assume a: "2 ^ 63 \<le> n" "n < 2 ^ 64"
  have "signed_take_bit 63 n = signed_take_bit 63 (n - 2 ^ 64)"
    by (simp add: signed_take_bit_eq_iff_take_bit_eq take_bit_eq_mod)
  also have "\<dots> = n - 2 ^ 64"
    using a by (intro signed_take_bit_int_eq_self) auto
  finally show ?thesis using a by (simp add: wrap64_def)
qed

end
