(* ===== verification/GoString.thy ===== *)
theory GoString imports Prelude "HOL-Library.Char_ord" "HOL-Library.List_Lexorder" begin

text \<open>
  The part of Go's \<open>strings\<close> and \<open>strconv\<close> packages the program calls, on byte strings:
  decimal rendering and parsing of integers, quoting, substring search, replacement,
  splitting and joining.
\<close>

section \<open>Decimal integers: strconv.Itoa and strconv.Atoi\<close>

definition isDigit :: "char \<Rightarrow> bool" where
  "isDigit c \<longleftrightarrow> c \<in> set ''0123456789''"

definition digitVal :: "char \<Rightarrow> nat" where
  "digitVal c = of_char c - 48"

definition digitChar :: "nat \<Rightarrow> char" where
  "digitChar d = ''0123456789'' ! d"

fun dec :: "nat \<Rightarrow> string" where
  "dec n = (if n < 10 then [digitChar n] else dec (n div 10) @ [digitChar (n mod 10)])"

declare dec.simps [simp del]

definition natOf :: "string \<Rightarrow> nat" where
  "natOf s = foldl (\<lambda>a c. 10 * a + digitVal c) 0 s"

definition itoa :: "int \<Rightarrow> string" where
  "itoa i = (if i < 0 then CHR ''-'' # dec (nat (- i)) else dec (nat i))"

text \<open>
  \<open>Atoi\<close> returns a value also when it returns an error: zero on a syntax error, the nearest
  64-bit bound on a range error.
\<close>

datatype numError = ErrSyntax | ErrRange

definition atoi :: "string \<Rightarrow> int \<times> numError option" where
  "atoi s =
     (let neg = (s \<noteq> [] \<and> hd s = CHR ''-'');
          ds = (if s \<noteq> [] \<and> hd s \<in> {CHR ''-'', CHR ''+''} then tl s else s);
          n = (if neg then - int (natOf ds) else int (natOf ds))
      in if ds = [] \<or> \<not> list_all isDigit ds then (0, Some ErrSyntax)
         else if n \<ge> 2 ^ 63 then (2 ^ 63 - 1, Some ErrRange)
         else if n < - (2 ^ 63) then (- (2 ^ 63), Some ErrRange)
         else (n, None))"

lemma lt10_cases: "d < 10 \<longleftrightarrow> d \<in> {0, 1, 2, 3, 4, 5, 6, 7, 8, 9 :: nat}"
  by auto

lemma isDigit_digitChar: "d < 10 \<Longrightarrow> isDigit (digitChar d)"
  by (auto simp: lt10_cases isDigit_def digitChar_def)

lemma digitVal_digitChar: "d < 10 \<Longrightarrow> digitVal (digitChar d) = d"
  by (auto simp: lt10_cases digitVal_def digitChar_def)

lemma dec_neq_Nil [simp]: "dec n \<noteq> []"
  by (subst dec.simps) simp

lemma dec_digits: "list_all isDigit (dec n)"
proof (induction n rule: dec.induct)
  case (1 n)
  then show ?case by (subst dec.simps) (auto simp: isDigit_digitChar)
qed

lemma natOf_append: "natOf (s @ [c]) = 10 * natOf s + digitVal c"
  by (simp add: natOf_def)

lemma natOf_dec [simp]: "natOf (dec n) = n"
proof (induction n rule: dec.induct)
  case (1 n)
  show ?case
  proof (cases "n < 10")
    case True
    then show ?thesis by (subst dec.simps) (simp add: natOf_def digitVal_digitChar)
  next
    case False
    then show ?thesis using 1
      by (subst dec.simps) (simp add: natOf_append digitVal_digitChar)
  qed
qed

lemma dec_inject: "dec m = dec n \<longleftrightarrow> m = n"
  by (metis natOf_dec)

lemma isDigit_not: "\<not> isDigit CHR ''-''" "\<not> isDigit CHR ''+''" "\<not> isDigit CHR ''[''"
  "\<not> isDigit CHR '']''" "\<not> isDigit CHR ''%''" "\<not> isDigit CHR ''v''" "\<not> isDigit CHR 0x22"
  "\<not> isDigit CHR ''#''" "\<not> isDigit CHR ''/''"
  by (simp_all add: isDigit_def)

lemma dec_hd: "isDigit (hd (dec n))"
  using dec_digits [of n] by (cases "dec n") (auto simp: list_all_iff)

lemma atoi_itoa:
  assumes "- (2 ^ 63) \<le> i" and "i < 2 ^ 63"
  shows "atoi (itoa i) = (i, None)"
proof (cases "i < 0")
  case True
  with assms show ?thesis
    by (simp add: itoa_def atoi_def Let_def dec_digits)
next
  case False
  have "hd (dec (nat i)) \<noteq> CHR ''-''" "hd (dec (nat i)) \<noteq> CHR ''+''"
    using dec_hd [of "nat i"] by (auto simp: isDigit_not)
  with False assms show ?thesis
    by (simp add: itoa_def atoi_def Let_def dec_digits)
qed

lemma itoa_inject: "itoa i = itoa j \<longleftrightarrow> i = j"
proof -
  have "hd (dec n) \<noteq> CHR ''-''" for n using dec_hd [of n] by (auto simp: isDigit_not)
  then have "dec n \<noteq> CHR ''-'' # s" for n s by (metis list.sel(1))
  then show ?thesis
    by (auto simp: itoa_def dec_inject eq_commute [of "_ # _" "dec _"] split: if_splits)
qed

lemma itoa_of_nat: "itoa (int n) = dec n"
  by (simp add: itoa_def)

section \<open>strconv.Quote\<close>

text \<open>
  ASCII is written out; a string holding other bytes needs Go's table of printable runes,
  which the caller gives as \<open>uq\<close>.
\<close>

definition isASCII :: "char \<Rightarrow> bool" where
  "isASCII c \<longleftrightarrow> (of_char c :: nat) < 128"

definition hexDigit :: "nat \<Rightarrow> char" where
  "hexDigit d = ''0123456789abcdef'' ! d"

definition quoteChar :: "char \<Rightarrow> string" where
  "quoteChar c =
     (let n = of_char c :: nat in
      if c = CHR 0x22 then [CHR 0x5C, CHR 0x22]
      else if c = CHR 0x5C then [CHR 0x5C, CHR 0x5C]
      else if 32 \<le> n \<and> n < 127 then [c]
      else if n = 7 then [CHR 0x5C, CHR ''a'']
      else if n = 8 then [CHR 0x5C, CHR ''b'']
      else if n = 12 then [CHR 0x5C, CHR ''f'']
      else if n = 10 then [CHR 0x5C, CHR ''n'']
      else if n = 13 then [CHR 0x5C, CHR ''r'']
      else if n = 9 then [CHR 0x5C, CHR ''t'']
      else if n = 11 then [CHR 0x5C, CHR ''v'']
      else [CHR 0x5C, CHR ''x'', hexDigit (n div 16), hexDigit (n mod 16)])"

definition quote :: "(string \<Rightarrow> string) \<Rightarrow> string \<Rightarrow> string" where
  "quote uq s = (if list_all isASCII s then [CHR 0x22] @ concat (map quoteChar s) @ [CHR 0x22] else uq s)"

text \<open>A plain character is its own quotation and needs no escape in a select key.\<close>

definition plainChar :: "char \<Rightarrow> bool" where
  "plainChar c \<longleftrightarrow> (let n = of_char c :: nat in
     32 \<le> n \<and> n < 127 \<and> c \<notin> {CHR 0x22, CHR 0x5C, CHR ''['', CHR '']''})"

lemma quote_plain:
  assumes "list_all plainChar s"
  shows "quote uq s = [CHR 0x22] @ s @ [CHR 0x22]"
proof -
  have "list_all isASCII s" "concat (map quoteChar s) = s"
    using assms by (induction s) (auto simp: plainChar_def isASCII_def quoteChar_def Let_def)
  then show ?thesis by (simp add: quote_def)
qed

section \<open>The strings package\<close>

definition hasPrefix :: "string \<Rightarrow> string \<Rightarrow> bool" where
  "hasPrefix s p \<longleftrightarrow> take (length p) s = p"

text \<open>\<open>strings.Index\<close>: the position of the first occurrence (\<open>None\<close> for -1).\<close>

fun strIndex :: "string \<Rightarrow> string \<Rightarrow> nat option" where
  "strIndex [] p = (if p = [] then Some 0 else None)"
| "strIndex (c # s) p = (if hasPrefix (c # s) p then Some 0 else map_option Suc (strIndex s p))"

definition strContains :: "string \<Rightarrow> string \<Rightarrow> bool" where
  "strContains s p \<longleftrightarrow> strIndex s p \<noteq> None"

text \<open>\<open>strings.ReplaceAll\<close> for a non-empty old string, the only way the program calls it.\<close>

fun replaceAll :: "string \<Rightarrow> string \<Rightarrow> string \<Rightarrow> string" where
  "replaceAll [] old new = []"
| "replaceAll (c # s) old new =
     (if old \<noteq> [] \<and> hasPrefix (c # s) old
      then new @ replaceAll (drop (length old - 1) s) old new
      else c # replaceAll s old new)"

text \<open>\<open>strings.Split\<close> by a one-byte separator.\<close>

fun splitOn :: "char \<Rightarrow> string \<Rightarrow> string list" where
  "splitOn sep [] = [[]]"
| "splitOn sep (c # s) =
     (if c = sep then [] # splitOn sep s
      else (case splitOn sep s of [] \<Rightarrow> [[c]] | w # ws \<Rightarrow> (c # w) # ws))"

fun strJoin :: "string list \<Rightarrow> string \<Rightarrow> string" where
  "strJoin [] sep = []"
| "strJoin [s] sep = s"
| "strJoin (s # t # ss) sep = s @ sep @ strJoin (t # ss) sep"

lemma splitOn_neq_Nil [simp]: "splitOn sep s \<noteq> []"
  by (cases s) (auto split: list.splits)

lemma strJoin_splitOn: "strJoin (splitOn sep s) [sep] = s"
proof (induction s)
  case Nil
  show ?case by simp
next
  case (Cons c s)
  obtain w ws where "splitOn sep s = w # ws" by (meson neq_Nil_conv splitOn_neq_Nil)
  with Cons show ?case by (cases ws) auto
qed

end
