(* ===== verification/GoValue.thy ===== *)
theory GoValue imports GoString begin

unbundle bit_operations_syntax

text \<open>
  Go's \<open>interface{}\<close> as the program uses it: the dynamic types an unmarshalled JSON
  document can hold, the \<open>int\<close>s its own functions produce, and the Undefined value of
  src/jsonpath/selector.go. With them the two standard-library operations that inspect
  such values: \<open>fmt\<close>'s \<open>%v\<close> rendering and \<open>reflect.DeepEqual\<close>.

  A map is the list of its entries, in the order in which a \<open>range\<close> loop of the run visits
  them. Go leaves that order open, and so does the model: theorems quantify over every
  list, and \<open>sameJSON\<close> relates the documents that differ only in it.
\<close>

section \<open>float64\<close>

text \<open>A \<open>float64\<close> is its IEEE 754 bit pattern.\<close>

type_synonym float64 = "64 word"

definition fSign :: "float64 \<Rightarrow> bool" where
  "fSign w = bit w 63"

definition fExp :: "float64 \<Rightarrow> int" where
  "fExp w = uint (drop_bit 52 w AND 2047)"

definition fFrac :: "float64 \<Rightarrow> int" where
  "fFrac w = uint (w AND 4503599627370495)"

definition isNaN :: "float64 \<Rightarrow> bool" where
  "isNaN w \<longleftrightarrow> fExp w = 2047 \<and> fFrac w \<noteq> 0"

definition isZero :: "float64 \<Rightarrow> bool" where
  "isZero w \<longleftrightarrow> fExp w = 0 \<and> fFrac w = 0"

text \<open>Go's \<open>==\<close>: NaN differs from itself, the two zeros are equal.\<close>

definition feq :: "float64 \<Rightarrow> float64 \<Rightarrow> bool" where
  "feq a b \<longleftrightarrow> \<not> isNaN a \<and> \<not> isNaN b \<and> (a = b \<or> isZero a \<and> isZero b)"

text \<open>Significand and binary exponent of a finite value: it is \<open>fMant w * 2 ^ fBin w\<close>.\<close>

definition fMant :: "float64 \<Rightarrow> int" where
  "fMant w = (if fExp w = 0 then fFrac w else fFrac w + 4503599627370496)"

definition fBin :: "float64 \<Rightarrow> int" where
  "fBin w = (if fExp w = 0 then -1074 else fExp w - 1075)"

text \<open>
  Shortest decimal (\<open>strconv.FormatFloat\<close> with precision -1): the decimal c * 10^k with
  the fewest digits inside the rounding interval of the value x / d, the nearest one if two
  qualify. The interval is (lo / d, hi / d), closed when the significand is even.
  \<open>shortest\<close> scans k downwards and stops at -1100, below every power of ten that a
  float64 needs (the smallest rounding interval is 2^-1074 wide).
\<close>

definition candidate :: "int \<Rightarrow> int \<Rightarrow> int \<Rightarrow> int \<Rightarrow> bool \<Rightarrow> int \<Rightarrow> int option" where
  "candidate x lo hi d closed k =
     (let up = 10 ^ nat (- k); unit = d * 10 ^ nat k;
          c = (x * up) div unit;
          ok = (\<lambda>c. 0 < c \<and> (if closed then lo * up \<le> c * unit \<and> c * unit \<le> hi * up
                              else lo * up < c * unit \<and> c * unit < hi * up));
          rest = 2 * (x * up - c * unit)
      in if ok c \<and> ok (c + 1)
         then Some (if rest < unit \<or> rest = unit \<and> even c then c else c + 1)
         else if ok c then Some c
         else if ok (c + 1) then Some (c + 1)
         else None)"

function shortest :: "int \<Rightarrow> int \<Rightarrow> int \<Rightarrow> int \<Rightarrow> bool \<Rightarrow> int \<Rightarrow> int \<times> int" where
  "shortest x lo hi d closed k =
     (if k < -1100 then (0, k)
      else (case candidate x lo hi d closed k of
              Some c \<Rightarrow> (c, k)
            | None \<Rightarrow> shortest x lo hi d closed (k - 1)))"
  by pat_completeness auto
termination
  by (relation "measure (\<lambda>(x, lo, hi, d, closed, k). nat (k + 1101))") auto

declare shortest.simps [simp del]

definition fDecimal :: "float64 \<Rightarrow> int \<times> int" where
  "fDecimal w =
     (let m = fMant w; e = fBin w; a = 2 ^ nat e; d = 4 * 2 ^ nat (- e);
          x = 4 * m * a; hi = (4 * m + 2) * a;
          lo = (if fFrac w = 0 \<and> 1 < fExp w then (4 * m - 1) * a else (4 * m - 2) * a)
      in shortest x lo hi d (even m) (int (length (dec (nat (x div d))))))"

text \<open>\<open>%e\<close> and \<open>%f\<close> of the decimal digits, and the choice \<open>%v\<close> makes between them.\<close>

definition pad2 :: "int \<Rightarrow> string" where
  "pad2 n = (if n < 10 then CHR ''0'' # dec (nat n) else dec (nat n))"

definition fmtE :: "string \<Rightarrow> int \<Rightarrow> string" where
  "fmtE ds ex =
     [hd ds] @ (if tl ds = [] then [] else CHR ''.'' # tl ds) @ ''e''
       @ (if ex < 0 then CHR ''-'' # pad2 (- ex) else CHR ''+'' # pad2 ex)"

definition fmtF :: "string \<Rightarrow> int \<Rightarrow> string" where
  "fmtF ds dp =
     (if dp \<le> 0 then ''0.'' @ replicate (nat (- dp)) CHR ''0'' @ ds
      else if int (length ds) \<le> dp then ds @ replicate (nat dp - length ds) CHR ''0''
      else take (nat dp) ds @ ''.'' @ drop (nat dp) ds)"

definition fmtFloat :: "float64 \<Rightarrow> string" where
  "fmtFloat w =
     (if isNaN w then ''NaN''
      else if fExp w = 2047 then (if fSign w then ''-Inf'' else ''+Inf'')
      else (if fSign w then ''-'' else []) @
        (if isZero w then ''0''
         else (let (c, k) = fDecimal w; ds = dec (nat c); dp = int (length ds) + k; ex = dp - 1
               in if ex < -4 \<or> 6 \<le> ex then fmtE ds ex else fmtF ds dp)))"

lemmas float_eval = fmtFloat_def isNaN_def isZero_def fExp_def fFrac_def fSign_def
  fDecimal_def fMant_def fBin_def candidate_def shortest.simps fmtE_def fmtF_def pad2_def
  dec.simps digitChar_def Let_def

section \<open>Values\<close>

datatype val =
    VNil
  | VBool bool
  | VInt int
  | VFloat float64
  | VStr string
  | VArr "val list"
  | VObj "(string \<times> val) list"
  | VUndef

type_synonym entries = "(string \<times> val) list"

text \<open>Every key of a Go map occurs once, at every depth.\<close>

fun wfVal :: "val \<Rightarrow> bool" where
  "wfVal (VArr xs) = list_all wfVal xs"
| "wfVal (VObj kvs) = (distinct (map fst kvs) \<and> list_all (\<lambda>(k, v). wfVal v) kvs)"
| "wfVal _ = True"

text \<open>A value that JSON can produce: no \<open>int\<close> and no Undefined, at any depth.\<close>

fun isJSON :: "val \<Rightarrow> bool" where
  "isJSON (VArr xs) = list_all isJSON xs"
| "isJSON (VObj kvs) = list_all (\<lambda>(k, v). isJSON v) kvs"
| "isJSON (VInt i) = False"
| "isJSON VUndef = False"
| "isJSON _ = True"

text \<open>\<open>%T\<close>, for the error messages.\<close>

fun goTypeName :: "val \<Rightarrow> string" where
  "goTypeName VNil = ''<nil>''"
| "goTypeName (VBool b) = ''bool''"
| "goTypeName (VInt i) = ''int''"
| "goTypeName (VFloat f) = ''float64''"
| "goTypeName (VStr s) = ''string''"
| "goTypeName (VArr xs) = ''[]interface {}''"
| "goTypeName (VObj kvs) = ''map[string]interface {}''"
| "goTypeName VUndef = ''jsonpath.UndefinedType''"

text \<open>
  \<open>%v\<close>: a slice prints as \<open>[a b c]\<close>, a map as \<open>map[k:v k:v]\<close> with its keys in
  increasing order, Undefined through its \<open>String\<close> method as the empty string.
\<close>

fun fmtV :: "val \<Rightarrow> string" where
  "fmtV VNil = ''<nil>''"
| "fmtV (VBool b) = (if b then ''true'' else ''false'')"
| "fmtV (VInt i) = itoa i"
| "fmtV (VFloat f) = fmtFloat f"
| "fmtV (VStr s) = s"
| "fmtV (VArr xs) = ''['' @ strJoin (map fmtV xs) '' '' @ '']''"
| "fmtV (VObj kvs) = ''map['' @
     strJoin (map (\<lambda>(k, s). k @ '':'' @ s) (sort_key fst (map (\<lambda>(k, v). (k, fmtV v)) kvs))) '' '' @ '']''"
| "fmtV VUndef = []"

text \<open>\<open>reflect.DeepEqual\<close>: dynamic types must agree, maps are compared as maps.\<close>

fun deepEqual :: "val \<Rightarrow> val \<Rightarrow> bool" where
  "deepEqual VNil w = (w = VNil)"
| "deepEqual (VBool b) w = (w = VBool b)"
| "deepEqual (VInt i) w = (w = VInt i)"
| "deepEqual (VStr s) w = (w = VStr s)"
| "deepEqual (VFloat f) w = (case w of VFloat g \<Rightarrow> feq f g | _ \<Rightarrow> False)"
| "deepEqual (VArr xs) w = (case w of VArr ys \<Rightarrow> list_all2 deepEqual xs ys | _ \<Rightarrow> False)"
| "deepEqual (VObj kvs) w = (case w of
     VObj kws \<Rightarrow> length kvs = length kws \<and>
       list_all (\<lambda>(k, v). case map_of kws k of None \<Rightarrow> False | Some v' \<Rightarrow> deepEqual v v') kvs
   | _ \<Rightarrow> False)"
| "deepEqual VUndef w = False"

section \<open>Documents that differ in the order of map entries only\<close>

inductive sameJSON :: "val \<Rightarrow> val \<Rightarrow> bool" where
  same_refl: "sameJSON v v"
| same_arr: "list_all2 sameJSON xs ys \<Longrightarrow> sameJSON (VArr xs) (VArr ys)"
| same_obj: "mset kvs = mset kws \<Longrightarrow>
     map fst kws = map fst kxs \<Longrightarrow> list_all2 sameJSON (map snd kws) (map snd kxs) \<Longrightarrow>
     sameJSON (VObj kvs) (VObj kxs)"

end
