(* ===== verification/JsonPath.thy ===== *)
theory JsonPath imports GoValue begin

text \<open>
  The evaluator of src/jsonpath: the selectors of selector.go and the two kinds of path of
  path.go. A \<open>gval.Evaluable\<close> is a function of the context and the parameter; its typed
  readings \<open>EvalString\<close>, \<open>EvalInt\<close> and \<open>EvalBool\<close> belong to gval and are the fields of
  \<open>gvalEval\<close>. A callback that records what it is called with becomes a function that
  returns the list of the records; the loop that calls it concatenates them in call order.
\<close>

section \<open>Contexts and evaluables\<close>

text \<open>
  What the package stores in a \<open>context.Context\<close>: the current element (nil when unset)
  and the wildcard keys of the match at hand (\<open>None\<close> when unset).
\<close>

record ctx =
  currentElement :: val
  placeholders :: "val list option"

definition background :: ctx where
  "background = \<lparr>currentElement = VNil, placeholders = None\<rparr>"

definition currentContext :: "ctx \<Rightarrow> val \<Rightarrow> ctx" where
  "currentContext c v = c\<lparr>currentElement := v\<rparr>"

type_synonym evaluable = "ctx \<Rightarrow> val \<Rightarrow> val res"

record gvalEval =
  EvalString :: "evaluable \<Rightarrow> ctx \<Rightarrow> val \<Rightarrow> string res"
  EvalInt :: "evaluable \<Rightarrow> ctx \<Rightarrow> val \<Rightarrow> int res"
  EvalBool :: "evaluable \<Rightarrow> ctx \<Rightarrow> val \<Rightarrow> bool res"

definition Const :: "val \<Rightarrow> evaluable" where
  "Const v = (\<lambda>c r. Inr v)"

definition IsUndefined :: "val \<Rightarrow> bool" where
  "IsUndefined v = (case v of VUndef \<Rightarrow> True | _ \<Rightarrow> False)"

lemma IsUndefined_iff [simp]: "IsUndefined v \<longleftrightarrow> v = VUndef"
  by (cases v) (auto simp: IsUndefined_def)

section \<open>Selectors\<close>

type_synonym found = "val list \<times> val"
type_synonym plainSelector = "ctx \<Rightarrow> val \<Rightarrow> val \<Rightarrow> val res"
type_synonym ambiguousMatcher = "val \<Rightarrow> val \<Rightarrow> found list res"
type_synonym ambiguousSelector = "ctx \<Rightarrow> val \<Rightarrow> val \<Rightarrow> ambiguousMatcher \<Rightarrow> found list res"
type_synonym pathMatcher = "val list \<Rightarrow> val \<Rightarrow> found list res"

definition currentElementSelector :: plainSelector where
  "currentElementSelector = (\<lambda>c r v. Inr (currentElement c))"

definition invalidKey :: "string \<Rightarrow> string" where
  "invalidKey e = ''could not select value, invalid key: '' @ e"

fun selectValue :: "gvalEval \<Rightarrow> ctx \<Rightarrow> evaluable \<Rightarrow> val \<Rightarrow> val \<Rightarrow> (val \<times> string) res" where
  "selectValue g c key r VNil =
     onErr (EvalString g key (currentContext c VNil) r) (\<lambda>e. Inl (GoErr (invalidKey e)))
       (\<lambda>k. Inr (VUndef, k))"
| "selectValue g c key r VUndef =
     onErr (EvalString g key (currentContext c VUndef) r) (\<lambda>e. Inl (GoErr (invalidKey e)))
       (\<lambda>k. Inr (VUndef, k))"
| "selectValue g c key r (VArr xs) =
     onErr (EvalInt g key (currentContext c (VArr xs)) r) (\<lambda>e. Inl (GoErr (invalidKey e)))
       (\<lambda>i. if i < 0 \<or> i \<ge> int (length xs)
             then Inl (GoErr (''index '' @ itoa i @ '' out of bounds''))
             else Inr (xs ! nat i, itoa i))"
| "selectValue g c key r (VObj kvs) =
     onErr (EvalString g key (currentContext c (VObj kvs)) r) (\<lambda>e. Inl (GoErr (invalidKey e)))
       (\<lambda>k. case map_of kvs k of Some x \<Rightarrow> Inr (x, k) | None \<Rightarrow> Inr (VUndef, k))"
| "selectValue g c key r v =
     Inl (GoErr (''unsupported value type '' @ goTypeName v @
       '' for select, expected map[string]interface{} or []interface{}''))"

definition directSelector :: "gvalEval \<Rightarrow> evaluable \<Rightarrow> plainSelector" where
  "directSelector g key = (\<lambda>c r v. bindr (selectValue g c key r v) (\<lambda>(e, _). Inr e))"

fun visitAll :: "val \<Rightarrow> (string \<Rightarrow> val \<Rightarrow> 'r list res) \<Rightarrow> 'r list res" where
  "visitAll (VArr xs) visit = concatM (\<lambda>(i, e). visit (itoa (int i)) e) (enumerate 0 xs)"
| "visitAll (VObj kvs) visit = concatM (\<lambda>(k, e). visit k e) kvs"
| "visitAll v visit = Inr []"

definition starSelector :: ambiguousSelector where
  "starSelector = (\<lambda>c r v match. visitAll v (\<lambda>key x. match (VStr key) x))"

definition multiSelector :: "gvalEval \<Rightarrow> evaluable list \<Rightarrow> ambiguousSelector" where
  "multiSelector g keys =
     (if keys = [] then starSelector
      else (\<lambda>c r v match. concatM (\<lambda>k.
             onErr (selectValue g c k r v) (\<lambda>e. Inr [])
               (\<lambda>(e, wildcard). if IsUndefined e then Inr [] else match (VStr wildcard) e)) keys))"

text \<open>The children of a value, with the keys under which \<open>visitAll\<close> presents them.\<close>

fun children :: "val \<Rightarrow> (string \<times> val) list" where
  "children (VArr xs) = map (\<lambda>(i, e). (itoa (int i), e)) (enumerate 0 xs)"
| "children (VObj kvs) = kvs"
| "children v = []"

lemma visitAll_children: "visitAll v f = concatM (\<lambda>(k, e). f k e) (children v)"
  by (cases v) (auto simp: concatM_map split_def)

lemma visitAll_cong [fundef_cong]:
  "v = v' \<Longrightarrow> (\<And>k e. (k, e) \<in> set (children v') \<Longrightarrow> f k e = g k e) \<Longrightarrow> visitAll v f = visitAll v' g"
  by (auto simp: visitAll_children intro!: concatM_cong)

lemma size_children: "(k, e) \<in> set (children v) \<Longrightarrow> size e < size v"
proof (cases v)
  case (VArr xs)
  assume "(k, e) \<in> set (children v)"
  with VArr have "e \<in> set xs" by (auto simp: enumerate_eq_zip dest: set_zip_rightD)
  then show ?thesis using VArr size_list_estimation' [of e xs "size e" size] by simp
next
  case (VObj kvs)
  assume "(k, e) \<in> set (children v)"
  with VObj have "(k, e) \<in> set kvs" by simp
  then show ?thesis using VObj
    by (auto dest: size_list_estimation' [where f = "size_prod (\<lambda>x. 0) size" and y = "size e"])
qed simp_all

text \<open>
  \<open>..\<close> presents the value itself with an empty list of keys, then everything below it, each
  with the keys that lead to it.
\<close>

function mapper :: "ctx \<Rightarrow> val \<Rightarrow> val \<Rightarrow> ambiguousMatcher \<Rightarrow> found list res" where
  "mapper c r v match =
     bindr (match (VArr []) v) (\<lambda>here.
     bindr (visitAll v (\<lambda>wildcard x.
       mapper c r x (\<lambda>key y.
         match (VArr ([VStr wildcard] @ (case key of VArr ks \<Rightarrow> ks | _ \<Rightarrow> []))) y))) (\<lambda>below.
     Inr (here @ below)))"
  by pat_completeness auto
termination
  by (relation "measure (\<lambda>(c, r, v, match). size v)") (auto simp: size_children)

declare mapper.simps [simp del]

definition mapperSelector :: ambiguousSelector where
  "mapperSelector = mapper"

definition filterSelector :: "gvalEval \<Rightarrow> evaluable \<Rightarrow> ambiguousSelector" where
  "filterSelector g flt = (\<lambda>c r v match.
     visitAll v (\<lambda>wildcard x.
       onErr (EvalBool g flt (currentContext c x) r) (\<lambda>e. Inr [])
         (\<lambda>condition. if condition then match (VStr wildcard) x else Inr [])))"

definition negmax :: "int \<Rightarrow> int \<Rightarrow> int" where
  "negmax n mx =
     (if n < 0 then (if mx + n < 0 then 0 else mx + n)
      else if n > mx then mx
      else n)"

text \<open>
  The two loops of \<open>rangeSelector\<close>, from index i. The step is a non-zero 64-bit \<open>int\<close> of
  the loop's sign and a slice has fewer than 2^63 elements; for other arguments, which the
  caller never passes, the loops are set to do nothing. \<open>i += step\<close> can wrap around, and
  reading the slice at the negative index that results is the run-time panic.
\<close>

definition indexPanic :: "int \<Rightarrow> fail" where
  "indexPanic i = GoPanic (''runtime error: index out of range ['' @ itoa i @ '']'')"

function rangeUp :: "val list \<Rightarrow> int \<Rightarrow> int \<Rightarrow> int \<Rightarrow> ambiguousMatcher \<Rightarrow> found list res" where
  "rangeUp cs i mx step match =
     (if \<not> (0 < step \<and> step < 2 ^ 63 \<and> int (length cs) < 2 ^ 63) then Inr []
      else if i < mx then
        (if 0 \<le> i \<and> i < int (length cs)
         then bindr (match (VStr (itoa i)) (cs ! nat i)) (\<lambda>m.
              bindr (rangeUp cs (wrap64 (i + step)) mx step match) (\<lambda>ms. Inr (m @ ms)))
         else Inl (indexPanic i))
      else Inr [])"
  by pat_completeness auto
termination
proof (relation "measure (\<lambda>(cs, i, mx, step, match). nat (if i < 0 then 0 else int (length cs) + 1 - i))", goal_cases)
  case 1
  show ?case by simp
next
  case (2 cs i mx step match m)
  then have b: "0 < step" "step < 2 ^ 63" "int (length cs) < 2 ^ 63" "0 \<le> i" "i < int (length cs)"
    by auto
  have "wrap64 (i + step) = i + step \<or> wrap64 (i + step) < 0"
    using b wrap64_overflow [of "i + step"] by (cases "i + step < 2 ^ 63") (auto simp: wrap64_id)
  with b show ?case by auto
qed

function rangeDown :: "val list \<Rightarrow> int \<Rightarrow> int \<Rightarrow> int \<Rightarrow> ambiguousMatcher \<Rightarrow> found list res" where
  "rangeDown cs i mn step match =
     (if \<not> (step < 0 \<and> - (2 ^ 63) \<le> step \<and> int (length cs) < 2 ^ 63) then Inr []
      else if i \<ge> mn then
        (if 0 \<le> i \<and> i < int (length cs)
         then bindr (match (VStr (itoa i)) (cs ! nat i)) (\<lambda>m.
              bindr (rangeDown cs (wrap64 (i + step)) mn step match) (\<lambda>ms. Inr (m @ ms)))
         else Inl (indexPanic i))
      else Inr [])"
  by pat_completeness auto
termination
  by (relation "measure (\<lambda>(cs, i, mn, step, match). nat (i + 1))") (auto simp: wrap64_id)

declare rangeUp.simps [simp del] rangeDown.simps [simp del]

definition rangeSelector :: "gvalEval \<Rightarrow> evaluable \<Rightarrow> evaluable \<Rightarrow> evaluable \<Rightarrow> ambiguousSelector" where
  "rangeSelector g emin emax estep = (\<lambda>c r v match.
     (case v of
        VArr cs \<Rightarrow>
          (let c = currentContext c v in
           onErr (EvalInt g emin c r) (\<lambda>e. Inr []) (\<lambda>mn.
           onErr (EvalInt g emax c r) (\<lambda>e. Inr []) (\<lambda>mx.
           onErr (EvalInt g estep c r) (\<lambda>e. Inr []) (\<lambda>st.
             if mn > mx then Inr []
             else (let n = int (length cs); mn = negmax mn n; mx = negmax mx n;
                       st = (if st = 0 then 1 else st)
                   in if st > 0 then rangeUp cs mn mx st match
                      else rangeDown cs (mx - 1) mn st match)))))
      | _ \<Rightarrow> Inr []))"

definition newScript :: "evaluable \<Rightarrow> plainSelector" where
  "newScript script = (\<lambda>c r v. script (currentContext c v) r)"

section \<open>Paths\<close>

text \<open>
  \<open>plainPath\<close> is a list of plain selectors; an \<open>ambiguousPath\<close> is a parent path, a branching
  selector and the plain selectors applied to each of its matches.
\<close>

type_synonym plainPath = "plainSelector list"

datatype path =
    Plain plainPath
  | Ambiguous path ambiguousSelector plainPath

fun evaluatePath :: "ctx \<Rightarrow> val \<Rightarrow> val \<Rightarrow> plainPath \<Rightarrow> val res" where
  "evaluatePath c root v [] = Inr v"
| "evaluatePath c root v (sel # p) = bindr (sel c root v) (\<lambda>v'. evaluatePath c root v' p)"

definition plainMatcher :: "plainPath \<Rightarrow> ctx \<Rightarrow> val \<Rightarrow> ambiguousMatcher \<Rightarrow> ambiguousMatcher" where
  "plainMatcher p c r match =
     (if p = [] then match
      else (\<lambda>k v. onErr (evaluatePath c r v p) (\<lambda>e. Inr [])
                    (\<lambda>res. if IsUndefined res then Inr [] else match k res)))"

definition pathMatcher_matcher :: "pathMatcher \<Rightarrow> val list \<Rightarrow> ambiguousMatcher" where
  "pathMatcher_matcher m keys = (\<lambda>key match. m (keys @ [key]) match)"

text \<open>
  \<open>visitMatchs\<close> calls \<open>visit\<close> with the wildcard keys and the value of each match, in order.
\<close>

fun visitMatchs :: "path \<Rightarrow> ctx \<Rightarrow> val \<Rightarrow> pathMatcher \<Rightarrow> found list res" where
  "visitMatchs (Plain p) c r visit =
     onErr (evaluatePath c r r p) (\<lambda>e. Inr [])
       (\<lambda>res. if IsUndefined res then Inr [] else visit [] res)"
| "visitMatchs (Ambiguous parent branch ending) c r visit =
     visitMatchs parent c r (\<lambda>keys v.
       branch c r v (plainMatcher ending c r (pathMatcher_matcher visit keys)))"

definition record_match :: pathMatcher where
  "record_match = (\<lambda>keys v. Inr [(keys, v)])"

fun evaluate :: "path \<Rightarrow> ctx \<Rightarrow> val \<Rightarrow> val res" where
  "evaluate (Plain p) c r = evaluatePath c r r p"
| "evaluate (Ambiguous parent branch ending) c r =
     bindr (visitMatchs (Ambiguous parent branch ending) c r record_match)
       (\<lambda>matchs. Inr (VArr (map snd matchs)))"

fun withPlainSelector :: "path \<Rightarrow> plainSelector \<Rightarrow> path" where
  "withPlainSelector (Plain p) sel = Plain (p @ [sel])"
| "withPlainSelector (Ambiguous parent branch ending) sel = Ambiguous parent branch (ending @ [sel])"

definition withAmbiguousSelector :: "path \<Rightarrow> ambiguousSelector \<Rightarrow> path" where
  "withAmbiguousSelector p sel = Ambiguous p sel []"

end
