(* ===== verification/Placeholder.thy ===== *)
theory Placeholder imports JsonPath begin

text \<open>
  The placeholder extension of src/jsonpath/placeholder.go: a JSON object whose keys may
  use \<open>#\<close> and \<open>#i\<close>, the wildcard keys of the match that its value is. KubeMod compiles the
  \<open>select\<close> of a patch operation as the object \<open>{#: select}\<close>, whose keys are then the select
  keys of the form \<open>$["containers"]["0"]\<close>.
\<close>

section \<open>Placeholders\<close>

text \<open>Nested lists of keys, which \<open>..\<close> produces, are written out flat.\<close>

fun quoteWildcardValues :: "(string \<Rightarrow> string) \<Rightarrow> val list \<Rightarrow> string"
and quoteWildcardValue :: "(string \<Rightarrow> string) \<Rightarrow> val \<Rightarrow> string" where
  "quoteWildcardValues uq [] = []"
| "quoteWildcardValues uq (w # ws) = quoteWildcardValue uq w @ quoteWildcardValues uq ws"
| "quoteWildcardValue uq (VArr ws) = quoteWildcardValues uq ws"
| "quoteWildcardValue uq w = ''['' @ quote uq (fmtV w) @ '']''"

definition allPlaceholders :: int where
  "allPlaceholders = -1"

definition placeholder_evaluable :: "(string \<Rightarrow> string) \<Rightarrow> int \<Rightarrow> evaluable" where
  "placeholder_evaluable uq key = (\<lambda>c v.
     (case placeholders c of
        None \<Rightarrow> Inl (GoErr (''JSONPath placeholder #'' @ itoa key @ '' is not available''))
      | Some wildcards \<Rightarrow>
          if int (length wildcards) \<le> key
          then Inl (GoErr (''JSONPath placeholder #'' @ itoa key @ '' is not available''))
          else if key = allPlaceholders then Inr (VStr (''$'' @ quoteWildcardValues uq wildcards))
          else if key < 0 then Inl (indexPanic key)
          else Inr (wildcards ! nat key)))"

section \<open>JSON objects with placeholder keys\<close>

datatype jsonObject =
    KeyValuePair evaluable evaluable
  | KeyValueMatcher evaluable path

text \<open>\<open>vs[key] = value\<close> on a Go map.\<close>

fun mapPut :: "string \<Rightarrow> val \<Rightarrow> entries \<Rightarrow> entries" where
  "mapPut k x [] = [(k, x)]"
| "mapPut k x ((k', y) # vs) = (if k = k' then (k, x) # vs else (k', y) # mapPut k x vs)"

text \<open>
  A \<open>KeyValueMatcher\<close> goes on after a key that fails to evaluate and reports the last such
  error at the end.
\<close>

definition visitMatch :: "gvalEval \<Rightarrow> evaluable \<Rightarrow> ctx \<Rightarrow> val \<Rightarrow>
    entries \<times> string option \<Rightarrow> found \<Rightarrow> (entries \<times> string option) res" where
  "visitMatch g key c v st m =
     (case m of (keys, match) \<Rightarrow>
        onErr (EvalString g key (c\<lparr>placeholders := Some keys\<rparr>) v)
          (\<lambda>er. Inr (fst st @ [([], match)], Some er))
          (\<lambda>k. Inr (fst st @ [(k, match)], snd st)))"

fun visitElement :: "gvalEval \<Rightarrow> ctx \<Rightarrow> val \<Rightarrow> jsonObject \<Rightarrow> entries res" where
  "visitElement g c v (KeyValuePair key val) =
     bindr (val c v) (\<lambda>x. bindr (EvalString g key c v) (\<lambda>k. Inr [(k, x)]))"
| "visitElement g c v (KeyValueMatcher key p) =
     bindr (visitMatchs p c v record_match) (\<lambda>ms.
     bindr (foldM (visitMatch g key c v) ([], None) ms) (\<lambda>(es, err).
       case err of Some e \<Rightarrow> Inl (GoErr e) | None \<Rightarrow> Inr es))"

definition jsonObjectSlice_evaluable :: "gvalEval \<Rightarrow> jsonObject list \<Rightarrow> evaluable" where
  "jsonObjectSlice_evaluable g j = (\<lambda>c v.
     bindr (concatM (visitElement g c v) j) (\<lambda>es.
       Inr (VObj (fold (\<lambda>(k, x). mapPut k x) es []))))"

text \<open>The object that \<open>{#: path}\<close> denotes.\<close>

definition selectObject :: "gvalEval \<Rightarrow> (string \<Rightarrow> string) \<Rightarrow> path \<Rightarrow> evaluable" where
  "selectObject g uq p =
     jsonObjectSlice_evaluable g [KeyValueMatcher (placeholder_evaluable uq allPlaceholders) p]"

section \<open>Laws of the map under construction\<close>

lemma keys_mapPut: "set (map fst (mapPut k x vs)) = insert k (set (map fst vs))"
  by (induction k x vs rule: mapPut.induct) auto

lemma distinct_mapPut: "distinct (map fst vs) \<Longrightarrow> distinct (map fst (mapPut k x vs))"
  using keys_mapPut by (induction k x vs rule: mapPut.induct) fastforce+

end
