(* ===== verification/Expressions.thy ===== *)
theory Expressions imports Placeholder begin

text \<open>
  The operators and functions that src/expressions/kubemod_jsonpath.go adds to gval: a boolean
  logic without truthiness, the emptiness functions, \<open>in\<close>, \<open>??\<close>, the conditional and
  \<open>date\<close>. gval evaluates an infix operator with a short circuit by asking the short circuit
  about the left operand first and evaluating the right one only if it declines; that is
  \<open>infixShortCircuit\<close>. Values are compared with \<open>==\<close> on interfaces only against constants
  (\<open>false\<close>, \<open>nil\<close>, \<open>0\<close>).
\<close>

section \<open>Functions\<close>

definition oneArg :: "string \<Rightarrow> (val \<Rightarrow> val res) \<Rightarrow> val list \<Rightarrow> val res" where
  "oneArg msg f arguments = (case arguments of [a] \<Rightarrow> f a | _ \<Rightarrow> Inl (GoErr msg))"

text \<open>Go's \<open>len\<close>; the result is an \<open>int\<close> in an interface.\<close>

definition valLength :: "val \<Rightarrow> val res" where
  "valLength v = (case v of
      VNil \<Rightarrow> Inr (VInt 0)
    | VUndef \<Rightarrow> Inr (VInt 0)
    | VArr xs \<Rightarrow> Inr (VInt (int (length xs)))
    | VStr s \<Rightarrow> Inr (VInt (int (length s)))
    | VObj kvs \<Rightarrow> Inr (VInt (int (length kvs)))
    | _ \<Rightarrow> Inl (GoErr ''expected exactly one array, string or object argument''))"

definition lengthGValFunction :: "val list \<Rightarrow> val res" where
  "lengthGValFunction = oneArg ''length() expects exactly one array, string or object argument'' valLength"

definition isDefinedGValFunction :: "val list \<Rightarrow> val res" where
  "isDefinedGValFunction =
     oneArg ''isDefined() expects exactly one argument'' (\<lambda>v. Inr (VBool (\<not> IsUndefined v)))"

definition isUndefinedGValFunction :: "val list \<Rightarrow> val res" where
  "isUndefinedGValFunction =
     oneArg ''isUndefined() expects exactly one argument'' (\<lambda>v. Inr (VBool (IsUndefined v)))"

definition isEmptyGValFunction :: "val list \<Rightarrow> val res" where
  "isEmptyGValFunction =
     oneArg ''isEmpty() expects exactly one argument'' (\<lambda>v. bindr (valLength v) (\<lambda>l. Inr (VBool (l = VInt 0))))"

definition isNotEmptyGValFunction :: "val list \<Rightarrow> val res" where
  "isNotEmptyGValFunction =
     oneArg ''isNotEmpty() expects exactly one argument'' (\<lambda>v. bindr (valLength v) (\<lambda>l. Inr (VBool (l \<noteq> VInt 0))))"

section \<open>Operators\<close>

definition boolOperand :: "val \<Rightarrow> bool option" where
  "boolOperand v = (case v of VBool b \<Rightarrow> Some b | _ \<Rightarrow> None)"

definition operandError :: "val \<Rightarrow> fail" where
  "operandError v = GoErr (''unexpected operand type '' @ goTypeName v @ ''; expected bool'')"

definition infixBoolOperator :: "(bool \<Rightarrow> bool \<Rightarrow> bool) \<Rightarrow> val \<Rightarrow> val \<Rightarrow> val res" where
  "infixBoolOperator f a b = (case (boolOperand a, boolOperand b) of
      (Some ab, Some bb) \<Rightarrow> Inr (VBool (f ab bb))
    | (None, _) \<Rightarrow> Inl (operandError a)
    | (Some _, None) \<Rightarrow> Inl (operandError b))"

definition infixShortCircuit :: "(val \<Rightarrow> val \<times> bool) \<Rightarrow> (val \<Rightarrow> val \<Rightarrow> val res) \<Rightarrow> evaluable \<Rightarrow> evaluable \<Rightarrow> evaluable" where
  "infixShortCircuit sc f a b = (\<lambda>c r.
     bindr (a c r) (\<lambda>x. if snd (sc x) then Inr (fst (sc x))
                        else bindr (b c r) (\<lambda>y. f x y)))"

definition notOperator :: "val \<Rightarrow> val res" where
  "notOperator v = (case boolOperand v of Some b \<Rightarrow> Inr (VBool (\<not> b)) | None \<Rightarrow> Inl (operandError v))"

definition andOperator :: "evaluable \<Rightarrow> evaluable \<Rightarrow> evaluable" where
  "andOperator = infixShortCircuit (\<lambda>a. (VBool False, a = VBool False)) (infixBoolOperator (\<and>))"

definition orOperator :: "evaluable \<Rightarrow> evaluable \<Rightarrow> evaluable" where
  "orOperator = infixShortCircuit (\<lambda>a. (VBool True, a = VBool True)) (infixBoolOperator (\<or>))"

definition equalOperator :: "val \<Rightarrow> val \<Rightarrow> val res" where
  "equalOperator = infixBoolOperator (=)"

definition notEqualOperator :: "val \<Rightarrow> val \<Rightarrow> val res" where
  "notEqualOperator = infixBoolOperator (\<noteq>)"

definition falseOrNil :: "val \<Rightarrow> bool" where
  "falseOrNil v \<longleftrightarrow> v = VBool False \<or> v = VNil"

definition coalesceOperator :: "evaluable \<Rightarrow> evaluable \<Rightarrow> evaluable" where
  "coalesceOperator = infixShortCircuit (\<lambda>a. (a, \<not> falseOrNil a)) (\<lambda>a b. Inr (if falseOrNil a then b else a))"

definition inArray :: "val \<Rightarrow> val \<Rightarrow> val res" where
  "inArray a b = (case b of
      VArr col \<Rightarrow> Inr (VBool (list_ex (\<lambda>x. deepEqual a x) col))
    | _ \<Rightarrow> Inl (GoErr (''expected type []interface{} for in operator but got '' @ goTypeName b)))"

text \<open>The evaluable that \<open>parseIf\<close> builds; without an else branch \<open>b\<close> is the nil constant.\<close>

definition conditional :: "evaluable \<Rightarrow> evaluable \<Rightarrow> evaluable option \<Rightarrow> evaluable" where
  "conditional e a b = (\<lambda>c v.
     bindr (e c v) (\<lambda>x.
       if falseOrNil x then (case b of Some b \<Rightarrow> b c v | None \<Rightarrow> Const VNil c v) else a c v))"

section \<open>Dates\<close>

text \<open>
  \<open>date\<close> tries its layouts in this order; \<open>parseInLocation\<close> is \<open>time.ParseInLocation\<close> in the
  local time zone.
\<close>

definition dateFormats :: "string list" where
  "dateFormats =
     [''Mon Jan _2 15:04:05 2006'', ''Mon Jan _2 15:04:05 MST 2006'', ''Mon Jan 02 15:04:05 -0700 2006'',
      ''3:04PM'', ''2006-01-02T15:04:05Z07:00'', ''2006-01-02T15:04:05.999999999Z07:00'',
      ''2006-01-02'', ''2006-01-02 15:04'', ''2006-01-02 15:04:05'', ''2006-01-02 15:04:05-07:00'',
      ''2006-01-02T15Z0700'', ''2006-01-02T15:04Z0700'', ''2006-01-02T15:04:05Z0700'',
      ''2006-01-02T15:04:05.999999999Z0700'']"

fun firstParse :: "(string \<Rightarrow> string \<Rightarrow> 't res) \<Rightarrow> string list \<Rightarrow> string \<Rightarrow> 't res" where
  "firstParse parseInLocation [] s = Inl (GoErr (''date() could not parse '' @ s))"
| "firstParse parseInLocation (format # formats) s =
     onErr (parseInLocation format s) (\<lambda>_. firstParse parseInLocation formats s) (\<lambda>ret. Inr ret)"

definition dateGValFunction :: "(string \<Rightarrow> string \<Rightarrow> 't res) \<Rightarrow> val list \<Rightarrow> 't res" where
  "dateGValFunction parseInLocation arguments = (case arguments of
      [VStr s] \<Rightarrow> firstParse parseInLocation dateFormats s
    | _ \<Rightarrow> Inl (GoErr ''date() expects exactly one string argument''))"

section \<open>Laws\<close>

lemma infixBoolOperator_Inr:
  "infixBoolOperator f a b = Inr x \<longleftrightarrow> (\<exists>p q. a = VBool p \<and> b = VBool q \<and> x = VBool (f p q))"
  by (cases a; cases b) (auto simp: infixBoolOperator_def boolOperand_def)

lemma andOperator_Inr:
  "andOperator a b c r = Inr x \<longleftrightarrow>
     a c r = Inr (VBool False) \<and> x = VBool False \<or>
     a c r = Inr (VBool True) \<and> (\<exists>q. b c r = Inr (VBool q) \<and> x = VBool q)"
  by (cases "a c r"; cases "b c r")
    (auto simp: andOperator_def infixShortCircuit_def infixBoolOperator_Inr)

lemma orOperator_Inr:
  "orOperator a b c r = Inr x \<longleftrightarrow>
     a c r = Inr (VBool True) \<and> x = VBool True \<or>
     a c r = Inr (VBool False) \<and> (\<exists>q. b c r = Inr (VBool q) \<and> x = VBool q)"
  by (cases "a c r"; cases "b c r")
    (auto simp: orOperator_def infixShortCircuit_def infixBoolOperator_Inr)

text \<open>
  The logic has no truthiness. \<open>a && b\<close> is a boolean or an error, it is true exactly when
  both operands evaluate to true, and false exactly when the left one is false or the left one
  is true and the right one false; a right operand behind a false left one is not evaluated.
  \<open>a || b\<close> is the dual.
\<close>

lemma boolean_logic:
  "(andOperator a b c r = Inr (VBool True) \<longleftrightarrow> a c r = Inr (VBool True) \<and> b c r = Inr (VBool True)) \<and>
   (andOperator a b c r = Inr (VBool False) \<longleftrightarrow>
      a c r = Inr (VBool False) \<or> a c r = Inr (VBool True) \<and> b c r = Inr (VBool False)) \<and>
   (orOperator a b c r = Inr (VBool False) \<longleftrightarrow> a c r = Inr (VBool False) \<and> b c r = Inr (VBool False)) \<and>
   (orOperator a b c r = Inr (VBool True) \<longleftrightarrow>
      a c r = Inr (VBool True) \<or> a c r = Inr (VBool False) \<and> b c r = Inr (VBool True)) \<and>
   (\<forall>x. andOperator a b c r = Inr x \<or> orOperator a b c r = Inr x \<longrightarrow> (\<exists>p. x = VBool p))"
  by (intro conjI) (auto simp: andOperator_Inr orOperator_Inr)

text \<open>
  \<open>isEmpty\<close> of one argument is true exactly for nil, Undefined, the empty string, the
  empty array and the empty object, an error exactly for booleans and numbers, and
  \<open>isNotEmpty\<close> is its negation, with the same errors; \<open>isDefined\<close> tells Undefined from every
  other value, nil included.
\<close>

lemma emptiness:
  "(isEmptyGValFunction [v] = Inr (VBool True) \<longleftrightarrow> v \<in> {VNil, VUndef, VStr [], VArr [], VObj []}) \<and>
   ((\<exists>e. isEmptyGValFunction [v] = Inl e) \<longleftrightarrow> (\<exists>b. v = VBool b) \<or> (\<exists>i. v = VInt i) \<or> (\<exists>f. v = VFloat f)) \<and>
   isNotEmptyGValFunction [v] = bindr (isEmptyGValFunction [v]) notOperator \<and>
   isDefinedGValFunction [v] = Inr (VBool (v \<noteq> VUndef)) \<and>
   isUndefinedGValFunction [v] = bindr (isDefinedGValFunction [v]) notOperator"
  by (cases v) (auto simp: isEmptyGValFunction_def isNotEmptyGValFunction_def isDefinedGValFunction_def
      isUndefinedGValFunction_def oneArg_def valLength_def notOperator_def boolOperand_def)

lemma firstParse_find:
  "\<forall>f \<in> set fs. \<forall>p. parse f s \<noteq> Inl (GoPanic p) \<Longrightarrow> firstParse parse fs s =
    (case List.find (\<lambda>f. isOk (parse f s)) fs of
       Some f \<Rightarrow> parse f s | None \<Rightarrow> Inl (GoErr (''date() could not parse '' @ s)))"
  by (induction fs) (auto simp: onErr_def isOk_def split: sum.splits fail.splits)

text \<open>
  \<open>date\<close> returns the value of the first of its fourteen layouts that parses the string,
  in their order, and fails with its own message only when none of them does.
\<close>

lemma dateGValFunction_first:
  assumes "\<forall>f \<in> set dateFormats. \<forall>p. parse f s \<noteq> Inl (GoPanic p)"
  shows "dateGValFunction parse [VStr s] =
    (case List.find (\<lambda>f. isOk (parse f s)) dateFormats of
       Some f \<Rightarrow> parse f s | None \<Rightarrow> Inl (GoErr (''date() could not parse '' @ s)))"
  using firstParse_find [of dateFormats parse s] assms by (simp add: dateGValFunction_def)

end
