(* ===== verification/Parse.thy ===== *)
theory Parse imports Placeholder begin

text \<open>
  The parser of src/jsonpath/parse.go and of the JSON objects with placeholder keys in
  src/jsonpath/placeholder.go. The scanner and the expression parser are gval's \<open>Parser\<close>, whose
  state is the type \<open>'g\<close> and whose methods are the fields of \<open>gvalParser\<close>. The parsers call each
  other as long as the scanner feeds them; a run is bounded by its fuel, and \<open>None\<close> means that the
  fuel ran out. Fuel beyond the length of the input is enough (\<open>ParseProps\<close>).
\<close>

section \<open>Tokens\<close>

text \<open>A token is a rune, or one of the negative classes of text/scanner.\<close>

type_synonym rune = int

definition chr :: "char \<Rightarrow> rune" where
  "chr c = int (of_char c :: nat)"

definition scannerEOF :: rune where "scannerEOF = -1"
definition scannerIdent :: rune where "scannerIdent = -2"
definition scannerInt :: rune where "scannerInt = -3"

lemmas token_defs = chr_def scannerEOF_def scannerIdent_def scannerInt_def

section \<open>gval's parser\<close>

text \<open>
  \<open>Camouflage\<close>, which the code calls only right after \<open>Scan\<close>, makes the next \<open>Scan\<close> return the same
  token again. \<open>ParseExpression\<close> gets the context's pointer to the flag that a placeholder sets
  (\<open>None\<close> without one) and returns the flag's value afterwards.
\<close>

record 'g gvalParser =
  gScan :: "'g \<Rightarrow> rune \<times> 'g"
  gTokenText :: "'g \<Rightarrow> string"
  gExpected :: "'g \<Rightarrow> string \<Rightarrow> rune list \<Rightarrow> string"
  gCamouflage :: "'g \<Rightarrow> string \<Rightarrow> rune list \<Rightarrow> 'g"
  gParseExpression :: "bool option \<Rightarrow> 'g \<Rightarrow> (evaluable \<times> bool option \<times> 'g) res"

text \<open>The parser, with the flag that its context points to.\<close>

record 'g parser =
  p_Parser :: 'g
  p_path :: path
  p_hasWildcard :: "bool option"

definition Scan :: "'g gvalParser \<Rightarrow> 'g parser \<Rightarrow> rune \<times> 'g parser" where
  "Scan G p = (case gScan G (p_Parser p) of (t, q) \<Rightarrow> (t, p\<lparr>p_Parser := q\<rparr>))"

definition TokenText :: "'g gvalParser \<Rightarrow> 'g parser \<Rightarrow> string" where
  "TokenText G p = gTokenText G (p_Parser p)"

definition Expected :: "'g gvalParser \<Rightarrow> 'g parser \<Rightarrow> string \<Rightarrow> rune list \<Rightarrow> 'a res" where
  "Expected G p unit rs = Inl (GoErr (gExpected G (p_Parser p) unit rs))"

definition Camouflage :: "'g gvalParser \<Rightarrow> 'g parser \<Rightarrow> string \<Rightarrow> rune list \<Rightarrow> 'g parser" where
  "Camouflage G p unit rs = p\<lparr>p_Parser := gCamouflage G (p_Parser p) unit rs\<rparr>"

definition ParseExpression :: "'g gvalParser \<Rightarrow> 'g parser \<Rightarrow> (evaluable \<times> 'g parser) res" where
  "ParseExpression G p =
     bindr (gParseExpression G (p_hasWildcard p) (p_Parser p)) (\<lambda>(e, w, q).
       Inr (e, p\<lparr>p_Parser := q, p_hasWildcard := w\<rparr>))"

section \<open>Paths\<close>

definition newParser :: "'g \<Rightarrow> bool option \<Rightarrow> 'g parser" where
  "newParser q w = \<lparr>p_Parser = q, p_path = Plain [], p_hasWildcard = w\<rparr>"

definition appendPlainSelector :: "plainSelector \<Rightarrow> 'g parser \<Rightarrow> 'g parser" where
  "appendPlainSelector next p = p\<lparr>p_path := withPlainSelector (p_path p) next\<rparr>"

definition appendAmbiguousSelector :: "ambiguousSelector \<Rightarrow> 'g parser \<Rightarrow> 'g parser" where
  "appendAmbiguousSelector next p = p\<lparr>p_path := withAmbiguousSelector (p_path p) next\<rparr>"

text \<open>The constants of a range: the floats 0 and \<open>math.MaxInt32\<close>.\<close>

definition floatMaxInt32 :: val where
  "floatMaxInt32 = VFloat 0x41DFFFFFFFC00000"

text \<open>
  One element of a bracket, up to the token that follows it: the keys with it, that token (the
  element's own first token when \<open>skipScan\<close> is set), and the parser.
\<close>

definition bracketKey :: "'g gvalParser \<Rightarrow> evaluable list \<Rightarrow> rune \<Rightarrow> rune \<times> 'g parser \<Rightarrow>
    (evaluable list \<times> rune \<times> 'g parser) res" where
  "bracketKey G keys seperator tp = (case tp of (scan, p) \<Rightarrow>
     if scan = chr CHR ''?'' then Inr (keys, scan, p)
     else if scan = chr CHR '':'' then
       Inr (keys @ [Const (if length keys = 1 then floatMaxInt32 else VFloat 0)], scan, p)
     else if scan = chr CHR '']'' \<and> seperator = chr CHR '':'' then Inr (keys, scan, p)
     else bindr (ParseExpression G (Camouflage G p ''jsonpath brackets'' [])) (\<lambda>(key, p).
       Inr (keys @ [key], Scan G p)))"

definition mixedError :: "rune \<Rightarrow> rune \<Rightarrow> 'a res" where
  "mixedError a b = Inl (GoErr (''mixed '' @ itoa a @ '' and '' @ itoa b @ '' in JSON bracket''))"

fun parseBracket :: "nat \<Rightarrow> 'g gvalParser \<Rightarrow> evaluable list \<Rightarrow> rune \<Rightarrow> 'g parser \<Rightarrow>
    (evaluable list \<times> rune \<times> 'g parser) res option" where
  "parseBracket 0 G keys seperator p = None"
| "parseBracket (Suc n) G keys seperator p =
     (let (scan, p) = Scan G p in
      if scan = chr CHR ''*'' then
        (let (scan, p) = Scan G p in
         Some (if scan \<noteq> chr CHR '']'' then Expected G p ''JSON bracket star'' [chr CHR '']'']
               else Inr ([], 0, p)))
      else (case bracketKey G keys seperator (scan, p) of
          Inl e \<Rightarrow> Some (Inl e)
        | Inr (keys, scan, p) \<Rightarrow>
            (let seperator = (if seperator = 0 then scan else seperator) in
             if scan = chr CHR '']'' then Some (Inr (keys, seperator, p))
             else if scan = chr CHR ''?'' \<and> keys \<noteq> [] then
               Some (Expected G p ''JSON filter'' [chr CHR '']''])
             else if scan \<notin> {chr CHR '':'', chr CHR '','', chr CHR ''?''} then
               Some (Expected G p ''JSON bracket separator'' [chr CHR '':'', chr CHR '',''])
             else if seperator \<noteq> scan then Some (mixedError seperator scan)
             else parseBracket n G keys seperator p)))"

text \<open>What \<open>parsePath\<close> makes of a bracket, and what \<open>parseMapper\<close> makes of one after \<open>..\<close>.\<close>

definition bracketSelector :: "gvalEval \<Rightarrow> evaluable list \<Rightarrow> rune \<Rightarrow> 'g parser \<Rightarrow> 'g parser res" where
  "bracketSelector g keys seperator p =
     (if seperator = chr CHR '':'' then
        (if length keys > 3 then Inl (GoErr ''range query has at least the parameter [min:max:step]'')
         else (let keys = keys @ drop (length keys) [Const (VInt 0), Const floatMaxInt32, Const (VInt 1)]
               in Inr (appendAmbiguousSelector (rangeSelector g (keys ! 0) (keys ! 1) (keys ! 2)) p)))
      else if seperator = chr CHR ''?'' then
        (if length keys \<noteq> 1 then Inl (GoErr ''filter needs exactly one key'')
         else Inr (appendAmbiguousSelector (filterSelector g (keys ! 0)) p))
      else if length keys = 1 then Inr (appendPlainSelector (directSelector g (keys ! 0)) p)
      else Inr (appendAmbiguousSelector (multiSelector g keys) p))"

definition mapperBracket :: "gvalEval \<Rightarrow> evaluable list \<Rightarrow> rune \<Rightarrow> 'g parser \<Rightarrow> 'g parser res" where
  "mapperBracket g keys seperator p =
     (if seperator = chr CHR '':'' then Inl (GoErr ''mapper can not be combined with range query'')
      else if seperator = chr CHR ''?'' then
        (if length keys \<noteq> 1 then Inl (GoErr ''filter needs exactly one key'')
         else Inr (appendAmbiguousSelector (filterSelector g (keys ! 0)) p))
      else Inr (appendAmbiguousSelector (multiSelector g keys) p))"

text \<open>The sequencing of fallible, bounded runs.\<close>

definition thenRun :: "'a res option \<Rightarrow> ('a \<Rightarrow> 'b res option) \<Rightarrow> 'b res option" where
  "thenRun m f = (case m of None \<Rightarrow> None | Some (Inl e) \<Rightarrow> Some (Inl e) | Some (Inr x) \<Rightarrow> f x)"

fun parsePath :: "nat \<Rightarrow> 'g gvalParser \<Rightarrow> gvalEval \<Rightarrow> 'g parser \<Rightarrow> 'g parser res option"
and parseSelect :: "nat \<Rightarrow> 'g gvalParser \<Rightarrow> gvalEval \<Rightarrow> 'g parser \<Rightarrow> 'g parser res option"
and parseMapper :: "nat \<Rightarrow> 'g gvalParser \<Rightarrow> gvalEval \<Rightarrow> 'g parser \<Rightarrow> 'g parser res option"
and parseScript :: "nat \<Rightarrow> 'g gvalParser \<Rightarrow> gvalEval \<Rightarrow> 'g parser \<Rightarrow> 'g parser res option" where
  "parsePath 0 G g p = None"
| "parsePath (Suc n) G g p =
     (let (scan, p) = Scan G p in
      if scan = chr CHR ''.'' then parseSelect n G g p
      else if scan = chr CHR ''['' then
        thenRun (parseBracket n G [] 0 p) (\<lambda>(keys, seperator, p).
        thenRun (Some (bracketSelector g keys seperator p)) (\<lambda>p. parsePath n G g p))
      else if scan = chr CHR ''('' then parseScript n G g p
      else Some (Inr (Camouflage G p ''jsonpath'' [chr CHR ''.'', chr CHR ''['', chr CHR ''(''])))"
| "parseSelect 0 G g p = None"
| "parseSelect (Suc n) G g p =
     (let (scan, p) = Scan G p in
      if scan = scannerIdent then
        parsePath n G g (appendPlainSelector (directSelector g (Const (VStr (TokenText G p)))) p)
      else if scan = chr CHR ''.'' then parseMapper n G g (appendAmbiguousSelector mapperSelector p)
      else if scan = chr CHR ''*'' then parsePath n G g (appendAmbiguousSelector starSelector p)
      else Some (Expected G p ''JSON select'' [scannerIdent, chr CHR ''.'', chr CHR ''*'']))"
| "parseMapper 0 G g p = None"
| "parseMapper (Suc n) G g p =
     (let (scan, p) = Scan G p in
      if scan = scannerIdent then
        parsePath n G g (appendPlainSelector (directSelector g (Const (VStr (TokenText G p)))) p)
      else if scan = chr CHR ''['' then
        thenRun (parseBracket n G [] 0 p) (\<lambda>(keys, seperator, p).
        thenRun (Some (mapperBracket g keys seperator p)) (\<lambda>p. parsePath n G g p))
      else if scan = chr CHR ''*'' then parsePath n G g (appendAmbiguousSelector starSelector p)
      else if scan = chr CHR ''('' then parseScript n G g p
      else Some (Expected G p ''JSON mapper'' [chr CHR ''['', scannerIdent, chr CHR ''*'']))"
| "parseScript 0 G g p = None"
| "parseScript (Suc n) G g p =
     thenRun (Some (ParseExpression G p)) (\<lambda>(script, p).
       let (scan, p) = Scan G p in
       if scan \<noteq> chr CHR '')'' then Some (Expected G p ''jsonpath script'' [chr CHR '')''])
       else parsePath n G g (appendPlainSelector (newScript script) p))"

text \<open>\<open>parse\<close> returns the evaluable; the state of gval's parser goes back to the caller.\<close>

definition parse :: "nat \<Rightarrow> 'g gvalParser \<Rightarrow> gvalEval \<Rightarrow> 'g parser \<Rightarrow> (evaluable \<times> 'g parser) res option" where
  "parse n G g p = thenRun (parsePath n G g p) (\<lambda>p. Some (Inr (evaluate (p_path p), p)))"

definition parseRootPath :: "nat \<Rightarrow> 'g gvalParser \<Rightarrow> gvalEval \<Rightarrow> bool option \<Rightarrow> 'g \<Rightarrow> (evaluable \<times> 'g parser) res option" where
  "parseRootPath n G g w q = parse n G g (newParser q w)"

definition parseCurrentPath :: "nat \<Rightarrow> 'g gvalParser \<Rightarrow> gvalEval \<Rightarrow> bool option \<Rightarrow> 'g \<Rightarrow> (evaluable \<times> 'g parser) res option" where
  "parseCurrentPath n G g w q = parse n G g (appendPlainSelector currentElementSelector (newParser q w))"

section \<open>Objects and placeholders\<close>

text \<open>
  The parser of a value; under a key with a placeholder it must be a path. The path of the
  surrounding parser, if any, is not touched: gval calls these functions with its own state.
\<close>

definition parseJSONObjectElement :: "nat \<Rightarrow> 'g gvalParser \<Rightarrow> gvalEval \<Rightarrow> bool \<Rightarrow> evaluable \<Rightarrow> 'g parser \<Rightarrow>
    (jsonObject \<times> 'g parser) res option" where
  "parseJSONObjectElement n G g hasWildcard key p =
     (if hasWildcard then
        (let (scan, p) = Scan G (newParser (p_Parser p) (p_hasWildcard p)) in
         if scan \<noteq> chr CHR ''$'' \<and> scan \<noteq> chr CHR ''@'' then Some (Expected G p ''JSONPath key and value'' [])
         else thenRun (parsePath n G g
                  (if scan = chr CHR ''@'' then appendPlainSelector currentElementSelector p else p)) (\<lambda>p.
                Some (Inr (KeyValueMatcher key (p_path p), p))))
      else thenRun (Some (ParseExpression G p)) (\<lambda>(v, p). Some (Inr (KeyValuePair key v, p))))"

text \<open>
  The loop of \<open>parseJSONObject\<close>, with the elements so far. After a key the code scans for the colon
  but reports its absence only if \<open>err\<close> is set, which it is not there.
\<close>

fun parseJSONObject :: "nat \<Rightarrow> 'g gvalParser \<Rightarrow> gvalEval \<Rightarrow> jsonObject list \<Rightarrow> 'g parser \<Rightarrow>
    (evaluable \<times> 'g parser) res option" where
  "parseJSONObject 0 G g evals p = None"
| "parseJSONObject (Suc n) G g evals p =
     (let (scan, p) = Scan G p in
      if scan = chr CHR '','' then parseJSONObject n G g evals p
      else if scan = chr CHR ''}'' then Some (Inr (jsonObjectSlice_evaluable g evals, p))
      else
        (let ctx = p_hasWildcard p;
             p = Camouflage G p ''object'' [chr CHR '','', chr CHR ''}''] in
         thenRun (Some (ParseExpression G (p\<lparr>p_hasWildcard := Some False\<rparr>))) (\<lambda>(key, p).
           let hasWildcard = (p_hasWildcard p = Some True);
               (colon, p) = Scan G (p\<lparr>p_hasWildcard := ctx\<rparr>) in
           thenRun (parseJSONObjectElement n G g hasWildcard key p) (\<lambda>(e, p).
             parseJSONObject n G g (evals @ [e]) p))))"

text \<open>The text of a \<open>strconv.NumError\<close> of \<open>Atoi\<close>.\<close>

definition numErrorText :: "(string \<Rightarrow> string) \<Rightarrow> string \<Rightarrow> numError \<Rightarrow> string" where
  "numErrorText uq s e = ''strconv.Atoi: parsing '' @ quote uq s @
     (case e of ErrSyntax \<Rightarrow> '': invalid syntax'' | ErrRange \<Rightarrow> '': value out of range'')"

definition parsePlaceholder :: "'g gvalParser \<Rightarrow> (string \<Rightarrow> string) \<Rightarrow> 'g parser \<Rightarrow> (evaluable \<times> 'g parser) res" where
  "parsePlaceholder G uq p = (case p_hasWildcard p of
      None \<Rightarrow> Inl (GoErr ''JSONPath placeholder must only be used in an JSON object key'')
    | Some _ \<Rightarrow>
        (let (scan, p) = Scan G (p\<lparr>p_hasWildcard := Some True\<rparr>) in
         if scan = scannerInt then
           (case atoi (TokenText G p) of
              (i, None) \<Rightarrow> Inr (placeholder_evaluable uq i, p)
            | (_, Some e) \<Rightarrow> Inl (GoErr (numErrorText uq (TokenText G p) e)))
         else Inr (placeholder_evaluable uq allPlaceholders, Camouflage G p ''JSONPath placeholder'' [])))"

end
