(* ===== verification/Language.thy ===== *)
theory Language imports Expressions Parse begin

text \<open>
  The parse of the conditional of src/expressions/kubemod_jsonpath.go, on gval's parser, the
  languages that it and src/jsonpath/jsonpath.go put together, and the latter's entry points. gval's
  languages and the functions that build them are a parameter, a record with a field for each
  that the code calls.
\<close>

section \<open>The conditional\<close>

definition parseIf :: "'g gvalParser \<Rightarrow> evaluable \<Rightarrow> 'g parser \<Rightarrow> (evaluable \<times> 'g parser) res" where
  "parseIf G e p =
     bindr (ParseExpression G p) (\<lambda>(a, p).
       let (scan, p) = Scan G p in
       if scan = chr CHR '':'' then
         bindr (ParseExpression G p) (\<lambda>(b, p). Inr (conditional e a (Some b), p))
       else if scan = scannerEOF then Inr (conditional e a None, p)
       else Expected G p ''<> ? <> : <>'' [chr CHR '':'', scannerEOF])"

text \<open>
  The else branch may be left out only at the end of the input. A conditional that parses takes the
  value of its then branch unless the condition yields false or nil, evaluates only one of the
  branches, and fails when the condition fails.
\<close>

lemma parseIf_Inr:
  "parseIf G e p = Inr (f, q) \<longleftrightarrow> (\<exists>a p1 t p2. ParseExpression G p = Inr (a, p1) \<and> Scan G p1 = (t, p2) \<and>
     (t = chr CHR '':'' \<and> (\<exists>b. ParseExpression G p2 = Inr (b, q) \<and> f = conditional e a (Some b)) \<or>
      t = scannerEOF \<and> f = conditional e a None \<and> q = p2))"
proof (cases "ParseExpression G p")
  case (Inr ap)
  obtain a p1 t p2 where ap: "ap = (a, p1)" "Scan G p1 = (t, p2)" by (metis surj_pair)
  have "chr CHR '':'' \<noteq> scannerEOF" by (simp add: token_defs)
  then show ?thesis using Inr ap by (auto simp: parseIf_def Expected_def bindr_Inr_iff)
qed (simp add: parseIf_def)

lemma conditional_value:
  "e c v = Inr x \<Longrightarrow> conditional e a b c v =
     (if x = VBool False \<or> x = VNil then (case b of Some b \<Rightarrow> b c v | None \<Rightarrow> Inr VNil) else a c v)"
  "e c v = Inl err \<Longrightarrow> conditional e a b c v = Inl err"
  by (simp_all add: conditional_def falseOrNil_def Const_def cong: option.case_cong)

lemma parseIf_elseless:
  assumes "ParseExpression G p = Inr (a, p1)" and "Scan G p1 = (t, p2)" and "t \<noteq> chr CHR '':''" and "t \<noteq> scannerEOF"
  shows "\<exists>msg. parseIf G e p = Inl (GoErr msg)"
  using assms by (simp add: parseIf_def Expected_def)

section \<open>Languages\<close>

type_synonym 'g prefixExtension = "'g parser \<Rightarrow> (evaluable \<times> 'g parser) res option"

record ('l, 'g) gvalBuilders =
  NewLanguage :: "'l list \<Rightarrow> 'l"
  BaseLanguage :: 'l
  Arithmetic :: 'l
  Bitmask :: 'l
  TextLanguage :: 'l
  JSONLanguage :: 'l
  PrefixOperator :: "string \<Rightarrow> (val \<Rightarrow> val res) \<Rightarrow> 'l"
  InfixOperator :: "string \<Rightarrow> (val \<Rightarrow> val \<Rightarrow> val res) \<Rightarrow> 'l"
  InfixShortCircuit :: "string \<Rightarrow> (val \<Rightarrow> val \<times> bool) \<Rightarrow> 'l"
  PostfixOperator :: "string \<Rightarrow> (evaluable \<Rightarrow> 'g parser \<Rightarrow> (evaluable \<times> 'g parser) res) \<Rightarrow> 'l"
  FunctionLanguage :: "string \<Rightarrow> (val list \<Rightarrow> val res) \<Rightarrow> 'l"
  PrefixExtension :: "char \<Rightarrow> 'g prefixExtension \<Rightarrow> 'l"

text \<open>
  \<open>lang\<close> and \<open>placeholderExtension\<close>: the parsers of theory \<open>Parse\<close> as prefix extensions, each called
  on gval's parser, with a bound \<open>n\<close> on the nesting of its recursion.
\<close>

definition jsonpathLang :: "('l, 'g) gvalBuilders \<Rightarrow> nat \<Rightarrow> 'g gvalParser \<Rightarrow> gvalEval \<Rightarrow> 'l" where
  "jsonpathLang B n G g = NewLanguage B
     [BaseLanguage B,
      PrefixExtension B CHR ''$'' (\<lambda>p. parseRootPath n G g (p_hasWildcard p) (p_Parser p)),
      PrefixExtension B CHR ''@'' (\<lambda>p. parseCurrentPath n G g (p_hasWildcard p) (p_Parser p))]"

definition placeholderExtension :: "('l, 'g) gvalBuilders \<Rightarrow> nat \<Rightarrow> 'g gvalParser \<Rightarrow> gvalEval \<Rightarrow> (string \<Rightarrow> string) \<Rightarrow> 'l" where
  "placeholderExtension B n G g uq = NewLanguage B
     [jsonpathLang B n G g,
      PrefixExtension B CHR ''{'' (parseJSONObject n G g []),
      PrefixExtension B CHR ''#'' (\<lambda>p. Some (parsePlaceholder G uq p))]"

definition kubeModPropositionalLogic :: "('l, 'g) gvalBuilders \<Rightarrow> 'l" where
  "kubeModPropositionalLogic B = NewLanguage B
     [PrefixOperator B ''!'' notOperator,
      InfixShortCircuit B ''&&'' (\<lambda>a. (VBool False, a = VBool False)),
      InfixOperator B ''&&'' (infixBoolOperator (\<and>)),
      InfixShortCircuit B ''||'' (\<lambda>a. (VBool True, a = VBool True)),
      InfixOperator B ''||'' (infixBoolOperator (\<or>)),
      InfixOperator B ''=='' equalOperator,
      InfixOperator B ''!='' notEqualOperator,
      BaseLanguage B]"

definition NewKubeModJSONPathLanguage ::
    "('l, 'g) gvalBuilders \<Rightarrow> nat \<Rightarrow> 'g gvalParser \<Rightarrow> gvalEval \<Rightarrow> (string \<Rightarrow> string) \<Rightarrow> (string \<Rightarrow> string \<Rightarrow> val res) \<Rightarrow> 'l" where
  "NewKubeModJSONPathLanguage B n G g uq parseInLocation = NewLanguage B
     [Arithmetic B, Bitmask B, TextLanguage B, kubeModPropositionalLogic B, JSONLanguage B,
      InfixOperator B ''in'' inArray,
      InfixShortCircuit B ''??'' (\<lambda>a. (a, \<not> falseOrNil a)),
      InfixOperator B ''??'' (\<lambda>a b. Inr (if falseOrNil a then b else a)),
      PostfixOperator B ''?'' (parseIf G),
      FunctionLanguage B ''date'' (dateGValFunction parseInLocation),
      placeholderExtension B n G g uq,
      FunctionLanguage B ''length'' lengthGValFunction,
      FunctionLanguage B ''isDefined'' isDefinedGValFunction,
      FunctionLanguage B ''isUndefined'' isUndefinedGValFunction,
      FunctionLanguage B ''isEmpty'' isEmptyGValFunction,
      FunctionLanguage B ''isNotEmpty'' isNotEmptyGValFunction]"

section \<open>Which part of a language wins\<close>

text \<open>
  gval's languages as tables of extensions by rune and of functions by name: a language built
  from others is their union, the later part winning where two have an entry, and each
  constructor makes the one entry it names. The operators have neither; nor has \<open>Base\<close> the runes
  and names that KubeMod adds. \<open>JSON\<close> brings its own braces.
\<close>

fun lastOf :: "'a option list \<Rightarrow> 'a option" where
  "lastOf [] = None"
| "lastOf (x # xs) = (case lastOf xs of None \<Rightarrow> x | Some y \<Rightarrow> Some y)"

definition addedRunes :: "char set" where
  "addedRunes = {CHR ''$'', CHR ''@'', CHR ''{'', CHR ''#''}"

definition addedFunctions :: "string set" where
  "addedFunctions = {''date'', ''length'', ''isDefined'', ''isUndefined'', ''isEmpty'', ''isNotEmpty''}"

definition languageTables ::
    "('l, 'g) gvalBuilders \<Rightarrow> ('l \<Rightarrow> char \<Rightarrow> 'g prefixExtension option) \<Rightarrow> ('l \<Rightarrow> string \<Rightarrow> (val list \<Rightarrow> val res) option) \<Rightarrow> bool" where
  "languageTables B ext fn \<longleftrightarrow>
     (\<forall>ls k. ext (NewLanguage B ls) k = lastOf (map (\<lambda>l. ext l k) ls)) \<and>
     (\<forall>ls f. fn (NewLanguage B ls) f = lastOf (map (\<lambda>l. fn l f) ls)) \<and>
     (\<forall>r e k. ext (PrefixExtension B r e) k = (if k = r then Some e else None)) \<and>
     (\<forall>r e f. fn (PrefixExtension B r e) f = None) \<and>
     (\<forall>name h f. fn (FunctionLanguage B name h) f = (if f = name then Some h else None)) \<and>
     (\<forall>name h k. ext (FunctionLanguage B name h) k = None) \<and>
     (\<forall>k \<in> addedRunes. ext (BaseLanguage B) k = None) \<and> (\<forall>f \<in> addedFunctions. fn (BaseLanguage B) f = None)"

lemmas tables = languageTables_def NewKubeModJSONPathLanguage_def placeholderExtension_def
  jsonpathLang_def addedRunes_def addedFunctions_def

text \<open>
  What KubeMod's language resolves to. As long as in gval a later part of a language wins over
  an earlier one, the dollar sign, the at sign, the brace and the hash are parsed by the JSONPath
  package: in particular the brace of \<open>{#: path}\<close>, the form every select is compiled in, by its
  object with placeholders and not by gval's JSON, which the language has too and which comes
  first. \<open>date\<close>, \<open>length\<close> and the four tests of definedness and emptiness are KubeMod's functions.
\<close>

lemma language_resolves:
  assumes "languageTables B ext fn"
  shows "let l = NewKubeModJSONPathLanguage B n G g uq parseInLocation in
    ext l CHR ''$'' = Some (\<lambda>p. parseRootPath n G g (p_hasWildcard p) (p_Parser p)) \<and>
    ext l CHR ''@'' = Some (\<lambda>p. parseCurrentPath n G g (p_hasWildcard p) (p_Parser p)) \<and>
    ext l CHR ''{'' = Some (parseJSONObject n G g []) \<and>
    ext l CHR ''#'' = Some (\<lambda>p. Some (parsePlaceholder G uq p)) \<and>
    map (fn l) [''date'', ''length'', ''isDefined'', ''isUndefined'', ''isEmpty'', ''isNotEmpty''] =
      map Some [dateGValFunction parseInLocation, lengthGValFunction, isDefinedGValFunction, isUndefinedGValFunction,
        isEmptyGValFunction, isNotEmptyGValFunction]"
  using assms by (simp add: tables)

text \<open>Languages as the two tables themselves, JSON with a brace of its own.\<close>

type_synonym 'g tableLanguage = "(char \<Rightarrow> 'g prefixExtension option) \<times> (string \<Rightarrow> (val list \<Rightarrow> val res) option)"

definition tableBuilders :: "('g tableLanguage, 'g) gvalBuilders" where
  "tableBuilders = (let none = (\<lambda>_. None, \<lambda>_. None) in
     \<lparr>NewLanguage = \<lambda>ls. (\<lambda>k. lastOf (map (\<lambda>l. fst l k) ls), \<lambda>f. lastOf (map (\<lambda>l. snd l f) ls)),
      BaseLanguage = none, Arithmetic = none, Bitmask = none, TextLanguage = none,
      JSONLanguage = ([CHR ''{'' \<mapsto> \<lambda>p. None], \<lambda>_. None),
      PrefixOperator = \<lambda>_ _. none, InfixOperator = \<lambda>_ _. none, InfixShortCircuit = \<lambda>_ _. none, PostfixOperator = \<lambda>_ _. none,
      FunctionLanguage = \<lambda>name h. (\<lambda>_. None, [name \<mapsto> h]),
      PrefixExtension = \<lambda>r e. ([r \<mapsto> e], \<lambda>_. None)\<rparr>)"

lemma language_resolves_witness:
  "fst (NewKubeModJSONPathLanguage tableBuilders 5 G g uq t) CHR ''{'' = Some (parseJSONObject 5 G g [])"
proof -
  have "languageTables tableBuilders fst snd"
    by (simp add: languageTables_def tableBuilders_def Let_def)
  from language_resolves [OF this, of 5 G g uq t] show ?thesis by (simp add: Let_def)
qed

section \<open>Entry points\<close>

text \<open>The entry points on \<open>lang\<close>, with the \<open>NewEvaluable\<close> of a language as a parameter.\<close>

definition New :: "('l \<Rightarrow> string \<Rightarrow> evaluable res) \<Rightarrow> 'l \<Rightarrow> string \<Rightarrow> evaluable res" where
  "New langNewEvaluable lang path = langNewEvaluable lang path"

definition Get :: "('l \<Rightarrow> string \<Rightarrow> evaluable res) \<Rightarrow> 'l \<Rightarrow> string \<Rightarrow> val \<Rightarrow> val res" where
  "Get langNewEvaluable lang path value = bindr (langNewEvaluable lang path) (\<lambda>eval. eval background value)"

end
