(* ===== verification/PathTemplate.thy ===== *)
theory PathTemplate imports Placeholder begin

text \<open>
  The string work of a patch operation (src/core/modrulestoreitem.go, lines 313 to 373, and
  src/util/template.go): select keys are taken apart into their parts, and the \<open>#i\<close>
  placeholders of a path are replaced by those parts through \<open>fmt.Sprintf\<close>.
\<close>

section \<open>The package's regular expressions\<close>

text \<open>
  The matches of \<open>pre(\d+)\<close> for a literal prefix \<open>pre\<close>, leftmost first and greedy: the text
  cut into the bytes outside every match and the digits of each match.
\<close>

datatype segment = Lit char | Hole string

function scanNum :: "string \<Rightarrow> string \<Rightarrow> segment list" where
  "scanNum pre s =
     (case s of
        [] \<Rightarrow> []
      | c # cs \<Rightarrow>
          (let rest = drop (length pre) s; ds = takeWhile isDigit rest in
           if pre \<noteq> [] \<and> hasPrefix s pre \<and> ds \<noteq> []
           then Hole ds # scanNum pre (dropWhile isDigit rest)
           else Lit c # scanNum pre cs))"
  by pat_completeness auto
termination
proof (relation "measure (\<lambda>(pre, s). length s)", goal_cases)
  case 1
  show ?case by simp
next
  case (2 pre s c cs rest ds)
  have "length (dropWhile isDigit (drop (length pre) s)) \<le> length (drop (length pre) s)"
    by (rule length_dropWhile_le)
  moreover have "length (drop (length pre) s) < length s"
    using 2 by (cases pre) auto
  ultimately have "length (dropWhile isDigit (drop (length pre) s)) < length s"
    by (rule le_less_trans)
  then show ?case using 2 by simp
next
  case 3
  then show ?case by simp
qed

declare scanNum.simps [simp del]

fun holes :: "segment list \<Rightarrow> string list" where
  "holes [] = []"
| "holes (Lit c # ss) = holes ss"
| "holes (Hole d # ss) = d # holes ss"

text \<open>\<open>rex.ReplaceAllString\<close>, the replacement of a match as a function of its digits.\<close>

fun fillHoles :: "(string \<Rightarrow> string) \<Rightarrow> segment list \<Rightarrow> string" where
  "fillHoles f [] = []"
| "fillHoles f (Lit c # ss) = c # fillHoles f ss"
| "fillHoles f (Hole d # ss) = f d @ fillHoles f ss"

text \<open>\<open>rexPathTemplatePlaceholder\<close> is \<open>#(\d+)\<close>.\<close>

definition scanPathPlaceholders :: "string \<Rightarrow> segment list" where
  "scanPathPlaceholders = scanNum ''#''"

text \<open>
  \<open>rexSelectKeySegment\<close>, an opening bracket and quote, one or more bytes other than brackets
  and quotes (the captured group), a closing quote and bracket.
\<close>

definition keyByte :: "char \<Rightarrow> bool" where
  "keyByte c \<longleftrightarrow> c \<notin> {CHR ''['', CHR '']'', CHR 0x22}"

function scanKeySegments :: "string \<Rightarrow> string list" where
  "scanKeySegments s =
     (case s of
        [] \<Rightarrow> []
      | c # cs \<Rightarrow>
          (let run = takeWhile keyByte (tl cs); rest = dropWhile keyByte (tl cs) in
           if c = CHR ''['' \<and> hasPrefix cs [CHR 0x22] \<and> run \<noteq> [] \<and> hasPrefix rest [CHR 0x22, CHR '']'']
           then run # scanKeySegments (drop 2 rest)
           else scanKeySegments cs))"
  by pat_completeness auto
termination
proof (relation "measure length", goal_cases)
  case 1
  show ?case by simp
next
  case (2 s c cs run rest)
  have "length (dropWhile keyByte (tl cs)) \<le> length (tl cs)"
    by (rule length_dropWhile_le)
  also have "\<dots> \<le> length cs" by simp
  finally have "length (dropWhile keyByte (tl cs)) < length (c # cs)" by simp
  with 2 show ?case by simp
next
  case 3
  then show ?case by simp
qed

declare scanKeySegments.simps [simp del]

section \<open>fmt.Sprintf with the verb v\<close>

text \<open>
  A format whose only verbs are \<open>%v\<close>, \<open>%[n]v\<close> and \<open>%%\<close>, taken apart; \<open>None\<close> for any other
  use of the percent sign, which \<open>sprintf\<close> leaves to its argument \<open>other\<close>.
\<close>

datatype piece = Txt char | Percent | NextArg | ArgIndex string

function parseFormat :: "string \<Rightarrow> piece list option" where
  "parseFormat s =
     (case s of
        [] \<Rightarrow> Some []
      | c # cs \<Rightarrow>
          if c \<noteq> CHR ''%'' then map_option (Cons (Txt c)) (parseFormat cs)
          else (case cs of
              [] \<Rightarrow> None
            | d # ds \<Rightarrow>
                if d = CHR ''v'' then map_option (Cons NextArg) (parseFormat ds)
                else if d = CHR ''%'' then map_option (Cons Percent) (parseFormat ds)
                else if d = CHR ''['' then
                  (let inside = takeWhile (\<lambda>x. x \<noteq> CHR '']'') ds;
                       rest = dropWhile (\<lambda>x. x \<noteq> CHR '']'') ds
                   in if hasPrefix rest [CHR '']'', CHR ''v'']
                      then map_option (Cons (ArgIndex inside)) (parseFormat (drop 2 rest))
                      else None)
                else None))"
  by pat_completeness auto
termination
proof (relation "measure length", goal_cases)
  case (5 s c cs d ds inside rest)
  have "length rest \<le> length ds" using 5 by (simp add: length_dropWhile_le)
  with 5 show ?case by simp
qed auto

declare parseFormat.simps [simp del]

text \<open>
  Rendering: \<open>argNum\<close> is the index of the next argument. An explicit index is one-based; an
  index that is no number or out of range prints \<open>%!v(BADINDEX)\<close> and does not advance.
  Arguments left over are reported at the end unless an explicit index occurred.
\<close>

definition argIndex :: "string \<Rightarrow> nat \<Rightarrow> nat option" where
  "argIndex ds n =
     (if ds \<noteq> [] \<and> list_all isDigit ds \<and> 1 \<le> natOf ds \<and> natOf ds \<le> n then Some (natOf ds - 1) else None)"

definition extraArgs :: "val list \<Rightarrow> string" where
  "extraArgs args = ''%!(EXTRA '' @
     strJoin (map (\<lambda>a. if a = VNil then ''<nil>'' else goTypeName a @ ''='' @ fmtV a) args) '', '' @ '')''"

fun render :: "piece list \<Rightarrow> nat \<Rightarrow> bool \<Rightarrow> val list \<Rightarrow> string" where
  "render [] argNum reordered args =
     (if \<not> reordered \<and> argNum < length args then extraArgs (drop argNum args) else [])"
| "render (Txt c # ps) argNum reordered args = c # render ps argNum reordered args"
| "render (Percent # ps) argNum reordered args = CHR ''%'' # render ps argNum reordered args"
| "render (NextArg # ps) argNum reordered args =
     (if argNum < length args then fmtV (args ! argNum) @ render ps (argNum + 1) reordered args
      else ''%!v(MISSING)'' @ render ps argNum reordered args)"
| "render (ArgIndex ds # ps) argNum reordered args =
     (case argIndex ds (length args) of
        Some i \<Rightarrow> fmtV (args ! i) @ render ps (i + 1) True args
      | None \<Rightarrow> ''%!v(BADINDEX)'' @ render ps argNum True args)"

type_synonym sprintfFallback = "string \<Rightarrow> val list \<Rightarrow> string"

definition sprintf :: "sprintfFallback \<Rightarrow> string \<Rightarrow> val list \<Rightarrow> string" where
  "sprintf other fmt args =
     (case parseFormat fmt of Some ps \<Rightarrow> render ps 0 False args | None \<Rightarrow> other fmt args)"

section \<open>Paths and keys\<close>

text \<open>\<open>extractMatches\<close> with and without type detection, on the captured strings.\<close>

definition detectType :: "string \<Rightarrow> val" where
  "detectType m = (case atoi m of (num, None) \<Rightarrow> VInt num | _ \<Rightarrow> VStr m)"

definition extractMatches :: "string list \<Rightarrow> bool \<Rightarrow> val list" where
  "extractMatches matches typeDetection =
     map (\<lambda>m. if typeDetection then detectType m else VStr m) matches"

definition keyPartsFromSelectKey :: "string \<Rightarrow> val list" where
  "keyPartsFromSelectKey selectKey = extractMatches (scanKeySegments selectKey) True"

text \<open>The index is the digits' value plus one in 64-bit arithmetic, and \<open>Atoi\<close>'s error is dropped.\<close>

definition oneBased :: "string \<Rightarrow> string" where
  "oneBased ds = itoa (wrap64 (fst (atoi ds) + 1))"

definition pathTemplateToSprintfTemplate :: "sprintfFallback \<Rightarrow> string \<Rightarrow> string" where
  "pathTemplateToSprintfTemplate other pathTemplate =
     (let segs = scanPathPlaceholders pathTemplate;
          matches = extractMatches (holes segs) False;
          matches = map (\<lambda>m. case m of VStr s \<Rightarrow> VStr (oneBased s) | _ \<Rightarrow> m) matches;
          sprintfTemplate = fillHoles (\<lambda>_. ''%%[%v]v'') segs
      in sprintf other sprintfTemplate matches)"

definition pathFromKeyParts :: "sprintfFallback \<Rightarrow> val list \<Rightarrow> string \<Rightarrow> string" where
  "pathFromKeyParts other selectKeyParts pathSprintfTemplate =
     (let ret = sprintf other pathSprintfTemplate selectKeyParts;
          ret = replaceAll ret ''%!v(BADINDEX)'' ''#(BADINDEX)''
      in case strIndex ret ''%!(EXTRA'' of None \<Rightarrow> ret | Some i \<Rightarrow> take i ret)"

text \<open>
  \<open>PreProcessModRuleGoTemplate\<close> of src/util/template.go: \<open>.#i\<close> in a value template becomes a
  reference to the i-th key part.
\<close>

definition PreProcessModRuleGoTemplate :: "string \<Rightarrow> string" where
  "PreProcessModRuleGoTemplate t =
     fillHoles (\<lambda>ds. ''(index .SelectKeyParts '' @ ds @ '')'') (scanNum ''.#'' t)"

text \<open>The functions \<open>NewSafeTemplate\<close> removes from the Sprig map, and the map without them.\<close>

definition blockFuncs :: "string list" where
  "blockFuncs = [''env'', ''expandenv'']"

definition safeFuncMap :: "(string \<times> 'f) list \<Rightarrow> (string \<times> 'f) list" where
  "safeFuncMap funcMap = fold (\<lambda>b fm. filter (\<lambda>(k, f). k \<noteq> b) fm) blockFuncs funcMap"

end
