(* ===== verification/Externals.thy ===== *)
theory Externals imports PathTemplate begin

text \<open>
  What the program calls outside its own sources, as one record of functions that the model's
  operations take: gval's parser, the regular expression engine, text/template with Sprig,
  YAML and JSON codecs, the two JSON patch libraries, \<open>sort.Sort\<close> and the order of a
  \<open>range\<close> loop over a map the program built. Theorems hold for every value of the record;
  where one relies on documented behaviour of a library, the behaviour is a hypothesis.

  A \<open>[]byte\<close> that may be nil is a \<open>string option\<close>.
\<close>

type_synonym regexp = "string \<Rightarrow> bool"
type_synonym bytes = "string option"

text \<open>
  \<open>PatchTemplateContext\<close> and \<open>RejectTemplateContext\<close> of src/core/templatecontext.go. The
  field \<open>Target\<close> is a pointer to the document variable, read when a template runs: the
  context is built with the document's value at that time. A template is a function of its context: the
  model covers the templates that only read it. Sprig's \<open>set\<close>, \<open>unset\<close> and the like, which stay in the function
  map, let a template write into the document that \<open>Target\<close> points at; such templates are outside the model.
\<close>

datatype templateContext =
    PatchTemplateContext (ctxNamespace: string) (ctxTarget: val) (SelectKeyParts: "val list") (SelectedItem: val)
  | RejectTemplateContext (ctxNamespace: string) (ctxTarget: val)

type_synonym goTemplate = "templateContext \<Rightarrow> string res"

text \<open>
  The result of evanphx's \<open>ApplyWithOptions\<close>: the pair of a document and an error, both of
  which its caller keeps. The options are those of \<open>jsonPatchApplyOptions\<close>.
\<close>

record applyOptions =
  AccumulatedCopySizeLimit :: int
  AllowMissingPathOnRemove :: bool
  SupportNegativeIndices :: bool
  EnsurePathExistsOnAdd :: bool

record ('p, 'o, 'i) externals =
  NewEvaluable :: "string \<Rightarrow> evaluable res"
  regexpCompile :: "string \<Rightarrow> regexp res"
  sprigFuncMap :: "(string \<times> string) list"
  templateParse :: "string \<Rightarrow> (string \<times> string) list \<Rightarrow> string \<Rightarrow> goTemplate res"
  sprintfOther :: sprintfFallback
  YAMLToJSON :: "string \<Rightarrow> string res"
  DecodePatch :: "string \<Rightarrow> 'p res"
  ApplyWithOptions :: "'p \<Rightarrow> bytes \<Rightarrow> applyOptions \<Rightarrow> (bytes \<times> string option) res"
  CreatePatch :: "bytes \<Rightarrow> bytes \<Rightarrow> 'o list res"
  jsonUnmarshal :: "bytes \<Rightarrow> val res"
  jsonMarshal :: "val \<Rightarrow> string res"
  sortSort :: "'i list \<Rightarrow> 'i list"
  rangeMap :: "entries \<Rightarrow> entries"

text \<open>\<open>util.NewSafeTemplate(name).Parse(text)\<close>: the template sees the reduced function map.\<close>

definition NewSafeTemplate_Parse :: "('p, 'o, 'i) externals \<Rightarrow> string \<Rightarrow> string \<Rightarrow> goTemplate res" where
  "NewSafeTemplate_Parse E templateName txt =
     templateParse E templateName (safeFuncMap (sprigFuncMap E)) txt"

end
