(* ===== verification/ModRuleApi.thy ===== *)
theory ModRuleApi imports Externals begin

text \<open>
  The ModRule resource of src/api/v1beta1: its types (modrule_types.go), the defaulting and
  the validating webhook (modrule_webhook.go).
\<close>

section \<open>Types\<close>

text \<open>The enumerations are Go strings, and any string can reach the code.\<close>

definition MatchForTypeAny :: string where
  "MatchForTypeAny = ''Any''"

definition MatchForTypeAll :: string where
  "MatchForTypeAll = ''All''"

definition ModRuleTypePatch :: string where
  "ModRuleTypePatch = ''Patch''"

definition ModRuleTypeReject :: string where
  "ModRuleTypeReject = ''Reject''"

record matchItem =
  Select :: string
  MatchFor :: string
  MatchValue :: "string option"
  MatchValues :: "string list"
  MatchRegex :: "string option"
  Negate :: bool

record patchOperation =
  Operation :: string
  PatchSelect :: "string option"
  Path :: string
  Value :: "string option"

record modRuleSpec =
  Type :: string
  ExecutionTier :: int16
  AdmissionOperations :: "string list"
  Match :: "matchItem list"
  Patch :: "patchOperation list"
  RejectMessage :: "string option"
  TargetNamespaceRegex :: "string option"

record modRule =
  Namespace :: string
  Name :: string
  Spec :: modRuleSpec

definition GetNamespacedName :: "modRule \<Rightarrow> string" where
  "GetNamespacedName m = Namespace m @ ''/'' @ Name m"

section \<open>Defaulting\<close>

definition defaultMatchItem :: "matchItem \<Rightarrow> matchItem" where
  "defaultMatchItem mi = (if MatchFor mi = [] then mi\<lparr>MatchFor := MatchForTypeAny\<rparr> else mi)"

definition Default :: "modRule \<Rightarrow> modRule" where
  "Default r =
     (let sp = Spec r;
          sp = sp\<lparr>Match := map defaultMatchItem (Match sp)\<rparr>;
          sp = (if AdmissionOperations sp = []
                then sp\<lparr>AdmissionOperations := [''CREATE'', ''UPDATE'']\<rparr> else sp)
      in r\<lparr>Spec := sp\<rparr>)"

section \<open>Validation\<close>

text \<open>A \<open>field.Error\<close>: the path of the field, the bad value of an invalid one, the detail.\<close>

datatype pathElem = Child string | Index nat

datatype badValue =
    BadString string
  | BadPatch "patchOperation list"
  | BadTier int16

datatype fieldError =
    Invalid "pathElem list" badValue string
  | Required "pathElem list" string

definition validateType :: "modRuleSpec \<Rightarrow> fieldError list" where
  "validateType sp =
     (if Type sp \<noteq> ModRuleTypePatch \<and> Type sp \<noteq> ModRuleTypeReject
      then [Invalid [Child ''spec'', Child ''type''] (BadString (Type sp)) ''unrecognized ModRule type'']
      else []) @
     (if Type sp \<noteq> ModRuleTypePatch \<and> Patch sp \<noteq> []
      then [Invalid [Child ''spec'', Child ''patch''] (BadPatch (Patch sp))
              (''field '' @ [CHR 0x27] @ ''patch'' @ [CHR 0x27] @ '' should be present only for ModRules of type Patch'')]
      else []) @
     (if Type sp = ModRuleTypePatch \<and> Patch sp = []
      then [Required [Child ''spec'', Child ''patch'']
              (''field '' @ [CHR 0x27] @ ''patch'' @ [CHR 0x27] @ '' cannot be empty for ModRules of type Patch'')]
      else []) @
     (case RejectMessage sp of
        None \<Rightarrow> []
      | Some msg \<Rightarrow>
          if Type sp \<noteq> ModRuleTypeReject
          then [Invalid [Child ''spec'', Child ''rejectMessage''] (BadString msg)
                  (''field '' @ [CHR 0x27] @ ''rejectMessage'' @ [CHR 0x27] @ '' should be present only for ModRules of type Reject'')]
          else []) @
     (if ExecutionTier sp = MinInt16 \<or> ExecutionTier sp = MaxInt16
      then [Invalid [Child ''spec'', Child ''executionTier''] (BadTier (ExecutionTier sp))
              (''field '' @ [CHR 0x27] @ ''executionTier'' @ [CHR 0x27] @ '' should be an integer value between -32767 and 32766'')]
      else [])"

text \<open>
  The compilers of a rule's expressions report their error in a message; a panic of theirs
  leaves the validation. \<open>check\<close> is the error list of one such test.
\<close>

definition check :: "'a res \<Rightarrow> (string \<Rightarrow> fieldError) \<Rightarrow> fieldError list res" where
  "check m err = onErr m (\<lambda>e. Inr [err e]) (\<lambda>_. Inr [])"

definition validateMatchItem :: "('p, 'o, 'i) externals \<Rightarrow> nat \<times> matchItem \<Rightarrow> fieldError list res" where
  "validateMatchItem E im =
     (case im of (i, mi) \<Rightarrow>
       bindr (if Select mi = []
              then Inr [Invalid [Child ''spec'', Child ''match'', Index i, Child ''select''] (BadString (Select mi))
                          ''spec.match[].select in body must be non-empty string'']
              else check (NewEvaluable E (Select mi))
                     (Invalid [Child ''spec'', Child ''match'', Index i, Child ''select''] (BadString (Select mi)))) (\<lambda>e1.
       bindr (case MatchRegex mi of
                None \<Rightarrow> Inr []
              | Some rex \<Rightarrow> check (regexpCompile E rex)
                  (Invalid [Child ''spec'', Child ''match'', Index i, Child ''matchRegex''] (BadString rex))) (\<lambda>e2.
       Inr (e1 @ e2 @
         (if MatchFor mi \<noteq> MatchForTypeAny \<and> MatchFor mi \<noteq> MatchForTypeAll
          then [Invalid [Child ''spec'', Child ''match'', Index i, Child ''matchFor''] (BadString (MatchFor mi))
                  ''unrecognized matchFor value'']
          else [])))))"

text \<open>A patch operation without a value is not looked at, its select query included.\<close>

definition validatePatchOperation :: "('p, 'o, 'i) externals \<Rightarrow> nat \<times> patchOperation \<Rightarrow> fieldError list res" where
  "validatePatchOperation E ip =
     (case ip of (i, po) \<Rightarrow>
       (case Value po of
          None \<Rightarrow> Inr []
        | Some value \<Rightarrow>
            bindr (check (NewSafeTemplate_Parse E (Path po) (PreProcessModRuleGoTemplate value))
                     (Invalid [Child ''spec'', Child ''patch'', Index i, Child ''value''] (BadString value))) (\<lambda>e1.
            bindr (case PatchSelect po of
                     None \<Rightarrow> Inr []
                   | Some sel \<Rightarrow>
                       if sel = [] then Inr []
                       else check (NewEvaluable E sel)
                              (Invalid [Child ''spec'', Child ''patch'', Index i, Child ''select''] (BadString sel))) (\<lambda>e2.
            Inr (e1 @ e2)))))"

definition allErrors :: "('p, 'o, 'i) externals \<Rightarrow> modRule \<Rightarrow> fieldError list res" where
  "allErrors E r =
     (let sp = Spec r in
      bindr (concatM (validateMatchItem E) (enumerate 0 (Match sp))) (\<lambda>ms.
      bindr (concatM (validatePatchOperation E) (enumerate 0 (Patch sp))) (\<lambda>ps.
      bindr (case RejectMessage sp of
               None \<Rightarrow> Inr []
             | Some msg \<Rightarrow> check (NewSafeTemplate_Parse E ''rejectMessage'' msg)
                 (Invalid [Child ''spec'', Child ''rejectMessage''] (BadString msg))) (\<lambda>rs.
      Inr (validateType sp @ ms @ ps @ rs)))))"

text \<open>
  \<open>apierrors.NewInvalid\<close> wraps the list in an API error; \<open>validateModRule\<close> returns it, here
  as the list itself (\<open>Some errs\<close>), or nil (\<open>None\<close>).
\<close>

definition validateModRule :: "('p, 'o, 'i) externals \<Rightarrow> modRule \<Rightarrow> fieldError list option res" where
  "validateModRule E r =
     bindr (allErrors E r) (\<lambda>allErrs. Inr (if allErrs \<noteq> [] then Some allErrs else None))"

definition ValidateCreate :: "('p, 'o, 'i) externals \<Rightarrow> modRule \<Rightarrow> fieldError list option res" where
  "ValidateCreate E r = validateModRule E r"

definition ValidateUpdate :: "('p, 'o, 'i) externals \<Rightarrow> modRule \<Rightarrow> modRule \<Rightarrow> fieldError list option res" where
  "ValidateUpdate E r old = validateModRule E r"

definition ValidateDelete :: "('p, 'o, 'i) externals \<Rightarrow> modRule \<Rightarrow> fieldError list option res" where
  "ValidateDelete E r = Inr None"

end
