(* ===== verification/DeepCopyProps.thy ===== *)
theory DeepCopyProps imports DeepCopy begin

text \<open>
  The contract of a deep copy as a locale, closed under slices, pointers and structs, and its
  interpretation for the types of the API.
\<close>

section \<open>Readers\<close>

text \<open>The value of an array, a slice and a pointer, given the reader of the elements; nil reads as \<open>Some None\<close>.\<close>

definition readElems :: "(('m, 'n) memory \<Rightarrow> 'e \<Rightarrow> 'v option) \<Rightarrow> ('m, 'n) memory \<Rightarrow> 'e list \<Rightarrow> 'v list option" where
  "readElems read h xs = those (map (read h) xs)"

definition readSlice :: "('m, 'n, 'e) arrayType \<Rightarrow> (('m, 'n) memory \<Rightarrow> 'e \<Rightarrow> 'v option) \<Rightarrow>
    ('m, 'n) memory \<Rightarrow> addr option \<Rightarrow> 'v list option option" where
  "readSlice R read h p = (case p of
      None \<Rightarrow> Some None
    | Some a \<Rightarrow> (case readArray R h a of Some xs \<Rightarrow> map_option Some (readElems read h xs) | None \<Rightarrow> None))"

definition readPointer :: "('m, 'n, 'e) arrayType \<Rightarrow> (('m, 'n) memory \<Rightarrow> 'e \<Rightarrow> 'v option) \<Rightarrow>
    ('m, 'n) memory \<Rightarrow> addr option \<Rightarrow> 'v option option" where
  "readPointer R read h p = (case p of
      None \<Rightarrow> Some None
    | Some a \<Rightarrow> (case readArray R h a of Some [x] \<Rightarrow> map_option Some (read h x) | _ \<Rightarrow> None))"

definition readValue :: "('m, 'n) memory \<Rightarrow> 'e \<Rightarrow> 'e option" where
  "readValue h x = Some x"

lemma readElems_Some: "readElems read h xs = Some vs \<longleftrightarrow> list_all2 (\<lambda>x v. read h x = Some v) xs vs"
proof (induction xs arbitrary: vs)
  case (Cons x xs)
  then show ?case
    by (cases vs) (auto simp: readElems_def split: option.splits)
qed (auto simp: readElems_def)

lemma readSlice_Some:
  "readSlice R read h p = Some v \<longleftrightarrow> p = None \<and> v = None \<or>
    (\<exists>a xs vs. p = Some a \<and> v = Some vs \<and> readArray R h a = Some xs \<and> readElems read h xs = Some vs)"
  by (cases p) (auto simp: readSlice_def split: option.splits)

lemma readPointer_Some:
  "readPointer R read h p = Some v \<longleftrightarrow> p = None \<and> v = None \<or>
    (\<exists>a x w. p = Some a \<and> v = Some w \<and> readArray R h a = Some [x] \<and> read h x = Some w)"
  by (cases p) (auto simp: readPointer_def split: option.splits list.splits)

lemma readArray_mono: "readArray R h a = Some xs \<Longrightarrow> prefix h h2 \<Longrightarrow> readArray R h2 a = Some xs"
  by (auto simp: readArray_def prefix_def nth_append split: if_splits)

section \<open>The contract\<close>

text \<open>
  Two memories agree on some addresses. A reader gives the value that a piece of memory stands for.
  The contract: the copy succeeds, every old cell keeps its content, and the new value is read from
  the new cells alone: in any memory that agrees on them.
\<close>

definition agree :: "addr set \<Rightarrow> ('m, 'n) memory \<Rightarrow> ('m, 'n) memory \<Rightarrow> bool" where
  "agree A h h2 \<longleftrightarrow> (\<forall>a \<in> A. a < length h \<longrightarrow> a < length h2 \<and> h2 ! a = h ! a)"

lemma prefix_agree: "prefix h h2 \<longleftrightarrow> agree {..<length h} h h2"
proof
  assume "agree {..<length h} h h2"
  then have "length h \<le> length h2" "\<And>a. a < length h \<Longrightarrow> h2 ! a = h ! a"
    by (auto simp: agree_def)
  then have "take (length h) h2 = h" by (simp add: list_eq_iff_nth_eq)
  then show "prefix h h2" by (metis take_is_prefix)
qed (auto simp: agree_def prefix_def nth_append)

locale copier =
  fixes read :: "('m, 'n) memory \<Rightarrow> 'c \<Rightarrow> 'v option"
    and copy :: "('m, 'n, 'c) copyFun"
  assumes read_mono: "read h c = Some v \<Longrightarrow> prefix h h2 \<Longrightarrow> read h2 c = Some v"
    and copies: "read h c = Some v \<Longrightarrow> \<exists>c' h'. copy c h = Some (c', h') \<and> prefix h h' \<and>
      (\<forall>h2. agree {length h..<length h'} h' h2 \<longrightarrow> read h2 c' = Some v)"
begin

text \<open>The loop over an array: it changes only the array it fills, and fills it with copies.\<close>

lemma copyElems_ok:
  assumes R: "array_ok R"
  shows "prefix h0 h \<Longrightarrow> length h0 \<le> out \<Longrightarrow> out < length h \<Longrightarrow> h ! out = wrap R ys \<Longrightarrow>
    length ys = i + length xs \<Longrightarrow> list_all2 (\<lambda>x v. read h0 x = Some v) xs vs \<Longrightarrow>
    \<exists>h' zs. copyElems R copy out i xs h = Some h' \<and> length h \<le> length h' \<and>
      agree (- {out}) h h' \<and> h' ! out = wrap R (take i ys @ zs) \<and>
      (\<forall>h2. agree {length h..<length h'} h' h2 \<longrightarrow> list_all2 (\<lambda>z v. read h2 z = Some v) zs vs)"
proof (induction xs arbitrary: i h ys vs)
  case Nil
  then show ?case by (intro exI [of _ h] exI [of _ "[]"]) (simp add: agree_def)
next
  case (Cons x xs)
  obtain v vs' where vs: "vs = v # vs'" "read h0 x = Some v" "list_all2 (\<lambda>x v. read h0 x = Some v) xs vs'"
    using Cons.prems(6) by (auto simp: list_all2_Cons1)
  from copies [OF read_mono [OF vs(2) Cons.prems(1)]] obtain y h1
    where y: "copy x h = Some (y, h1)" "prefix h h1"
      "\<And>h2. agree {length h..<length h1} h1 h2 \<Longrightarrow> read h2 y = Some v" by blast
  let ?h2 = "h1[out := wrap R (ys[i := y])]"
  have len: "length h \<le> length h1" and old: "\<And>a. a < length h \<Longrightarrow> h1 ! a = h ! a"
    using y(2) by (auto simp: prefix_agree agree_def dest: prefix_length_le)
  have wr: "writeElem R out i y h1 = ?h2"
    using R Cons.prems(3,4) len old by (simp add: writeElem_def readArray_def array_ok_def)
  have "prefix h0 ?h2"
    using Cons.prems(1,2) y(2) len by (auto simp: prefix_agree agree_def dest!: prefix_length_le)
  from Cons.IH [OF this Cons.prems(2) _ _ _ vs(3), of "ys[i := y]" "Suc i"] Cons.prems(3-5) len
  obtain h' zs where h': "copyElems R copy out (Suc i) xs ?h2 = Some h'" "length h1 \<le> length h'"
    "agree (- {out}) ?h2 h'" "h' ! out = wrap R (take (Suc i) (ys[i := y]) @ zs)"
    "\<And>h2. agree {length h1..<length h'} h' h2 \<Longrightarrow> list_all2 (\<lambda>z v. read h2 z = Some v) zs vs'"
    by auto
  have "take (Suc i) (ys[i := y]) = take i ys @ [y]" using Cons.prems(5) by (simp add: take_Suc_conv_app_nth)
  moreover have "agree (- {out}) h h'" using h'(3) len old by (simp add: agree_def)
  moreover have "list_all2 (\<lambda>z v. read h2 z = Some v) (y # zs) vs"
    if "agree {length h..<length h'} h' h2" for h2
  proof -
    have "agree {length h..<length h1} h1 h2"
      using that h'(2,3) Cons.prems(3) by (auto simp: agree_def)
    moreover have "agree {length h1..<length h'} h' h2" using that len by (auto simp: agree_def)
    ultimately show ?thesis using y(3) h'(5) vs(1) by simp
  qed
  ultimately show ?case using y(1) wr h'(1,2,4) len
    by (intro exI [of _ h'] exI [of _ "y # zs"]) simp
qed

lemma copyArray_ok:
  assumes R: "array_ok R" and xs: "readElems read h xs = Some vs"
  shows "\<exists>a h'. copyArray R copy xs h = Some (Some a, h') \<and> prefix h h' \<and>
    (\<forall>h2. agree {length h..<length h'} h' h2 \<longrightarrow>
       (\<exists>zs. readArray R h2 a = Some zs \<and> length zs = length xs \<and> readElems read h2 zs = Some vs))"
proof -
  let ?h1 = "h @ [wrap R (replicate (length xs) (zero R))]"
  have "prefix h ?h1" "?h1 ! length h = wrap R (replicate (length xs) (zero R))" by simp_all
  from copyElems_ok [OF R this(1) _ _ this(2), of 0 xs vs] xs obtain h' zs
    where h': "copyElems R copy (length h) 0 xs ?h1 = Some h'" "length h < length h'"
      "agree (- {length h}) ?h1 h'" "h' ! length h = wrap R zs"
      "\<And>h2. agree {Suc (length h)..<length h'} h' h2 \<Longrightarrow> list_all2 (\<lambda>z v. read h2 z = Some v) zs vs"
    by (auto simp: readElems_Some)
  have "prefix h h'" using h'(3) by (auto simp: prefix_agree agree_def nth_append)
  moreover have "readArray R h2 (length h) = Some zs \<and> length zs = length xs \<and> readElems read h2 zs = Some vs"
    if "agree {length h..<length h'} h' h2" for h2
  proof -
    have "readArray R h2 (length h) = Some zs"
      using that h'(2,4) R by (auto simp: agree_def readArray_def array_ok_def)
    moreover have "readElems read h2 zs = Some vs"
      using that h'(5) by (auto simp: readElems_Some agree_def)
    moreover from this have "length zs = length xs"
      using xs by (auto simp: readElems_Some dest!: list_all2_lengthD)
    ultimately show ?thesis by blast
  qed
  ultimately show ?thesis using h'(1) by (auto simp: copyArray_def makeArray_def)
qed

lemma readElems_mono: "readElems read h xs = Some vs \<Longrightarrow> prefix h h2 \<Longrightarrow> readElems read h2 xs = Some vs"
  unfolding readElems_Some by (erule list_all2_mono) (rule read_mono)

text \<open>Slices of, and pointers to, what has a copier have one.\<close>

lemma slice_copier:
  assumes R: "array_ok R"
  shows "copier (readSlice R read) (copySlice R copy)"
proof
  fix h p v h2
  assume "readSlice R read h p = Some v" and h2: "prefix h h2"
  then show "readSlice R read h2 p = Some v"
    unfolding readSlice_Some using readArray_mono [OF _ h2] readElems_mono [OF _ h2] by metis
next
  fix h p v
  assume "readSlice R read h p = Some v"
  then consider "p = None" "v = None" | a xs vs where "p = Some a" "v = Some vs" "readArray R h a = Some xs"
    "readElems read h xs = Some vs" unfolding readSlice_Some by blast
  then show "\<exists>c' h'. copySlice R copy p h = Some (c', h') \<and> prefix h h' \<and>
      (\<forall>h2. agree {length h..<length h'} h' h2 \<longrightarrow> readSlice R read h2 c' = Some v)"
  proof cases
    case 2
    from copyArray_ok [OF R 2(4)] 2(1-3) show ?thesis
      by (fastforce simp: copySlice_def readSlice_Some)
  qed (simp add: copySlice_def readSlice_Some)
qed

lemma pointer_copier:
  assumes R: "array_ok R"
  shows "copier (readPointer R read) (copyPointer R copy)"
proof
  fix h p v h2
  assume "readPointer R read h p = Some v" and h2: "prefix h h2"
  then show "readPointer R read h2 p = Some v"
    unfolding readPointer_Some using readArray_mono [OF _ h2] read_mono [OF _ h2] by metis
next
  fix h p v
  assume "readPointer R read h p = Some v"
  then consider "p = None" "v = None" | a x w where "p = Some a" "v = Some w" "readArray R h a = Some [x]"
    "readElems read h [x] = Some [w]" unfolding readPointer_Some readElems_Some by auto
  then show "\<exists>c' h'. copyPointer R copy p h = Some (c', h') \<and> prefix h h' \<and>
      (\<forall>h2. agree {length h..<length h'} h' h2 \<longrightarrow> readPointer R read h2 c' = Some v)"
  proof cases
    case 2
    from copyArray_ok [OF R 2(4)] 2(1-3) show ?thesis
      by (fastforce simp: copyPointer_def readPointer_Some readElems_Some length_Suc_conv)
  qed (simp add: copyPointer_def readPointer_Some)
qed

end

section \<open>Structs\<close>

text \<open>
  A struct is copied field after field: the readers and copies of two fields pair up, and a struct
  \<open>s\<close> whose fields \<open>f s\<close> are replaced by their copies (\<open>k s\<close>) reads as the rest of it (\<open>g s\<close>) with what
  the fields read as.
\<close>

definition readPair :: "(('m, 'n) memory \<Rightarrow> 'a \<Rightarrow> 'v option) \<Rightarrow> (('m, 'n) memory \<Rightarrow> 'b \<Rightarrow> 'w option) \<Rightarrow>
    ('m, 'n) memory \<Rightarrow> 'a \<times> 'b \<Rightarrow> ('v \<times> 'w) option" where
  "readPair r1 r2 h ab =
     Option.bind (r1 h (fst ab)) (\<lambda>v. map_option (Pair v) (r2 h (snd ab)))"

definition copyPair :: "('m, 'n, 'a) copyFun \<Rightarrow> ('m, 'n, 'b) copyFun \<Rightarrow> ('m, 'n, 'a \<times> 'b) copyFun" where
  "copyPair c1 c2 ab h =
     thenCopy (c1 (fst ab) h) (\<lambda>a h. thenCopy (c2 (snd ab) h) (\<lambda>b h. Some ((a, b), h)))"

lemma readPair_Some:
  "readPair r1 r2 h ab = Some vw \<longleftrightarrow> r1 h (fst ab) = Some (fst vw) \<and> r2 h (snd ab) = Some (snd vw)"
  by (cases vw) (auto simp: readPair_def bind_eq_Some_conv)

lemma pair_copier:
  assumes "copier r1 c1" and "copier r2 c2"
  shows "copier (readPair r1 r2) (copyPair c1 c2)"
proof
  fix h ab vw h2
  assume "readPair r1 r2 h ab = Some vw" "prefix h h2"
  then show "readPair r1 r2 h2 ab = Some vw"
    unfolding readPair_Some by (metis copier.read_mono [OF assms(1)] copier.read_mono [OF assms(2)])
next
  fix h ab vw
  assume "readPair r1 r2 h ab = Some vw"
  then have r: "r1 h (fst ab) = Some (fst vw)" "r2 h (snd ab) = Some (snd vw)" by (simp_all add: readPair_Some)
  from copier.copies [OF assms(1) r(1)] obtain a h1 where a: "c1 (fst ab) h = Some (a, h1)" "prefix h h1"
    "\<And>h2. agree {length h..<length h1} h1 h2 \<Longrightarrow> r1 h2 a = Some (fst vw)" by blast
  from copier.copies [OF assms(2) copier.read_mono [OF assms(2) r(2) a(2)]] obtain b h'
    where b: "c2 (snd ab) h1 = Some (b, h')" "prefix h1 h'"
      "\<And>h2. agree {length h1..<length h'} h' h2 \<Longrightarrow> r2 h2 b = Some (snd vw)" by blast
  have len: "length h \<le> length h1" "length h1 \<le> length h'" using a(2) b(2) by (simp_all add: prefix_length_le)
  have "readPair r1 r2 h2 (a, b) = Some vw" if "agree {length h..<length h'} h' h2" for h2
  proof -
    have "agree {length h..<length h1} h1 h2" using that b(2) len by (auto simp: prefix_agree agree_def)
    moreover have "agree {length h1..<length h'} h' h2" using that len by (auto simp: agree_def)
    ultimately show ?thesis using a(3) b(3) by (simp add: readPair_Some)
  qed
  then show "\<exists>c' h'. copyPair c1 c2 ab h = Some (c', h') \<and> prefix h h' \<and>
      (\<forall>h2. agree {length h..<length h'} h' h2 \<longrightarrow> readPair r1 r2 h2 c' = Some vw)"
    using a(1,2) b(1,2) by (auto simp: copyPair_def thenCopy_def)
qed

lemma struct_copier:
  assumes "copier r c" and "\<And>s y. f (k s y) = y" and "\<And>s y. g (k s y) = g s"
  shows "copier (\<lambda>h s. map_option (g s) (r h (f s))) (\<lambda>s h. thenCopy (c (f s) h) (\<lambda>y h. Some (k s y, h)))"
proof
  fix h s v h2
  assume "map_option (g s) (r h (f s)) = Some v" "prefix h h2"
  then show "map_option (g s) (r h2 (f s)) = Some v"
    unfolding map_option_eq_Some by (metis copier.read_mono [OF assms(1)])
next
  fix h s v
  assume "map_option (g s) (r h (f s)) = Some v"
  then obtain w where w: "r h (f s) = Some w" "v = g s w" by auto
  from copier.copies [OF assms(1) w(1)] obtain y h' where "c (f s) h = Some (y, h')" "prefix h h'"
    "\<And>h2. agree {length h..<length h'} h' h2 \<Longrightarrow> r h2 y = Some w" by blast
  then show "\<exists>c' h'. thenCopy (c (f s) h) (\<lambda>y h. Some (k s y, h)) = Some (c', h') \<and> prefix h h' \<and>
      (\<forall>h2. agree {length h..<length h'} h' h2 \<longrightarrow> map_option (g c') (r h2 (f c')) = Some v)"
    using w(2) assms(2,3) by (auto simp: thenCopy_def)
qed

section \<open>The types of the API\<close>

interpretation cv: copier readValue copyValue
  by unfold_locales (auto simp: readValue_def copyValue_def)

abbreviation readStringPointer :: "('m, 'n) memory \<Rightarrow> addr option \<Rightarrow> string option option" where
  "readStringPointer \<equiv> readPointer stringCells readValue"

abbreviation readStringSlice :: "('m, 'n) memory \<Rightarrow> addr option \<Rightarrow> string list option option" where
  "readStringSlice \<equiv> readSlice stringCells readValue"

definition readMatchItem :: "('m, 'n) memory \<Rightarrow> matchItemC \<Rightarrow> matchItemV option" where
  "readMatchItem h it = map_option (\<lambda>(p, q, r). \<lparr>mi_Select = mi_Select it, mi_MatchFor = mi_MatchFor it,
       mi_MatchValue = p, mi_MatchValues = q, mi_MatchRegex = r, mi_Negate = mi_Negate it\<rparr>)
     (readPair readStringPointer (readPair readStringSlice readStringPointer) h
        (mi_MatchValue it, mi_MatchValues it, mi_MatchRegex it))"

definition readPatchOperation :: "('m, 'n) memory \<Rightarrow> patchOperationC \<Rightarrow> patchOperationV option" where
  "readPatchOperation h po = map_option (\<lambda>(p, q). \<lparr>po_Operation = po_Operation po, po_Select = p,
       po_Path = po_Path po, po_Value = q\<rparr>)
     (readPair readStringPointer readStringPointer h (po_Select po, po_Value po))"

definition readSpec :: "('m, 'n) memory \<Rightarrow> specC \<Rightarrow> specV option" where
  "readSpec h sp = map_option (\<lambda>(p, q, r, s, t). \<lparr>sp_Type = sp_Type sp, sp_ExecutionTier = sp_ExecutionTier sp,
       sp_AdmissionOperations = p, sp_Match = q, sp_Patch = r, sp_RejectMessage = s, sp_TargetNamespaceRegex = t\<rparr>)
     (readPair readStringSlice (readPair (readSlice matchItemCells readMatchItem)
        (readPair (readSlice patchOperationCells readPatchOperation) (readPair readStringPointer readStringPointer))) h
        (sp_AdmissionOperations sp, sp_Match sp, sp_Patch sp, sp_RejectMessage sp, sp_TargetNamespaceRegex sp))"

text \<open>Of the metadata, \<open>readMeta\<close> and \<open>readListMeta\<close> give the value.\<close>

definition readRule :: "(('m, 'n) memory \<Rightarrow> 'm \<Rightarrow> 'w option) \<Rightarrow> ('m, 'n) memory \<Rightarrow> 'm ruleC \<Rightarrow> 'w ruleV option" where
  "readRule readMeta h mr = map_option (\<lambda>(m, sp). \<lparr>mr_TypeMeta = mr_TypeMeta mr, mr_ObjectMeta = m,
     mr_Spec = sp, mr_Status = mr_Status mr\<rparr>) (readPair readMeta readSpec h (mr_ObjectMeta mr, mr_Spec mr))"

definition readRuleList :: "(('m, 'n) memory \<Rightarrow> 'm \<Rightarrow> 'w option) \<Rightarrow> 'm \<Rightarrow> (('m, 'n) memory \<Rightarrow> 'n \<Rightarrow> 'x option) \<Rightarrow>
    ('m, 'n) memory \<Rightarrow> 'n ruleListC \<Rightarrow> ('w, 'x) ruleListV option" where
  "readRuleList readMeta m0 readListMeta h ml = map_option (\<lambda>(n, items). \<lparr>ml_TypeMeta = ml_TypeMeta ml, ml_ListMeta = n,
     ml_Items = items\<rparr>) (readPair readListMeta (readSlice (ruleCells m0) (readRule readMeta)) h (ml_ListMeta ml, ml_Items ml))"

lemmas string_copiers = cv.pointer_copier [OF cells_ok(1)] cv.slice_copier [OF cells_ok(1)]

interpretation mi: copier readMatchItem MatchItem_DeepCopyInto
proof -
  note c = struct_copier [OF pair_copier [OF string_copiers(1) pair_copier [OF string_copiers(2,1)]],
    where f = "\<lambda>it. (mi_MatchValue it, mi_MatchValues it, mi_MatchRegex it)"
      and k = "\<lambda>it (p, q, r). it\<lparr>mi_MatchValue := p, mi_MatchValues := q, mi_MatchRegex := r\<rparr>"
      and g = "\<lambda>it (p, q, r). \<lparr>mi_Select = mi_Select it, mi_MatchFor = mi_MatchFor it,
       mi_MatchValue = p, mi_MatchValues = q, mi_MatchRegex = r, mi_Negate = mi_Negate it\<rparr>"]
  show "copier readMatchItem MatchItem_DeepCopyInto"
    using c by (simp add: readMatchItem_def [abs_def] MatchItem_DeepCopyInto_def [abs_def] copyPair_def
      thenCopy_def split_def)
qed

interpretation po: copier readPatchOperation PatchOperation_DeepCopyInto
proof -
  note c = struct_copier [OF pair_copier [OF string_copiers(1,1)],
    where f = "\<lambda>po. (po_Select po, po_Value po)"
      and k = "\<lambda>po (p, q). po\<lparr>po_Select := p, po_Value := q\<rparr>"
      and g = "\<lambda>po (p, q). \<lparr>po_Operation = po_Operation po, po_Select = p, po_Path = po_Path po, po_Value = q\<rparr>"]
  show "copier readPatchOperation PatchOperation_DeepCopyInto"
    using c by (simp add: readPatchOperation_def [abs_def] PatchOperation_DeepCopyInto_def [abs_def] copyPair_def
      thenCopy_def split_def)
qed

lemmas slice_copiers = mi.slice_copier [OF cells_ok(2)] po.slice_copier [OF cells_ok(3)]

interpretation sp: copier readSpec ModRuleSpec_DeepCopyInto
proof -
  note c = struct_copier [OF pair_copier [OF string_copiers(2) pair_copier [OF slice_copiers(1)
      pair_copier [OF slice_copiers(2) pair_copier [OF string_copiers(1,1)]]]],
    where f = "\<lambda>sp. (sp_AdmissionOperations sp, sp_Match sp, sp_Patch sp, sp_RejectMessage sp, sp_TargetNamespaceRegex sp)"
      and k = "\<lambda>sp (p, q, r, s, t). sp\<lparr>sp_AdmissionOperations := p, sp_Match := q, sp_Patch := r,
        sp_RejectMessage := s, sp_TargetNamespaceRegex := t\<rparr>"
      and g = "\<lambda>sp (p, q, r, s, t). \<lparr>sp_Type = sp_Type sp, sp_ExecutionTier = sp_ExecutionTier sp,
        sp_AdmissionOperations = p, sp_Match = q, sp_Patch = r, sp_RejectMessage = s, sp_TargetNamespaceRegex = t\<rparr>"]
  show "copier readSpec ModRuleSpec_DeepCopyInto"
    using c by (simp add: readSpec_def [abs_def] ModRuleSpec_DeepCopyInto_def [abs_def] copyPair_def
      thenCopy_def split_def)
qed

text \<open>A rule is copied when its metadata are.\<close>

lemma rule_copier:
  assumes "copier readMeta metaCopy"
  shows "copier (readRule readMeta) (ModRule_DeepCopyInto metaCopy)"
proof -
  note c = struct_copier [OF pair_copier [OF assms sp.copier_axioms],
    where f = "\<lambda>mr. (mr_ObjectMeta mr, mr_Spec mr)"
      and k = "\<lambda>mr (m, sp). mr\<lparr>mr_ObjectMeta := m, mr_Spec := sp\<rparr>"
      and g = "\<lambda>mr (m, sp). \<lparr>mr_TypeMeta = mr_TypeMeta mr, mr_ObjectMeta = m, mr_Spec = sp, mr_Status = mr_Status mr\<rparr>"]
  show ?thesis using c
    by (simp add: readRule_def [abs_def] ModRule_DeepCopyInto_def [abs_def] copyPair_def thenCopy_def split_def)
qed

lemma ruleList_copier:
  assumes "copier readMeta metaCopy" and "copier readListMeta listMetaCopy"
  shows "copier (readRuleList readMeta m0 readListMeta) (ModRuleList_DeepCopyInto metaCopy m0 listMetaCopy)"
proof -
  note items = copier.slice_copier [OF rule_copier [OF assms(1)] cells_ok(6)]
  note c = struct_copier [OF pair_copier [OF assms(2) items],
    where f = "\<lambda>ml. (ml_ListMeta ml, ml_Items ml)"
      and k = "\<lambda>ml (n, p). ml\<lparr>ml_ListMeta := n, ml_Items := p\<rparr>"
      and g = "\<lambda>ml (n, items). \<lparr>ml_TypeMeta = ml_TypeMeta ml, ml_ListMeta = n, ml_Items = items\<rparr>"]
  show ?thesis using c
    by (simp add: readRuleList_def [abs_def] ModRuleList_DeepCopyInto_def [abs_def] copyPair_def thenCopy_def split_def)
qed

lemma asObject_Some [simp]: "asObject mk (Some b, h) = (Some (mk (Some b)), h)"
  by (simp add: asObject_def)

lemma agree_new: "agree {n..<length h} h h2 \<longleftrightarrow> (\<forall>c. n \<le> c \<and> c < length h \<longrightarrow> c < length h2 \<and> h2 ! c = h ! c)"
  by (auto simp: agree_def)

lemma pointer_isolated:
  assumes "copier read copy" and "array_ok R" and "readPointer R read h (Some a) = Some (Some v)"
  shows "\<exists>b h'. copyPointer R copy (Some a) h = Some (Some b, h') \<and> prefix h h' \<and>
    (\<forall>h2. agree {length h..<length h'} h' h2 \<longrightarrow> readPointer R read h2 (Some b) = Some (Some v))"
proof -
  from copier.copies [OF copier.pointer_copier [OF assms(1,2)] assms(3)] obtain p h'
    where p: "copyPointer R copy (Some a) h = Some (p, h')" "prefix h h'"
      "\<forall>h2. agree {length h..<length h'} h' h2 \<longrightarrow> readPointer R read h2 p = Some (Some v)" by blast
  moreover have "agree {length h..<length h'} h' h'" by (simp add: agree_def)
  ultimately have "p \<noteq> None" by (auto simp: readPointer_Some)
  then show ?thesis using p by auto
qed

text \<open>
  C36: the copy of a ModRule, as the client's cache takes it, is an object of its own. From any
  memory in which the rule can be read, \<open>DeepCopyObject\<close> returns a rule that reads the same, nil
  slices and pointers included; all cells that were there keep their content; and whatever is
  written afterwards to the cells that were there, through the original or otherwise, the copy still
  reads the same: it shares no slice and no string with the original, and no map of its metadata either,
  provided that apimachinery's copy of the metadata keeps the same contract.
\<close>

theorem ModRule_copy_isolated:
  assumes "copier readMeta metaCopy" and "readPointer (ruleCells m0) (readRule readMeta) h (Some a) = Some (Some r)"
  shows "\<exists>b h'. ModRule_DeepCopyObject metaCopy m0 (Some a) h = Some (Some (ModRuleObject (Some b)), h') \<and>
    prefix h h' \<and>
    (\<forall>h2. (\<forall>c. length h \<le> c \<and> c < length h' \<longrightarrow> c < length h2 \<and> h2 ! c = h' ! c) \<longrightarrow>
       readPointer (ruleCells m0) (readRule readMeta) h2 (Some b) = Some (Some r))"
proof -
  from pointer_isolated [OF rule_copier [OF assms(1)] cells_ok(6) assms(2)] obtain b h'
    where "ModRule_DeepCopy metaCopy m0 (Some a) h = Some (Some b, h')" "prefix h h'"
      "\<forall>h2. agree {length h..<length h'} h' h2 \<longrightarrow> readPointer (ruleCells m0) (readRule readMeta) h2 (Some b) = Some (Some r)"
    unfolding ModRule_DeepCopy_def by blast
  then show ?thesis unfolding ModRule_DeepCopyObject_def agree_new
    by (intro exI [of _ b] exI [of _ h']) simp
qed

lemma ModRuleList_copy_isolated:
  assumes "copier readMeta metaCopy" and "copier readListMeta listMetaCopy"
    and "readPointer (ruleListCells n0) (readRuleList readMeta m0 readListMeta) h (Some a) = Some (Some rs)"
  shows "\<exists>b h'. ModRuleList_DeepCopyObject metaCopy m0 listMetaCopy n0 (Some a) h =
      Some (Some (ModRuleListObject (Some b)), h') \<and> prefix h h' \<and>
    (\<forall>h2. agree {length h..<length h'} h' h2 \<longrightarrow>
       readPointer (ruleListCells n0) (readRuleList readMeta m0 readListMeta) h2 (Some b) = Some (Some rs))"
proof -
  from pointer_isolated [OF ruleList_copier [OF assms(1,2)] cells_ok(7) assms(3)] obtain b h'
    where "ModRuleList_DeepCopy metaCopy m0 listMetaCopy n0 (Some a) h = Some (Some b, h')" "prefix h h'"
      "\<forall>h2. agree {length h..<length h'} h' h2 \<longrightarrow>
         readPointer (ruleListCells n0) (readRuleList readMeta m0 readListMeta) h2 (Some b) = Some (Some rs)"
    unfolding ModRuleList_DeepCopy_def by blast
  then show ?thesis unfolding ModRuleList_DeepCopyObject_def
    by (intro exI [of _ b] exI [of _ h']) simp
qed

text \<open>
  A memory with a rule that rejects what its only match item selects, and whose metadata are a list of
  finalizers; the value and a finalizer are written over.
\<close>

definition sampleMemory :: "(addr option, unit) memory" where
  "sampleMemory = [StringCell [''Pod''], StringCell [''CREATE''],
     MatchItemCell [\<lparr>mi_Select = ''$.kind'', mi_MatchFor = ''Any'', mi_MatchValue = Some 0, mi_MatchValues = None,
       mi_MatchRegex = None, mi_Negate = False\<rparr>],
     RuleCell [\<lparr>mr_TypeMeta = ([], []), mr_ObjectMeta = Some 4,
       mr_Spec = \<lparr>sp_Type = ''Reject'', sp_ExecutionTier = toInt16 0, sp_AdmissionOperations = Some 1,
         sp_Match = Some 2, sp_Patch = None, sp_RejectMessage = None, sp_TargetNamespaceRegex = None\<rparr>,
       mr_Status = ()\<rparr>],
     StringCell [''protect'']]"

lemmas read_defs = readPointer_def readSlice_def readArray_def readElems_def readPair_def readValue_def
  readRule_def readSpec_def readMatchItem_def readPatchOperation_def cells_defs

lemma ModRule_copy_isolated_witness:
  "\<exists>b h' r. ModRule_DeepCopyObject (copySlice stringCells copyValue) None (Some 3) sampleMemory = Some (Some (ModRuleObject (Some b)), h') \<and>
     readPointer (ruleCells None) (readRule readStringSlice) sampleMemory (Some 3) = Some (Some r) \<and>
     readPointer (ruleCells None) (readRule readStringSlice) (h'[0 := StringCell [''Job''], 4 := StringCell [''x'']]) (Some b) = Some (Some r) \<and>
     mr_ObjectMeta r = Some [''protect''] \<and>
     map_option (map_option mr_ObjectMeta) (readPointer (ruleCells None) (readRule readStringSlice)
       (h'[0 := StringCell [''Job''], 4 := StringCell [''x'']]) (Some 3)) = Some (Some (Some [''x'']))"
proof -
  let ?read = "readPointer (ruleCells None) (readRule readStringSlice)"
  have len: "length sampleMemory = 5" by (simp add: sampleMemory_def)
  obtain r where r: "?read sampleMemory (Some 3) = Some (Some r)"
    by (simp add: read_defs sampleMemory_def)
  have meta: "mr_ObjectMeta r = Some [''protect'']"
    using r by (auto simp: read_defs sampleMemory_def)
  from ModRule_copy_isolated [OF string_copiers(2) r] obtain b h'
    where b: "ModRule_DeepCopyObject (copySlice stringCells copyValue) None (Some 3) sampleMemory = Some (Some (ModRuleObject (Some b)), h')"
      "prefix sampleMemory h'"
      "\<And>h2. \<forall>c. 5 \<le> c \<and> c < length h' \<longrightarrow> c < length h2 \<and> h2 ! c = h' ! c \<Longrightarrow> ?read h2 (Some b) = Some (Some r)"
    unfolding len by blast
  obtain h3 where h3: "h' = sampleMemory @ h3" using b(2) by (auto simp: prefix_def)
  have "?read (h'[0 := StringCell [''Job''], 4 := StringCell [''x'']]) (Some b) = Some (Some r)"
    by (rule b(3)) simp
  moreover have "map_option (map_option mr_ObjectMeta) (?read (h'[0 := StringCell [''Job''], 4 := StringCell [''x'']]) (Some 3)) =
      Some (Some (Some [''x'']))"
    unfolding h3 by (simp add: read_defs sampleMemory_def)
  ultimately show ?thesis using b(1) r meta by blast
qed

end
