(* ===== verification/NamePool.thy ===== *)
theory NamePool imports GoString begin

text \<open>
  The pool of random names (src/util/namepool.go): a slice that a 64-bit counter walks through
  cyclically. The names come from ksuid; \<open>ksuid\<close> is the sequence of values its \<open>New\<close> returns.
\<close>

record namePool =
  pool :: "string list"
  pool_size :: int
  incrementalIndex :: "64 word"

definition NewNamePool :: "(nat \<Rightarrow> string) \<Rightarrow> int \<Rightarrow> namePool res" where
  "NewNamePool ksuid n =
     (if n < 0 then Inl (GoPanic ''runtime error: makeslice: len out of range'')
      else Inr \<lparr>pool = map ksuid [0..<nat n], pool_size = n, incrementalIndex = 0\<rparr>)"

text \<open>
  \<open>atomic.AddUint64\<close> returns the new counter; the remainder by a zero size panics. The state
  after the call is returned with the name.
\<close>

definition GetNextName :: "namePool \<Rightarrow> (string \<times> namePool) res" where
  "GetNextName np =
     (let index = incrementalIndex np + 1; n = (word_of_int (pool_size np) :: 64 word) in
      if n = 0 then Inl (GoPanic ''runtime error: integer divide by zero'')
      else (let i = unat (index mod n) in
        if i < length (pool np) then Inr (pool np ! i, np\<lparr>incrementalIndex := index\<rparr>)
        else Inl (GoPanic ''runtime error: index out of range'')))"

definition ResetIndex :: "namePool \<Rightarrow> namePool" where
  "ResetIndex np = np\<lparr>incrementalIndex := 0\<rparr>"

text \<open>\<open>k\<close> calls in a row, and the names they return.\<close>

fun takeNames :: "nat \<Rightarrow> namePool \<Rightarrow> (string list \<times> namePool) res" where
  "takeNames 0 np = Inr ([], np)"
| "takeNames (Suc k) np =
     bindr (GetNextName np) (\<lambda>(x, np'). bindr (takeNames k np') (\<lambda>(xs, np''). Inr (x # xs, np'')))"

definition poolInv :: "namePool \<Rightarrow> bool" where
  "poolInv np \<longleftrightarrow> 0 < pool_size np \<and> pool_size np < 2 ^ 63 \<and> length (pool np) = nat (pool_size np)"

lemma NewNamePool_inv: "0 < n \<Longrightarrow> n < 2 ^ 63 \<Longrightarrow> NewNamePool ksuid n = Inr np \<Longrightarrow> poolInv np"
  by (auto simp: NewNamePool_def poolInv_def split: if_splits)

lemma unat_size: "poolInv np \<Longrightarrow> unat (word_of_int (pool_size np) :: 64 word) = length (pool np)"
  by (simp add: poolInv_def unat_eq_nat_uint uint_word_of_int_eq take_bit_int_eq_self)

lemma GetNextName_ok:
  assumes "poolInv np"
  shows "GetNextName np = Inr (pool np ! (unat (incrementalIndex np + 1) mod length (pool np)),
    np\<lparr>incrementalIndex := incrementalIndex np + 1\<rparr>)"
proof -
  have pos: "0 < length (pool np)" using assms by (auto simp: poolInv_def)
  then have "(word_of_int (pool_size np) :: 64 word) \<noteq> 0"
    using unat_size [OF assms] by (metis unat_0 less_irrefl)
  with pos show ?thesis
    by (simp add: GetNextName_def Let_def unat_mod unat_size [OF assms])
qed

lemma GetNextName_inv: "poolInv np \<Longrightarrow> poolInv (np\<lparr>incrementalIndex := i\<rparr>)"
  by (simp add: poolInv_def)

lemma takeNames_ok:
  "poolInv np \<Longrightarrow> takeNames k np =
     Inr (map (\<lambda>j. pool np ! (unat (incrementalIndex np + of_nat (Suc j)) mod length (pool np))) [0..<k],
          np\<lparr>incrementalIndex := incrementalIndex np + of_nat k\<rparr>)"
proof (induction k arbitrary: np)
  case 0
  then show ?case by simp
next
  case (Suc k)
  show ?case
    using Suc.IH [OF GetNextName_inv [OF Suc.prems], of "incrementalIndex np + 1"]
    by (simp add: GetNextName_ok [OF Suc.prems] map_upt_Suc o_def add_ac del: upt_Suc)
qed

text \<open>
  From a fresh pool of n > 0 names, any number of calls succeed and the k-th call returns
  the name at position k modulo n, as long as fewer than 2^64 calls were made; so n calls in a
  row return every name of the pool exactly once.
\<close>

lemma takeNames_cycles:
  assumes "0 < n" and "n < 2 ^ 63" and "k < 2 ^ 64"
  shows "\<exists>np. NewNamePool ksuid (int n) = Inr np \<and>
      (\<exists>np'. takeNames k np = Inr (map (\<lambda>j. ksuid (Suc j mod n)) [0..<k], np')) \<and>
      (\<exists>xs np'. takeNames n np = Inr (xs, np') \<and> mset xs = mset (map ksuid [0..<n]))"
proof -
  define np where "np = \<lparr>pool = map ksuid [0..<n], pool_size = int n, incrementalIndex = 0\<rparr>"
  have new: "NewNamePool ksuid (int n) = Inr np" by (simp add: NewNamePool_def np_def)
  have inv: "poolInv np" using NewNamePool_inv [OF _ _ new] assms by simp
  have len: "length (pool np) = n" and idx: "incrementalIndex np = 0" by (simp_all add: np_def)
  have nth: "pool np ! (Suc j mod n) = ksuid (Suc j mod n)" for j using assms(1) by (simp add: np_def)
  have take: "\<exists>np'. takeNames m np = Inr (map (\<lambda>j. ksuid (Suc j mod n)) [0..<m], np')" if "m < 2 ^ 64" for m
  proof -
    have "unat (of_nat (Suc j) :: 64 word) = Suc j" if "j < m" for j
      using that \<open>m < 2 ^ 64\<close> by (simp add: unat_of_nat del: of_nat_Suc)
    then show ?thesis
      by (simp add: takeNames_ok [OF inv] len idx nth del: of_nat_Suc cong: map_cong)
  qed
  obtain m where m: "n = Suc m" using assms(1) by (cases n) auto
  have "map (\<lambda>j. ksuid (Suc j mod n)) [0..<n] = map (\<lambda>j. ksuid (Suc j)) [0..<m] @ [ksuid 0]"
    by (simp add: m)
  also have "mset \<dots> = mset (map ksuid [0..<n])"
    by (simp add: m map_upt_Suc del: upt_Suc)
  finally have all: "mset (map (\<lambda>j. ksuid (Suc j mod n)) [0..<n]) = mset (map ksuid [0..<n])" .
  obtain np' where "takeNames n np = Inr (map (\<lambda>j. ksuid (Suc j mod n)) [0..<n], np')"
    using take [of n] assms(2) by auto
  with all have "\<exists>xs np'. takeNames n np = Inr (xs, np') \<and> mset xs = mset (map ksuid [0..<n])" by blast
  with new take [OF assms(3)] show ?thesis by blast
qed

lemma takeNames_cycles_witness:
  "\<exists>np np'. NewNamePool dec 3 = Inr np \<and> takeNames 4 np = Inr ([''1'', ''2'', ''0'', ''1''], np')"
proof -
  have "\<exists>np. NewNamePool dec (int 3) = Inr np \<and>
      (\<exists>np'. takeNames 4 np = Inr (map (\<lambda>j. dec (Suc j mod 3)) [0..<4], np'))"
    using takeNames_cycles [of 3 4 dec] by auto
  moreover have "map (\<lambda>j. dec (Suc j mod 3)) [0..<4] = [''1'', ''2'', ''0'', ''1'']"
    by (simp add: upt_rec dec.simps digitChar_def)
  ultimately show ?thesis by auto
qed

end
