(* ===== verification/StoreItem.thy ===== *)
theory StoreItem imports ModRuleApi begin

text \<open>
  A ModRule with its expressions compiled (src/core/modrulestoreitem.go): the constructor of
  store items, the match of a document against the rule's match items, and the text of the
  JSON patch that a Patch rule makes for a document.
\<close>

section \<open>Store items\<close>

record compiledJSONPatchOperation =
  cop_op :: string
  cop_patchSelect :: "evaluable option"
  cop_path :: string
  cop_pathSprintfTemplate :: string
  cop_valueTemplate :: goTemplate

text \<open>
  The caches are keyed by the addresses of the elements of the rule's \<open>Match\<close> slice, which
  are the indices into it.
\<close>

record storeItem =
  si_modRule :: modRule
  si_compiledTargetNamespaceRegex :: "regexp option"
  si_compiledMatchSelects :: "nat \<rightharpoonup> evaluable"
  si_compiledRegexes :: "nat \<rightharpoonup> regexp"
  si_compiledJSONPatch :: "compiledJSONPatchOperation list"
  si_rejectMessageTemplate :: "goTemplate option"

type_synonym ('p, 'o) env = "('p, 'o, storeItem) externals"

definition newCompiledMatchSelects :: "('p, 'o) env \<Rightarrow> matchItem list \<Rightarrow> (nat \<rightharpoonup> evaluable) res" where
  "newCompiledMatchSelects E matchItems =
     foldM (\<lambda>cache (i, mi). bindr (NewEvaluable E (Select mi)) (\<lambda>ev. Inr (cache(i \<mapsto> ev))))
       Map.empty (enumerate 0 matchItems)"

definition newCompiledRegexes :: "('p, 'o) env \<Rightarrow> matchItem list \<Rightarrow> (nat \<rightharpoonup> regexp) res" where
  "newCompiledRegexes E matchItems =
     foldM (\<lambda>cache (i, mi). case MatchRegex mi of
              None \<Rightarrow> Inr cache
            | Some rex \<Rightarrow> bindr (regexpCompile E rex) (\<lambda>re. Inr (cache(i \<mapsto> re))))
       Map.empty (enumerate 0 matchItems)"

definition compilePatchOperation :: "('p, 'o) env \<Rightarrow> patchOperation \<Rightarrow> compiledJSONPatchOperation res" where
  "compilePatchOperation E po =
     (let value = (case Value po of None \<Rightarrow> ''null'' | Some v \<Rightarrow> v) in
      bindr (case PatchSelect po of
               None \<Rightarrow> Inr None
             | Some sel \<Rightarrow> bindr (NewEvaluable E (''{#: '' @ sel @ ''}'')) (\<lambda>ev. Inr (Some ev))) (\<lambda>patchSelect.
      bindr (NewSafeTemplate_Parse E (Path po) (PreProcessModRuleGoTemplate value)) (\<lambda>tpl.
      Inr \<lparr>cop_op = Operation po, cop_patchSelect = patchSelect, cop_path = Path po,
           cop_pathSprintfTemplate = pathTemplateToSprintfTemplate (sprintfOther E) (Path po),
           cop_valueTemplate = tpl\<rparr>)))"

definition newCompiledJSONPatch :: "('p, 'o) env \<Rightarrow> patchOperation list \<Rightarrow> compiledJSONPatchOperation list res" where
  "newCompiledJSONPatch E patch = mapM (compilePatchOperation E) patch"

definition compileTargetNamespaceRegex :: "('p, 'o) env \<Rightarrow> string option \<Rightarrow> regexp option res" where
  "compileTargetNamespaceRegex E rex =
     (case rex of
        None \<Rightarrow> Inr None
      | Some s \<Rightarrow> if s = [] then Inr None else bindr (regexpCompile E s) (\<lambda>re. Inr (Some re)))"

definition compileRejectMessage :: "('p, 'o) env \<Rightarrow> string option \<Rightarrow> goTemplate option res" where
  "compileRejectMessage E msg =
     (case msg of
        None \<Rightarrow> Inr None
      | Some s \<Rightarrow> bindr (NewSafeTemplate_Parse E ''rejectMessage'' s) (\<lambda>t. Inr (Some t)))"

definition NewModRuleStoreItem :: "('p, 'o) env \<Rightarrow> modRule \<Rightarrow> storeItem res" where
  "NewModRuleStoreItem E r =
     (let sp = Spec r in
      bindr (compileTargetNamespaceRegex E (TargetNamespaceRegex sp)) (\<lambda>nsRegex.
      bindr (newCompiledMatchSelects E (Match sp)) (\<lambda>selects.
      bindr (newCompiledRegexes E (Match sp)) (\<lambda>regexes.
      bindr (newCompiledJSONPatch E (Patch sp)) (\<lambda>patch.
      bindr (compileRejectMessage E (RejectMessage sp)) (\<lambda>tpl.
      Inr \<lparr>si_modRule = r, si_compiledTargetNamespaceRegex = nsRegex,
           si_compiledMatchSelects = selects, si_compiledRegexes = regexes,
           si_compiledJSONPatch = patch, si_rejectMessageTemplate = tpl\<rparr>))))))"

section \<open>Matching\<close>

definition nilPanic :: fail where
  "nilPanic = GoPanic ''runtime error: invalid memory address or nil pointer dereference''"

definition isStringMatch :: "matchItem \<Rightarrow> regexp option \<Rightarrow> string \<Rightarrow> bool res" where
  "isStringMatch mi matchRegexp value =
     (case MatchValue mi of
        Some mv \<Rightarrow> Inr (value = mv)
      | None \<Rightarrow>
          if MatchValues mi \<noteq> [] then Inr (list_ex (\<lambda>mv. value = mv) (MatchValues mi))
          else (case MatchRegex mi of
                  Some _ \<Rightarrow> (case matchRegexp of Some re \<Rightarrow> Inr (re value) | None \<Rightarrow> Inl nilPanic)
                | None \<Rightarrow> Inr True))"

text \<open>How \<open>isMatch\<close> reads the result of the select query.\<close>

datatype queryResult = NoMatch | Decided bool | Values "val list" bool

definition classify :: "val \<Rightarrow> queryResult" where
  "classify result =
     (case result of
        VNil \<Rightarrow> NoMatch
      | VUndef \<Rightarrow> NoMatch
      | VBool b \<Rightarrow> Decided b
      | VArr vs \<Rightarrow> (let es = filter (\<lambda>v. \<not> IsUndefined v) vs in Values es (length es \<noteq> length vs))
      | v \<Rightarrow> Values [v] False)"

definition matchesAny :: "matchItem \<Rightarrow> bool" where
  "matchesAny mi \<longleftrightarrow> MatchFor mi = MatchForTypeAny \<or> MatchFor mi = []"

text \<open>The string an expression value is compared as.\<close>

definition matchString :: "val \<Rightarrow> string" where
  "matchString v = (case v of VStr s \<Rightarrow> s | _ \<Rightarrow> fmtV v)"

text \<open>The loop over the expression values; \<open>ret\<close> is its default, a break ends it.\<close>

fun matchLoop :: "matchItem \<Rightarrow> regexp option \<Rightarrow> bool \<Rightarrow> val list \<Rightarrow> bool res" where
  "matchLoop mi re ret [] = Inr ret"
| "matchLoop mi re ret (v # vs) =
     bindr (isStringMatch mi re (matchString v)) (\<lambda>m.
       if matchesAny mi
       then (if m then Inr (\<not> Negate mi) else matchLoop mi re ret vs)
       else (if \<not> m then Inr (Negate mi) else matchLoop mi re ret vs))"

definition isMatch :: "storeItem \<Rightarrow> nat \<times> matchItem \<Rightarrow> val \<Rightarrow> bool res" where
  "isMatch si imi jsonv =
     (case imi of (i, mi) \<Rightarrow>
       (case si_compiledMatchSelects si i of
          None \<Rightarrow> Inl nilPanic
        | Some matchSelect \<Rightarrow>
            onErr (matchSelect background jsonv) (\<lambda>e. Inr (Negate mi)) (\<lambda>result.
              (case classify result of
                 NoMatch \<Rightarrow> Inr (Negate mi)
               | Decided b \<Rightarrow> Inr (b \<noteq> Negate mi)
               | Values expressionValues containedUndefined \<Rightarrow>
                   if expressionValues = [] then Inr (Negate mi)
                   else if MatchFor mi = MatchForTypeAll \<and> containedUndefined then Inr (Negate mi)
                   else matchLoop mi (si_compiledRegexes si i)
                          (if matchesAny mi then Negate mi else \<not> Negate mi) expressionValues))))"

text \<open>\<open>IsMatch\<close> stops at the first item that does not match.\<close>

fun isMatchAll :: "storeItem \<Rightarrow> (nat \<times> matchItem) list \<Rightarrow> val \<Rightarrow> bool res" where
  "isMatchAll si [] jsonv = Inr True"
| "isMatchAll si (mi # mis) jsonv =
     bindr (isMatch si mi jsonv) (\<lambda>b. if \<not> b then Inr False else isMatchAll si mis jsonv)"

definition IsMatch :: "storeItem \<Rightarrow> val \<Rightarrow> bool res" where
  "IsMatch si jsonv = isMatchAll si (enumerate 0 (Match (Spec (si_modRule si)))) jsonv"

section \<open>Patches\<close>

record patchPathItem =
  ppi_path :: string
  ppi_selectKeyParts :: "val list"
  ppi_selectedItem :: val

definition badIndexMessage :: "string \<Rightarrow> string \<Rightarrow> string" where
  "badIndexMessage template path =
     ''failed to generate Patch path from path template '' @ [CHR 0x22] @ template @ [CHR 0x22] @
     '': generated value '' @ [CHR 0x22] @ path @ [CHR 0x22] @ '' ''"

definition pathItemOf :: "('p, 'o) env \<Rightarrow> compiledJSONPatchOperation \<Rightarrow> string \<times> val \<Rightarrow> patchPathItem list res" where
  "pathItemOf E cop kv =
     (case kv of (key, x) \<Rightarrow>
       (let parts = keyPartsFromSelectKey key;
            path = pathFromKeyParts (sprintfOther E) parts (cop_pathSprintfTemplate cop)
        in if strContains path ''(BADINDEX)''
           then Inl (GoErr (badIndexMessage (cop_path cop) path))
           else Inr [\<lparr>ppi_path = path, ppi_selectKeyParts = parts, ppi_selectedItem = x\<rparr>]))"

definition pathItemsOf :: "('p, 'o) env \<Rightarrow> compiledJSONPatchOperation \<Rightarrow> val \<Rightarrow> patchPathItem list res" where
  "pathItemsOf E cop jsonv =
     (case cop_patchSelect cop of
        None \<Rightarrow> Inr [\<lparr>ppi_path = cop_path cop, ppi_selectKeyParts = [], ppi_selectedItem = VNil\<rparr>]
      | Some sel \<Rightarrow>
          bindr (sel background jsonv) (\<lambda>result.
            (case result of
               VObj kvs \<Rightarrow> concatM (pathItemOf E cop) (rangeMap E kvs)
             | v \<Rightarrow> Inl (GoPanic (''interface conversion: interface {} is '' @ goTypeName v @
                              '', not map[string]interface {}'')))))"

text \<open>One operation of the patch text. The path is written between quotes as it is.\<close>

definition operationText :: "string \<Rightarrow> string \<Rightarrow> string \<Rightarrow> string" where
  "operationText op path jsonValue =
     (let q = [CHR 0x22] in
      ''{'' @ q @ ''op'' @ q @ '': '' @ q @ op @ q @ '', '' @ q @ ''path'' @ q @ '': '' @ q @ path @ q @
      '', '' @ q @ ''value'' @ q @ '': '' @ jsonValue @ ''}'')"

text \<open>The error of the conversion is the caller's to test.\<close>

definition modRuleValueToJSONValue :: "('p, 'o) env \<Rightarrow> string \<Rightarrow> string res" where
  "modRuleValueToJSONValue E modRuleValue = YAMLToJSON E modRuleValue"

declare modRuleValueToJSONValue_def [simp]

definition operationOf :: "('p, 'o) env \<Rightarrow> string \<Rightarrow> val \<Rightarrow> compiledJSONPatchOperation \<Rightarrow> patchPathItem \<Rightarrow> string list res" where
  "operationOf E namespace jsonv cop pathItem =
     bindr (cop_valueTemplate cop
              (PatchTemplateContext namespace jsonv (ppi_selectKeyParts pathItem) (ppi_selectedItem pathItem))) (\<lambda>vb.
     bindr (modRuleValueToJSONValue E vb) (\<lambda>jsonValue.
       Inr [operationText (cop_op cop) (ppi_path pathItem) jsonValue]))"

definition operationsOf :: "('p, 'o) env \<Rightarrow> string \<Rightarrow> val \<Rightarrow> compiledJSONPatchOperation \<Rightarrow> string list res" where
  "operationsOf E namespace jsonv cop =
     bindr (pathItemsOf E cop jsonv) (concatM (operationOf E namespace jsonv cop))"

definition patchText :: "('p, 'o) env \<Rightarrow> string \<Rightarrow> storeItem \<Rightarrow> val \<Rightarrow> string res" where
  "patchText E namespace si jsonv =
     bindr (concatM (operationsOf E namespace jsonv) (si_compiledJSONPatch si)) (\<lambda>ops.
       Inr (''['' @ strJoin ops '','' @ '']''))"

definition calculatePatch :: "('p, 'o) env \<Rightarrow> string \<Rightarrow> storeItem \<Rightarrow> val \<Rightarrow> 'p res" where
  "calculatePatch E namespace si jsonv =
     bindr (patchText E namespace si jsonv) (\<lambda>txt. DecodePatch E txt)"

end
