(* ===== verification/ModRuleStore.thy ===== *)
theory ModRuleStore imports StoreItem begin

text \<open>
  The store of ModRules (src/core/modrulestore.go): rules grouped by namespace, kept sorted by
  execution tier, queried tier by tier for the rules that apply to a document, and the two
  loops over the tiers that build on the query, \<open>CalculatePatch\<close> and
  \<open>DetermineRejections\<close>.
\<close>

section \<open>State\<close>

record modRuleStore =
  modRuleListMap :: "string \<rightharpoonup> storeItem list"
  clusterModRulesNamespace :: string

definition NewModRuleStore :: "string \<Rightarrow> modRuleStore" where
  "NewModRuleStore ns = \<lparr>modRuleListMap = Map.empty, clusterModRulesNamespace = ns\<rparr>"

abbreviation tier :: "storeItem \<Rightarrow> int16" where
  "tier si \<equiv> ExecutionTier (Spec (si_modRule si))"

abbreviation ruleName :: "storeItem \<Rightarrow> string" where
  "ruleName si \<equiv> Name (si_modRule si)"

text \<open>\<open>ByExecutionTier\<close>: the order \<open>sort.Sort\<close> is given.\<close>

definition tierLess :: "storeItem list \<Rightarrow> nat \<Rightarrow> nat \<Rightarrow> bool" where
  "tierLess a i j \<longleftrightarrow> tier (a ! i) < tier (a ! j)"

definition tierSwap :: "storeItem list \<Rightarrow> nat \<Rightarrow> nat \<Rightarrow> storeItem list" where
  "tierSwap a i j = a[i := a ! j, j := a ! i]"

text \<open>Reading a missing namespace of a Go map gives the nil slice.\<close>

definition rulesOf :: "modRuleStore \<Rightarrow> string \<Rightarrow> storeItem list" where
  "rulesOf s namespace = (case modRuleListMap s namespace of None \<Rightarrow> [] | Some xs \<Rightarrow> xs)"

fun findItemIndexByName :: "storeItem list \<Rightarrow> string \<Rightarrow> nat option" where
  "findItemIndexByName [] name = None"
| "findItemIndexByName (x # xs) name =
     (if ruleName x = name then Some 0 else map_option Suc (findItemIndexByName xs name))"

section \<open>Put and Delete\<close>

text \<open>
  The result is the store after the call and the error, if any. A first rule of a namespace
  enters an empty slice for it before the rule is compiled.
\<close>

definition Put :: "('p, 'o) env \<Rightarrow> modRuleStore \<Rightarrow> modRule \<Rightarrow> (modRuleStore \<times> string option) res" where
  "Put E s r =
     (let namespace = Namespace r;
          (namespaceModRules, existing, s) =
            (case modRuleListMap s namespace of
               None \<Rightarrow> ([], None, s\<lparr>modRuleListMap := (modRuleListMap s)(namespace \<mapsto> [])\<rparr>)
             | Some xs \<Rightarrow> (xs, findItemIndexByName xs (Name r), s))
      in onErr (NewModRuleStoreItem E r)
           (\<lambda>err. Inr (s, Some (''failed to add ModRule to ModRuleStore: '' @ err)))
           (\<lambda>item.
             let updated = (case existing of
                              Some i \<Rightarrow> namespaceModRules[i := item]
                            | None \<Rightarrow> namespaceModRules @ [item])
             in Inr (s\<lparr>modRuleListMap := (modRuleListMap s)(namespace \<mapsto> sortSort E updated)\<rparr>, None)))"

definition Delete :: "modRuleStore \<Rightarrow> string \<Rightarrow> string \<Rightarrow> modRuleStore" where
  "Delete s namespace name =
     (case modRuleListMap s namespace of
        None \<Rightarrow> s
      | Some xs \<Rightarrow>
          (case findItemIndexByName xs name of
             None \<Rightarrow> s
           | Some i \<Rightarrow>
               (let ys = take (length xs - 1) (xs[i := xs ! (length xs - 1)]) in
                if ys = [] then s\<lparr>modRuleListMap := (modRuleListMap s)(namespace := None)\<rparr>
                else s\<lparr>modRuleListMap := (modRuleListMap s)(namespace \<mapsto> ys)\<rparr>)))"

definition GetStats :: "modRuleStore \<Rightarrow> string \<rightharpoonup> nat" where
  "GetStats s = (\<lambda>ns. map_option length (modRuleListMap s ns))"

section \<open>The query by tier\<close>

text \<open>
  \<open>processPotentialRule\<close> on the closure's two variables: the rules collected so far and the
  lowest tier met so far.
\<close>

definition processPotentialRule :: "string \<Rightarrow> storeItem list \<times> int16 \<Rightarrow> storeItem \<Rightarrow> storeItem list \<times> int16" where
  "processPotentialRule admissionOperation st mrsi =
     (if \<not> list_ex (\<lambda>a. admissionOperation = a) (AdmissionOperations (Spec (si_modRule mrsi))) then st
      else (let (potentialRules, currentExecutionTier) =
                  (if tier mrsi < snd st then ([], tier mrsi) else st)
            in if tier mrsi = currentExecutionTier
               then (potentialRules @ [mrsi], currentExecutionTier)
               else (potentialRules, currentExecutionTier)))"

text \<open>The test of a rule of the cluster-wide namespace against the resource's namespace.\<close>

definition clusterRuleApplies :: "string \<Rightarrow> storeItem \<Rightarrow> bool" where
  "clusterRuleApplies namespace mrsi =
     (case si_compiledTargetNamespaceRegex mrsi of
        None \<Rightarrow> namespace = []
      | Some re \<Rightarrow> re namespace)"

definition potentialRules :: "modRuleStore \<Rightarrow> string \<Rightarrow> string \<Rightarrow> int16 \<Rightarrow> storeItem list \<times> int16" where
  "potentialRules s admissionOperation namespace minExecutionTier =
     (let st = foldl (\<lambda>st mrsi.
                 if tier mrsi \<ge> minExecutionTier \<and> clusterRuleApplies namespace mrsi
                 then processPotentialRule admissionOperation st mrsi else st)
                 ([], MaxInt16) (rulesOf s (clusterModRulesNamespace s))
      in if namespace \<noteq> []
         then foldl (\<lambda>st mrsi.
                if tier mrsi \<ge> minExecutionTier
                then processPotentialRule admissionOperation st mrsi else st)
                st (rulesOf s namespace)
         else st)"

definition getMatchingModRuleStoreItems ::
    "modRuleStore \<Rightarrow> string \<Rightarrow> string \<Rightarrow> int16 \<Rightarrow> string \<Rightarrow> val \<Rightarrow> (storeItem list \<times> int16) res" where
  "getMatchingModRuleStoreItems s admissionOperation namespace minExecutionTier modRuleType jsonv =
     (let (rules, currentExecutionTier) = potentialRules s admissionOperation namespace minExecutionTier
      in bindr (filterM (\<lambda>mrsi. if Type (Spec (si_modRule mrsi)) = modRuleType then IsMatch mrsi jsonv
                               else Inr False) rules) (\<lambda>modRules.
           Inr (modRules, currentExecutionTier)))"

text \<open>The tier the query returns is at least the one asked for, unless it is the top.\<close>

definition tierBound :: "int16 \<Rightarrow> storeItem list \<times> int16 \<Rightarrow> bool" where
  "tierBound m st \<longleftrightarrow> snd st = MaxInt16 \<or> m \<le> snd st"

lemma processPotentialRule_bound:
  "tierBound m st \<Longrightarrow> m \<le> tier r \<Longrightarrow> tierBound m (processPotentialRule op st r)"
  by (cases st) (auto simp: processPotentialRule_def tierBound_def Let_def)

lemma foldl_tierBound:
  "tierBound m st \<Longrightarrow> (\<And>st r. tierBound m st \<Longrightarrow> tierBound m (f st r)) \<Longrightarrow> tierBound m (foldl f st xs)"
  by (induction xs arbitrary: st) auto

lemma tierBound_start: "tierBound m ([], MaxInt16)"
  by (simp add: tierBound_def)

lemma potentialRules_bound: "tierBound m (potentialRules s op ns m)"
  unfolding potentialRules_def Let_def
  by (auto intro!: foldl_tierBound processPotentialRule_bound tierBound_start)

lemma getMatching_tier:
  "getMatchingModRuleStoreItems s op ns m ty v = Inr (rs, t) \<Longrightarrow> t = snd (potentialRules s op ns m)"
  by (auto simp: getMatchingModRuleStoreItems_def res_simps split: prod.splits)

lemma tier_progress:
  assumes "getMatchingModRuleStoreItems s op ns (inc16 cur) ty v = Inr (rs, t)" and "t \<noteq> MaxInt16"
  shows "nat (32768 - i16 (inc16 t)) < nat (32768 - i16 (inc16 cur))"
proof -
  have le: "inc16 cur \<le> t"
    using potentialRules_bound [of "inc16 cur" s op ns] assms getMatching_tier
    by (fastforce simp: tierBound_def)
  then have "i16 (inc16 cur) < i16 (inc16 t)"
    using assms(2) by (simp add: i16_inc16 less_eq_int16_def)
  moreover have "i16 (inc16 t) \<le> 32767" by (rule i16_range)
  ultimately show ?thesis by auto
qed

section \<open>CalculatePatch\<close>

fun getValueAt :: "entries \<Rightarrow> string list \<Rightarrow> val" where
  "getValueAt node [] = VNil"
| "getValueAt node [component] = (case map_of node component of None \<Rightarrow> VNil | Some x \<Rightarrow> x)"
| "getValueAt node (component # rest) =
     (case map_of node component of Some (VObj kvs) \<Rightarrow> getValueAt kvs rest | _ \<Rightarrow> VNil)"

definition getValueFromJSONObject :: "val \<Rightarrow> string \<Rightarrow> val" where
  "getValueFromJSONObject jsonv path =
     (case jsonv of VObj kvs \<Rightarrow> getValueAt kvs (splitOn CHR '':'' path) | _ \<Rightarrow> VNil)"

definition lastAppliedKey :: string where
  "lastAppliedKey = ''kubectl.kubernetes.io/last-applied-configuration''"

definition extractLastAppliedConfiguration :: "val \<Rightarrow> bytes" where
  "extractLastAppliedConfiguration jsonv =
     (case getValueFromJSONObject jsonv (''metadata:annotations:'' @ lastAppliedKey) of
        VStr bc \<Rightarrow> Some bc
      | _ \<Rightarrow> None)"

definition jsonPatchApplyOptions :: applyOptions where
  "jsonPatchApplyOptions =
     \<lparr>AccumulatedCopySizeLimit = 0, AllowMissingPathOnRemove = True,
      SupportNegativeIndices = True, EnsurePathExistsOnAdd = True\<rparr>"

text \<open>The variables of \<open>CalculatePatch\<close> that its loop changes.\<close>

record patchState =
  modifiedJSON :: bytes
  jsonDoc :: val
  lastAppliedConfigurationJSON :: bytes

text \<open>
  The body of the inner loop. A patch that cannot be computed or applied is logged and
  skipped; the document variable of a failed application holds what \<open>ApplyWithOptions\<close>
  returned beside its error.
\<close>

definition applyRule :: "('p, 'o) env \<Rightarrow> string \<Rightarrow> patchState \<Rightarrow> storeItem \<Rightarrow> patchState res" where
  "applyRule E namespace st mrsi =
     onErr (calculatePatch E namespace mrsi (jsonDoc st)) (\<lambda>err. Inr st) (\<lambda>epatch.
       bindr (ApplyWithOptions E epatch (modifiedJSON st) jsonPatchApplyOptions) (\<lambda>(doc, err).
         let st = st\<lparr>modifiedJSON := doc\<rparr> in
         if err \<noteq> None then Inr st
         else bindr (jsonUnmarshal E (modifiedJSON st)) (\<lambda>v.
           let st = st\<lparr>jsonDoc := v\<rparr> in
           if lastAppliedConfigurationJSON st = None then Inr st
           else bindr (ApplyWithOptions E epatch (lastAppliedConfigurationJSON st) jsonPatchApplyOptions)
                  (\<lambda>(la, err). Inr (st\<lparr>lastAppliedConfigurationJSON := la\<rparr>)))))"

text \<open>The loop over the tiers, from the tier executed last.\<close>

function patchTiers :: "('p, 'o) env \<Rightarrow> modRuleStore \<Rightarrow> string \<Rightarrow> string \<Rightarrow> int16 \<Rightarrow> patchState \<Rightarrow> patchState res" where
  "patchTiers E s admissionOperation namespace currentExecutionTier st =
     bindr (getMatchingModRuleStoreItems s admissionOperation namespace (inc16 currentExecutionTier)
              ModRuleTypePatch (jsonDoc st)) (\<lambda>(matchingModRules, currentExecutionTier).
       if currentExecutionTier = MaxInt16 then Inr st
       else bindr (foldM (applyRule E namespace) st matchingModRules) (\<lambda>st.
              patchTiers E s admissionOperation namespace currentExecutionTier st))"
  by pat_completeness auto
termination
  by (relation "measure (\<lambda>(E, s, op, ns, cur, st). nat (32768 - i16 (inc16 cur)))")
    (auto dest: tier_progress)

declare patchTiers.simps [simp del]

text \<open>
  Writing the patched annotation back: the three type assertions panic when the patches have
  removed or replaced the objects on the way.
\<close>

definition assertObject :: "val \<Rightarrow> entries res" where
  "assertObject v = (case v of
      VObj kvs \<Rightarrow> Inr kvs
    | _ \<Rightarrow> Inl (GoPanic (''interface conversion: interface {} is '' @ goTypeName v @ '', not map[string]interface {}'')))"

definition indexObject :: "entries \<Rightarrow> string \<Rightarrow> val" where
  "indexObject kvs k = (case map_of kvs k of None \<Rightarrow> VNil | Some x \<Rightarrow> x)"

definition stickLastApplied :: "val \<Rightarrow> string \<Rightarrow> val res" where
  "stickLastApplied jsonv la =
     bindr (assertObject jsonv) (\<lambda>root.
     bindr (assertObject (indexObject root ''metadata'')) (\<lambda>metadata.
     bindr (assertObject (indexObject metadata ''annotations'')) (\<lambda>node.
       Inr (VObj (mapPut ''metadata'' (VObj (mapPut ''annotations''
              (VObj (mapPut lastAppliedKey (VStr la) node)) metadata)) root)))))"

definition startState :: "string \<Rightarrow> val \<Rightarrow> patchState" where
  "startState originalJSON jsonv = \<lparr>modifiedJSON = Some originalJSON, jsonDoc = jsonv,
     lastAppliedConfigurationJSON = extractLastAppliedConfiguration jsonv\<rparr>"

text \<open>What follows the loop.\<close>

definition patchEpilogue :: "('p, 'o) env \<Rightarrow> string \<Rightarrow> patchState \<Rightarrow> (val \<times> 'o list) res" where
  "patchEpilogue E originalJSON st =
     bindr (case lastAppliedConfigurationJSON st of
              None \<Rightarrow> Inr (jsonDoc st, modifiedJSON st)
            | Some la \<Rightarrow>
                bindr (stickLastApplied (jsonDoc st) la) (\<lambda>v.
                bindr (jsonMarshal E v) (\<lambda>js. Inr (v, Some js)))) (\<lambda>(jsonv, modified).
     bindr (CreatePatch E (Some originalJSON) modified) (\<lambda>ops.
       Inr (jsonv, ops)))"

definition CalculatePatch ::
    "('p, 'o) env \<Rightarrow> modRuleStore \<Rightarrow> string \<Rightarrow> string \<Rightarrow> string \<Rightarrow> (val \<times> 'o list) res" where
  "CalculatePatch E s admissionOperation namespace originalJSON =
     bindr (jsonUnmarshal E (Some originalJSON)) (\<lambda>jsonv.
     bindr (patchTiers E s admissionOperation namespace MinInt16 (startState originalJSON jsonv)) (\<lambda>st.
     patchEpilogue E originalJSON st))"

section \<open>DetermineRejections\<close>

definition rejectionMessage :: "string \<Rightarrow> val \<Rightarrow> storeItem \<Rightarrow> string list res" where
  "rejectionMessage namespace jsonv mrsi =
     (case si_rejectMessageTemplate mrsi of
        Some tpl \<Rightarrow>
          onErr (tpl (RejectTemplateContext namespace jsonv))
            (\<lambda>err. Inr [GetNamespacedName (si_modRule mrsi)])
            (\<lambda>vb. Inr [GetNamespacedName (si_modRule mrsi) @ '': '' @ [CHR 0x22] @ vb @ [CHR 0x22]])
      | None \<Rightarrow> Inr [GetNamespacedName (si_modRule mrsi)])"

function rejectTiers :: "modRuleStore \<Rightarrow> string \<Rightarrow> string \<Rightarrow> val \<Rightarrow> int16 \<Rightarrow> string list \<Rightarrow> string list res" where
  "rejectTiers s admissionOperation namespace jsonv currentExecutionTier rejectionMessages =
     bindr (getMatchingModRuleStoreItems s admissionOperation namespace (inc16 currentExecutionTier)
              ModRuleTypeReject jsonv) (\<lambda>(matchingModRules, currentExecutionTier).
       if currentExecutionTier = MaxInt16 then Inr rejectionMessages
       else bindr (concatM (rejectionMessage namespace jsonv) matchingModRules) (\<lambda>ms.
              rejectTiers s admissionOperation namespace jsonv currentExecutionTier (rejectionMessages @ ms)))"
  by pat_completeness auto
termination
  by (relation "measure (\<lambda>(s, op, ns, v, cur, ms). nat (32768 - i16 (inc16 cur)))")
    (auto dest: tier_progress)

declare rejectTiers.simps [simp del]

definition DetermineRejections :: "modRuleStore \<Rightarrow> string \<Rightarrow> string \<Rightarrow> val \<Rightarrow> string list res" where
  "DetermineRejections s admissionOperation namespace jsonv =
     rejectTiers s admissionOperation namespace jsonv MinInt16 []"

end
