(* ===== verification/TierQuery.thy ===== *)
theory TierQuery imports ModRuleStore begin

text \<open>
  The query by tier as an interface. \<open>CalculatePatch\<close> and \<open>DetermineRejections\<close> share one
  loop: ask for the lowest tier above the last one, work on its matching rules, stop at
  \<open>MaxInt16\<close>. The locale states what the query promises; inside it the loop is shown to be
  a fold over the ascending tiers, once for both clients. The interpretation discharges the
  promises for \<open>potentialRules\<close>.
\<close>

section \<open>The tiers a loop visits\<close>

definition tiersAbove :: "int16 list \<Rightarrow> int16 \<Rightarrow> int16 list" where
  "tiersAbove ts cur = sort (remdups (filter (\<lambda>t. cur < t \<and> t \<noteq> MaxInt16) ts))"

lemma set_tiersAbove: "set (tiersAbove ts cur) = {t \<in> set ts. cur < t \<and> t \<noteq> MaxInt16}"
  by (simp add: tiersAbove_def)

lemma tiersAbove_sorted: "sorted (tiersAbove ts cur)" "distinct (tiersAbove ts cur)"
  by (simp_all add: tiersAbove_def)

lemma tiersAbove_eqI:
  "set xs = {t \<in> set ts. cur < t \<and> t \<noteq> MaxInt16} \<Longrightarrow> sorted xs \<Longrightarrow> distinct xs \<Longrightarrow> tiersAbove ts cur = xs"
  by (rule sorted_distinct_set_unique) (simp_all add: tiersAbove_sorted set_tiersAbove)

lemma tiersAbove_Nil: "tiersAbove ts cur = [] \<Longrightarrow> set ts \<inter> {t. cur < t} \<subseteq> {MaxInt16}"
  using set_tiersAbove [of ts cur] by auto

lemma tiersAbove_Cons:
  assumes "tiersAbove ts cur = t # us"
  shows "t \<in> set ts" "cur < t" "t \<noteq> MaxInt16" "tiersAbove ts t = us"
    "\<And>u. u \<in> set ts \<Longrightarrow> cur < u \<Longrightarrow> t \<le> u"
proof -
  have in_set: "x \<in> set (t # us) \<longleftrightarrow> x \<in> set ts \<and> cur < x \<and> x \<noteq> MaxInt16" for x
    using set_tiersAbove [of ts cur] assms by simp
  have sd: "sorted (t # us)" "distinct (t # us)"
    using tiersAbove_sorted [of ts cur] assms by simp_all
  show t: "t \<in> set ts" "cur < t" "t \<noteq> MaxInt16" using in_set [of t] by auto
  have "x \<in> set us \<longleftrightarrow> x \<in> set ts \<and> t < x \<and> x \<noteq> MaxInt16" for x
    using in_set [of x] sd t(2) by (auto simp: order.strict_iff_order)
  with sd show "tiersAbove ts t = us" by (intro tiersAbove_eqI) auto
  show "t \<le> u" if "u \<in> set ts" "cur < u" for u
    using that in_set [of u] sd by (cases "u = MaxInt16") auto
qed

section \<open>The interface\<close>

locale tier_query =
  fixes tierOf :: "'a \<Rightarrow> int16"
    and candidates :: "'a list"
    and query :: "int16 \<Rightarrow> 'a list \<times> int16"
  assumes query_rules: "fst (query m) = filter (\<lambda>r. tierOf r = snd (query m)) candidates"
    and query_least: "r \<in> set candidates \<Longrightarrow> m \<le> tierOf r \<Longrightarrow> snd (query m) \<le> tierOf r"
    and query_attained: "snd (query m) \<noteq> MaxInt16 \<Longrightarrow>
      \<exists>r \<in> set candidates. m \<le> tierOf r \<and> tierOf r = snd (query m)"
begin

lemma query_next:
  assumes cur: "cur \<noteq> MaxInt16"
  shows "snd (query (inc16 cur)) =
    (case tiersAbove (map tierOf candidates) cur of [] \<Rightarrow> MaxInt16 | t # _ \<Rightarrow> t)"
proof (cases "tiersAbove (map tierOf candidates) cur")
  case Nil
  have "snd (query (inc16 cur)) = MaxInt16"
    using tiersAbove_Nil [OF Nil] query_attained [of "inc16 cur"] inc16_le_iff [OF cur] by fastforce
  with Nil show ?thesis by simp
next
  case (Cons t us)
  note C = tiersAbove_Cons [OF Cons]
  obtain r where r: "r \<in> set candidates" "tierOf r = t" using C(1) by auto
  have le: "snd (query (inc16 cur)) \<le> t"
    using query_least [OF r(1), of "inc16 cur"] r C(2) inc16_le_iff [OF cur] by auto
  with C(3) have "snd (query (inc16 cur)) \<noteq> MaxInt16"
    by (metis MaxInt16_top antisym)
  from query_attained [OF this] have "t \<le> snd (query (inc16 cur))"
    using C(5) inc16_le_iff [OF cur] by fastforce
  with le Cons show ?thesis by simp
qed

text \<open>
  Any loop with this unfolding runs the tiers in ascending order, each once, and ends with a
  look at the rules of the top tier, whose outcome it drops.
\<close>

lemma loop_is_fold:
  assumes loop: "\<And>cur st. cur \<noteq> MaxInt16 \<Longrightarrow> loop cur st =
      bindr (sel st (fst (query (inc16 cur)))) (\<lambda>ms.
        if snd (query (inc16 cur)) = MaxInt16 then Inr st
        else bindr (body st ms) (loop (snd (query (inc16 cur)))))"
    and cur: "cur \<noteq> MaxInt16"
  shows "loop cur st =
    bindr (foldM (\<lambda>st t. bindr (sel st (filter (\<lambda>r. tierOf r = t) candidates)) (body st)) st
             (tiersAbove (map tierOf candidates) cur)) (\<lambda>st.
    bindr (sel st (filter (\<lambda>r. tierOf r = MaxInt16) candidates)) (\<lambda>_. Inr st))"
  using cur
proof (induction "tiersAbove (map tierOf candidates) cur" arbitrary: cur st)
  case Nil
  then show ?case using query_next [of cur] by (simp add: loop query_rules flip: Nil.hyps)
next
  case (Cons t us)
  note C = tiersAbove_Cons [OF Cons.hyps(2) [symmetric]]
  have next_t: "snd (query (inc16 cur)) = t"
    using query_next [of cur] Cons.prems by (simp flip: Cons.hyps)
  have fst_q: "fst (query (inc16 cur)) = filter (\<lambda>r. tierOf r = t) candidates"
    using query_rules [of "inc16 cur"] next_t by simp
  have IH: "loop t = (\<lambda>st. bindr (foldM (\<lambda>st t. bindr (sel st (filter (\<lambda>r. tierOf r = t) candidates)) (body st)) st us) (\<lambda>st.
    bindr (sel st (filter (\<lambda>r. tierOf r = MaxInt16) candidates)) (\<lambda>_. Inr st)))"
    using Cons.hyps(1) [of t] C(3,4) by (intro ext) simp
  have "loop cur st = bindr (sel st (filter (\<lambda>r. tierOf r = t) candidates)) (\<lambda>ms.
        bindr (body st ms) (loop t))"
    using loop [OF Cons.prems] C(3) by (simp add: next_t fst_q)
  also have "\<dots> = bindr (bindr (sel st (filter (\<lambda>r. tierOf r = t) candidates)) (body st)) (loop t)"
    by (simp add: bindr_assoc)
  finally show ?case by (simp add: IH bindr_assoc flip: Cons.hyps)
qed

end

section \<open>The query of the store\<close>

text \<open>
  The rules that a request makes candidates, in the order in which the query meets them: the
  cluster-wide rules whose namespace test the request passes, then those of its namespace.
\<close>

definition admits :: "string \<Rightarrow> storeItem \<Rightarrow> bool" where
  "admits op r \<longleftrightarrow> op \<in> set (AdmissionOperations (Spec (si_modRule r)))"

definition candidateRules :: "modRuleStore \<Rightarrow> string \<Rightarrow> string \<Rightarrow> storeItem list" where
  "candidateRules s op ns =
     filter (admits op)
       (filter (clusterRuleApplies ns) (rulesOf s (clusterModRulesNamespace s)) @
        (if ns = [] then [] else rulesOf s ns))"

lemma processPotentialRule_not_admitted: "\<not> admits op r \<Longrightarrow> processPotentialRule op st r = st"
  by (auto simp: processPotentialRule_def admits_def list_ex_iff)

text \<open>The state of the closure after the rules \<open>seen\<close>.\<close>

definition queryState :: "storeItem list \<Rightarrow> storeItem list \<times> int16 \<Rightarrow> bool" where
  "queryState seen st \<longleftrightarrow>
     fst st = filter (\<lambda>r. tier r = snd st) seen \<and> (\<forall>r \<in> set seen. snd st \<le> tier r) \<and>
     (snd st \<noteq> MaxInt16 \<longrightarrow> (\<exists>r \<in> set seen. tier r = snd st))"

lemma queryState_start: "queryState [] ([], MaxInt16)"
  by (simp add: queryState_def)

lemma queryState_step:
  assumes "queryState seen st" and "admits op r"
  shows "queryState (seen @ [r]) (processPotentialRule op st r)"
proof -
  have op: "processPotentialRule op st r =
     (if tier r < snd st then ([r], tier r) else if tier r = snd st then (fst st @ [r], snd st) else st)"
    using assms(2) by (cases st) (auto simp: processPotentialRule_def admits_def list_ex_iff)
  show ?thesis
    using assms(1) unfolding op queryState_def by (auto simp: filter_empty_conv)
qed

lemma queryState_foldl:
  "queryState seen st \<Longrightarrow>
   queryState (seen @ filter (admits op) (filter P xs))
     (foldl (\<lambda>st r. if P r then processPotentialRule op st r else st) st xs)"
proof (induction xs arbitrary: seen st)
  case Nil
  then show ?case by simp
next
  case (Cons x xs)
  then show ?case
    using Cons.IH [of "seen @ [x]" "processPotentialRule op st x"] Cons.IH [of seen st]
      queryState_step [OF Cons.prems, of op x]
    by (auto simp: processPotentialRule_not_admitted)
qed

lemma potentialRules_state:
  "queryState (filter (\<lambda>r. m \<le> tier r) (candidateRules s op ns)) (potentialRules s op ns m)"
proof -
  let ?c = "filter (admits op) (filter (\<lambda>r. m \<le> tier r \<and> clusterRuleApplies ns r)
              (rulesOf s (clusterModRulesNamespace s)))"
  have cluster: "queryState ?c (foldl (\<lambda>st r. if m \<le> tier r \<and> clusterRuleApplies ns r
      then processPotentialRule op st r else st) ([], MaxInt16) (rulesOf s (clusterModRulesNamespace s)))"
    using queryState_foldl [OF queryState_start,
      of op "\<lambda>r. m \<le> tier r \<and> clusterRuleApplies ns r"] by simp
  have eq: "filter (\<lambda>r. m \<le> tier r) (candidateRules s op ns) =
      ?c @ (if ns = [] then [] else filter (admits op) (filter (\<lambda>r. m \<le> tier r) (rulesOf s ns)))"
    by (auto simp: candidateRules_def conj_ac)
  show ?thesis
    unfolding eq potentialRules_def Let_def
    using cluster queryState_foldl [OF cluster, of op "\<lambda>r. m \<le> tier r"] by (cases "ns = []") simp_all
qed

interpretation tq: tier_query tier "candidateRules s op ns" "potentialRules s op ns"
  for s :: modRuleStore and op ns :: string
proof
  fix m
  let ?q = "potentialRules s op ns m" and ?c = "candidateRules s op ns"
  have st: "fst ?q = filter (\<lambda>r. tier r = snd ?q) (filter (\<lambda>r. m \<le> tier r) ?c)"
    and low: "\<And>r. r \<in> set ?c \<Longrightarrow> m \<le> tier r \<Longrightarrow> snd ?q \<le> tier r"
    and att: "snd ?q \<noteq> MaxInt16 \<Longrightarrow> \<exists>r \<in> set ?c. m \<le> tier r \<and> tier r = snd ?q"
    using potentialRules_state [of m s op ns] by (auto simp: queryState_def)
  show "snd ?q \<le> tier r" if "r \<in> set ?c" "m \<le> tier r" for r by (rule low [OF that])
  show "snd ?q \<noteq> MaxInt16 \<Longrightarrow> \<exists>r \<in> set ?c. m \<le> tier r \<and> tier r = snd ?q" by (rule att)
  have "tier r = snd ?q \<Longrightarrow> m \<le> tier r" for r
    using potentialRules_bound [of m s op ns] by (auto simp: tierBound_def)
  then show "fst ?q = filter (\<lambda>r. tier r = snd ?q) ?c"
    unfolding st by (auto simp: conj_commute intro!: filter_cong)
qed

end
