(* ===== verification/TierLoops.thy ===== *)
theory TierLoops imports TierQuery begin

text \<open>
  The two loops over the tiers as folds: what \<open>CalculatePatch\<close> and \<open>DetermineRejections\<close>
  do with a store, read off the interpretation of the query by tier.
\<close>

section \<open>The final filter of the query\<close>

definition selectRules :: "string \<Rightarrow> val \<Rightarrow> storeItem list \<Rightarrow> storeItem list res" where
  "selectRules ty v rs =
     filterM (\<lambda>r. if Type (Spec (si_modRule r)) = ty then IsMatch r v else Inr False) rs"

definition ruleMatches :: "string \<Rightarrow> val \<Rightarrow> storeItem \<Rightarrow> bool" where
  "ruleMatches ty v r \<longleftrightarrow> Type (Spec (si_modRule r)) = ty \<and> IsMatch r v = Inr True"

definition rulesOfTier :: "modRuleStore \<Rightarrow> string \<Rightarrow> string \<Rightarrow> int16 \<Rightarrow> storeItem list" where
  "rulesOfTier s op ns t = filter (\<lambda>r. tier r = t) (candidateRules s op ns)"

definition candidateTiers :: "modRuleStore \<Rightarrow> string \<Rightarrow> string \<Rightarrow> int16 list" where
  "candidateTiers s op ns = tiersAbove (map tier (candidateRules s op ns)) MinInt16"

lemma getMatching_select:
  "getMatchingModRuleStoreItems s op ns m ty v =
     bindr (selectRules ty v (fst (potentialRules s op ns m))) (\<lambda>rs. Inr (rs, snd (potentialRules s op ns m)))"
  by (simp add: getMatchingModRuleStoreItems_def selectRules_def split_def Let_def)

lemma selectRules_ok:
  "(\<And>r. r \<in> set rs \<Longrightarrow> isOk (IsMatch r v)) \<Longrightarrow> selectRules ty v rs = Inr (filter (ruleMatches ty v) rs)"
  unfolding selectRules_def
  by (rule filterM_Inr) (auto simp: ruleMatches_def isOk_iff, metis isOk_iff)

lemma MinMax_neq [simp]: "MinInt16 \<noteq> MaxInt16" "MaxInt16 \<noteq> MinInt16"
  by (simp_all flip: i16_inject)

section \<open>The loops\<close>

definition patchTier :: "('p, 'o) env \<Rightarrow> modRuleStore \<Rightarrow> string \<Rightarrow> string \<Rightarrow> patchState \<Rightarrow> int16 \<Rightarrow> patchState res" where
  "patchTier E s op ns st t =
     bindr (selectRules ModRuleTypePatch (jsonDoc st) (rulesOfTier s op ns t)) (foldM (applyRule E ns) st)"

definition rejectTier :: "modRuleStore \<Rightarrow> string \<Rightarrow> string \<Rightarrow> val \<Rightarrow> string list \<Rightarrow> int16 \<Rightarrow> string list res" where
  "rejectTier s op ns v ms t =
     bindr (selectRules ModRuleTypeReject v (rulesOfTier s op ns t)) (\<lambda>rs.
     bindr (concatM (rejectionMessage ns v) rs) (\<lambda>new. Inr (ms @ new)))"

lemma patchTiers_fold:
  "patchTiers E s op ns MinInt16 st =
     bindr (foldM (patchTier E s op ns) st (candidateTiers s op ns)) (\<lambda>st.
     bindr (selectRules ModRuleTypePatch (jsonDoc st) (rulesOfTier s op ns MaxInt16)) (\<lambda>_. Inr st))"
proof -
  have "patchTiers E s op ns MinInt16 st =
    bindr (foldM (\<lambda>st t. bindr (selectRules ModRuleTypePatch (jsonDoc st)
             (filter (\<lambda>r. tier r = t) (candidateRules s op ns))) (foldM (applyRule E ns) st)) st
             (tiersAbove (map tier (candidateRules s op ns)) MinInt16)) (\<lambda>st.
    bindr (selectRules ModRuleTypePatch (jsonDoc st)
             (filter (\<lambda>r. tier r = MaxInt16) (candidateRules s op ns))) (\<lambda>_. Inr st))"
    by (rule tq.loop_is_fold)
      (subst patchTiers.simps, simp_all add: getMatching_select bindr_assoc cong: if_cong)
  then show ?thesis by (simp add: patchTier_def [abs_def] rulesOfTier_def candidateTiers_def)
qed

lemma rejectTiers_fold:
  "rejectTiers s op ns v MinInt16 ms =
     bindr (foldM (rejectTier s op ns v) ms (candidateTiers s op ns)) (\<lambda>ms.
     bindr (selectRules ModRuleTypeReject v (rulesOfTier s op ns MaxInt16)) (\<lambda>_. Inr ms))"
proof -
  have "rejectTiers s op ns v MinInt16 ms =
    bindr (foldM (\<lambda>ms t. bindr (selectRules ModRuleTypeReject v
             (filter (\<lambda>r. tier r = t) (candidateRules s op ns)))
             (\<lambda>rs. bindr (concatM (rejectionMessage ns v) rs) (\<lambda>new. Inr (ms @ new)))) ms
             (tiersAbove (map tier (candidateRules s op ns)) MinInt16)) (\<lambda>ms.
    bindr (selectRules ModRuleTypeReject v
             (filter (\<lambda>r. tier r = MaxInt16) (candidateRules s op ns))) (\<lambda>_. Inr ms))"
    by (rule tq.loop_is_fold)
      (subst rejectTiers.simps, simp_all add: getMatching_select bindr_assoc cong: if_cong)
  then show ?thesis by (simp add: rejectTier_def [abs_def] rulesOfTier_def candidateTiers_def)
qed

section \<open>Tier by tier is a stable sort\<close>

lemma filter_concat_tiers:
  "distinct ts \<Longrightarrow> filter (\<lambda>r. f r = k) (concat (map (\<lambda>t. filter (\<lambda>r. f r = t) xs) ts)) =
     (if k \<in> set ts then filter (\<lambda>r. f r = k) xs else [])"
  by (induction ts) (auto simp: filter_empty_conv intro!: filter_cong)

lemma sorted_concat_tiers:
  "sorted ts \<Longrightarrow> sorted (map f (concat (map (\<lambda>t. filter (\<lambda>r. f r = t) xs) ts)))"
proof (induction ts)
  case Nil
  show ?case by simp
next
  case (Cons t ts)
  have "sorted (map f (filter (\<lambda>r. f r = t) xs))"
    by (induction xs) auto
  with Cons show ?case by (auto simp: sorted_append)
qed

lemma mset_concat_tiers:
  "distinct ts \<Longrightarrow> mset (concat (map (\<lambda>t. filter (\<lambda>r. f r = t) xs) ts)) = mset (filter (\<lambda>r. f r \<in> set ts) xs)"
proof (induction ts)
  case Nil
  show ?case by simp
next
  case (Cons t ts)
  have "mset (filter (\<lambda>r. f r \<in> set (t # ts)) xs) =
        mset (filter (\<lambda>r. f r = t) xs) + mset (filter (\<lambda>r. f r \<in> set ts) xs)"
    using Cons.prems by (induction xs) auto
  with Cons show ?case by simp
qed

lemma concat_tiers_sort:
  fixes f :: "'a \<Rightarrow> 'k::linorder"
  assumes "sorted ts" "distinct ts"
  shows "concat (map (\<lambda>t. filter (\<lambda>r. f r = t) xs) ts) = sort_key f (filter (\<lambda>r. f r \<in> set ts) xs)"
proof (rule properties_for_sort_key [symmetric])
  show "mset (concat (map (\<lambda>t. filter (\<lambda>r. f r = t) xs) ts)) = mset (filter (\<lambda>r. f r \<in> set ts) xs)"
    by (rule mset_concat_tiers [OF assms(2)])
  show "sorted (map f (concat (map (\<lambda>t. filter (\<lambda>r. f r = t) xs) ts)))"
    by (rule sorted_concat_tiers [OF assms(1)])
  fix k
  assume "k \<in> set (concat (map (\<lambda>t. filter (\<lambda>r. f r = t) xs) ts))"
  then have "f k \<in> set ts" by auto
  then show "filter (\<lambda>x. f k = f x) (concat (map (\<lambda>t. filter (\<lambda>r. f r = t) xs) ts)) =
    filter (\<lambda>x. f k = f x) (filter (\<lambda>r. f r \<in> set ts) xs)"
    using filter_concat_tiers [OF assms(2), of f "f k" xs]
    by (auto simp: eq_commute [of "f k"] intro!: filter_cong)
qed

text \<open>The rules of a type that run for a document, in the order in which they run.\<close>

definition executedRules :: "modRuleStore \<Rightarrow> string \<Rightarrow> string \<Rightarrow> string \<Rightarrow> val \<Rightarrow> storeItem list" where
  "executedRules s op ns ty v =
     sort_key tier (filter (\<lambda>r. ruleMatches ty v r \<and> tier r \<noteq> MinInt16 \<and> tier r \<noteq> MaxInt16)
       (candidateRules s op ns))"

lemma set_candidateTiers:
  "t \<in> set (candidateTiers s op ns) \<longleftrightarrow> t \<in> tier ` set (candidateRules s op ns) \<and> t \<noteq> MinInt16 \<and> t \<noteq> MaxInt16"
  by (auto simp: candidateTiers_def set_tiersAbove order.strict_iff_order)

lemma executedRules_tiers:
  "executedRules s op ns ty v =
     concat (map (\<lambda>t. filter (ruleMatches ty v) (rulesOfTier s op ns t)) (candidateTiers s op ns))"
proof -
  let ?c = "candidateRules s op ns"
  have "concat (map (\<lambda>t. filter (\<lambda>r. tier r = t) (filter (ruleMatches ty v) ?c)) (candidateTiers s op ns)) =
    sort_key tier (filter (\<lambda>r. tier r \<in> set (candidateTiers s op ns)) (filter (ruleMatches ty v) ?c))"
    by (rule concat_tiers_sort) (simp_all add: candidateTiers_def tiersAbove_sorted)
  also have "filter (\<lambda>r. tier r \<in> set (candidateTiers s op ns)) (filter (ruleMatches ty v) ?c) =
    filter (\<lambda>r. ruleMatches ty v r \<and> tier r \<noteq> MinInt16 \<and> tier r \<noteq> MaxInt16) ?c"
    by (auto simp: set_candidateTiers intro!: filter_cong)
  finally show ?thesis
    by (simp add: executedRules_def rulesOfTier_def conj_commute)
qed

text \<open>The text a rejecting rule contributes.\<close>

definition rejectionText :: "string \<Rightarrow> val \<Rightarrow> storeItem \<Rightarrow> string" where
  "rejectionText ns v r =
     (case si_rejectMessageTemplate r of
        None \<Rightarrow> GetNamespacedName (si_modRule r)
      | Some tpl \<Rightarrow>
          (case tpl (RejectTemplateContext ns v) of
             Inr vb \<Rightarrow> GetNamespacedName (si_modRule r) @ '': '' @ [CHR 0x22] @ vb @ [CHR 0x22]
           | Inl _ \<Rightarrow> GetNamespacedName (si_modRule r)))"

lemma rejectionMessage_ok:
  "isOk (rejectionMessage ns v r) \<Longrightarrow> rejectionMessage ns v r = Inr [rejectionText ns v r]"
  by (auto simp: rejectionMessage_def rejectionText_def onErr_def split: option.splits sum.splits fail.splits)

lemma rejectTier_ok:
  assumes "\<And>r. r \<in> set (candidateRules s op ns) \<Longrightarrow> isOk (IsMatch r v) \<and> isOk (rejectionMessage ns v r)"
  shows "rejectTier s op ns v ms t =
    Inr (ms @ map (rejectionText ns v) (filter (ruleMatches ModRuleTypeReject v) (rulesOfTier s op ns t)))"
proof -
  have c: "set (rulesOfTier s op ns t) \<subseteq> set (candidateRules s op ns)" by (auto simp: rulesOfTier_def)
  have "selectRules ModRuleTypeReject v (rulesOfTier s op ns t) =
      Inr (filter (ruleMatches ModRuleTypeReject v) (rulesOfTier s op ns t))"
    using assms c by (intro selectRules_ok) auto
  moreover have "concatM (rejectionMessage ns v) (filter (ruleMatches ModRuleTypeReject v) (rulesOfTier s op ns t)) =
      Inr (concat (map (\<lambda>r. [rejectionText ns v r]) (filter (ruleMatches ModRuleTypeReject v) (rulesOfTier s op ns t))))"
    using assms c by (intro concatM_Inr rejectionMessage_ok) auto
  ultimately show ?thesis by (simp add: rejectTier_def)
qed

lemma foldM_Inr: "(\<And>s x. f s x = Inr (g s x)) \<Longrightarrow> foldM f s xs = Inr (foldl g s xs)"
  by (induction xs arbitrary: s) auto

lemma foldl_append_concat: "foldl (\<lambda>ms t. ms @ f t) a ts = a @ concat (map f ts)"
  by (induction ts arbitrary: a) auto

lemma DetermineRejections_executed:
  assumes "\<And>r. r \<in> set (candidateRules s op ns) \<Longrightarrow> isOk (IsMatch r v) \<and> isOk (rejectionMessage ns v r)"
  shows "DetermineRejections s op ns v =
    Inr (map (rejectionText ns v) (executedRules s op ns ModRuleTypeReject v))"
proof -
  have "isOk (selectRules ModRuleTypeReject v (rulesOfTier s op ns MaxInt16))"
    using selectRules_ok [of "rulesOfTier s op ns MaxInt16" v ModRuleTypeReject] assms
    by (auto simp: rulesOfTier_def)
  then obtain top where "selectRules ModRuleTypeReject v (rulesOfTier s op ns MaxInt16) = Inr top"
    by (auto simp: isOk_iff)
  then show ?thesis
    by (simp add: DetermineRejections_def rejectTiers_fold foldM_Inr [OF rejectTier_ok [OF assms]]
        foldl_append_concat executedRules_tiers map_concat o_def)
qed

section \<open>A store whose rules leave the document alone\<close>

lemma foldM_const: "(\<And>x. x \<in> set xs \<Longrightarrow> f s x = Inr s) \<Longrightarrow> foldM f s xs = Inr s"
  by (induction xs) auto

lemma patchTiers_idle:
  assumes ok: "\<And>r. r \<in> set (candidateRules s op ns) \<Longrightarrow> isOk (IsMatch r (jsonDoc st))"
    and idle: "executedRules s op ns ModRuleTypePatch (jsonDoc st) = []"
  shows "patchTiers E s op ns MinInt16 st = Inr st"
proof -
  have sel: "selectRules ModRuleTypePatch (jsonDoc st) (rulesOfTier s op ns t) =
      Inr (filter (ruleMatches ModRuleTypePatch (jsonDoc st)) (rulesOfTier s op ns t))" for t
    using ok by (intro selectRules_ok) (auto simp: rulesOfTier_def)
  have "filter (ruleMatches ModRuleTypePatch (jsonDoc st)) (rulesOfTier s op ns t) = []"
    if "t \<in> set (candidateTiers s op ns)" for t
    using idle that by (simp add: executedRules_tiers)
  then have "foldM (patchTier E s op ns) st (candidateTiers s op ns) = Inr st"
    by (intro foldM_const) (simp add: patchTier_def sel)
  then show ?thesis by (simp add: patchTiers_fold sel)
qed

lemma mapPut_same: "map_of kvs k = Some x \<Longrightarrow> mapPut k x kvs = kvs"
  by (induction k x kvs rule: mapPut.induct) (auto split: if_splits)

text \<open>Writing back the annotation that was read changes nothing.\<close>

lemma stickLastApplied_same:
  assumes "extractLastAppliedConfiguration v = Some la"
  shows "stickLastApplied v la = Inr v"
proof -
  have split: "splitOn CHR '':'' (''metadata:annotations:'' @ lastAppliedKey) =
      [''metadata'', ''annotations'', lastAppliedKey]"
    by (simp add: lastAppliedKey_def)
  obtain root meta node where
    "v = VObj root" "map_of root ''metadata'' = Some (VObj meta)"
    "map_of meta ''annotations'' = Some (VObj node)" "map_of node lastAppliedKey = Some (VStr la)"
    using assms unfolding extractLastAppliedConfiguration_def getValueFromJSONObject_def split
    by (auto split: val.splits option.splits)
  then show ?thesis
    by (simp add: stickLastApplied_def assertObject_def indexObject_def mapPut_same)
qed

end
