(* ===== verification/StoreRules.thy ===== *)
theory StoreRules imports TierLoops begin

text \<open>
  \<open>Put\<close> and \<open>Delete\<close> against their abstract specification: a finite map from the pair of a
  namespace and a name to a compiled rule. Two interfaces: what \<open>sort.Sort\<close> promises about
  the slice it reorders, and what the store promises its clients.
\<close>

section \<open>The contract of sort.Sort\<close>

text \<open>
  \<open>sort.Sort\<close> permutes its slice into order and promises nothing about equal elements.
\<close>

locale tier_sort =
  fixes tierOf :: "'a \<Rightarrow> 'k::linorder" and sort_slice :: "'a list \<Rightarrow> 'a list"
  assumes sort_permutes: "mset (sort_slice xs) = mset xs"
    and sort_ordered: "sorted (map tierOf (sort_slice xs))"
begin

lemma sort_set: "set (sort_slice xs) = set xs"
  by (rule mset_eq_setD [OF sort_permutes])

lemma sort_length: "length (sort_slice xs) = length xs"
  by (rule mset_eq_length [OF sort_permutes])

lemma sort_distinct: "distinct (map f (sort_slice xs)) \<longleftrightarrow> distinct (map f xs)"
  by (metis mset_eq_imp_distinct_iff mset_map sort_permutes)

lemma sort_filter: "mset (filter P (sort_slice xs)) = mset (filter P xs)"
  by (simp add: mset_filter sort_permutes)

end

definition sortsByTier :: "('p, 'o) env \<Rightarrow> bool" where
  "sortsByTier E \<longleftrightarrow> tier_sort tier (sortSort E)"

text \<open>
  The insertion sort that \<open>sort.Sort\<close> runs on a slice of up to 12 elements, through the
  \<open>Less\<close> and \<open>Swap\<close> of \<open>ByExecutionTier\<close>.
\<close>

fun siftDown :: "storeItem list \<Rightarrow> nat \<Rightarrow> storeItem list" where
  "siftDown a 0 = a"
| "siftDown a (Suc j) = (if tierLess a (Suc j) j then siftDown (tierSwap a (Suc j) j) j else a)"

definition insertionSort :: "storeItem list \<Rightarrow> storeItem list" where
  "insertionSort a = foldl siftDown a [1..<length a]"

lemma tierSwap_length [simp]: "length (tierSwap a i j) = length a"
  by (simp add: tierSwap_def)

lemma tierSwap_mset: "i < length a \<Longrightarrow> j < length a \<Longrightarrow> mset (tierSwap a i j) = mset a"
  unfolding tierSwap_def by (rule mset_swap [of j a i])

lemma siftDown_length [simp]: "length (siftDown a j) = length a"
  by (induction a j rule: siftDown.induct) auto

lemma siftDown_mset: "j < length a \<Longrightarrow> mset (siftDown a j) = mset a"
  by (induction a j rule: siftDown.induct) (auto simp: tierSwap_mset)

text \<open>The sift leaves everything above its start alone and orders the prefix up to it.\<close>

definition sortedExcept :: "storeItem list \<Rightarrow> nat \<Rightarrow> nat \<Rightarrow> bool" where
  "sortedExcept a j n \<longleftrightarrow>
     (\<forall>p q. p < q \<longrightarrow> q \<le> n \<longrightarrow> q \<noteq> j \<longrightarrow> tier (a ! p) \<le> tier (a ! q))"

lemma siftDown_sorted:
  "sortedExcept a j n \<Longrightarrow> j \<le> n \<Longrightarrow> n < length a \<Longrightarrow>
   \<forall>p q. p < q \<longrightarrow> q \<le> n \<longrightarrow> tier (siftDown a j ! p) \<le> tier (siftDown a j ! q)"
proof (induction a j rule: siftDown.induct)
  case (1 a)
  then show ?case by (auto simp: sortedExcept_def)
next
  case (2 a j)
  show ?case
  proof (cases "tierLess a (Suc j) j")
    case True
    have "sortedExcept (tierSwap a (Suc j) j) j n"
      using 2 True unfolding sortedExcept_def tierSwap_def tierLess_def
      by (auto simp: nth_list_update less_Suc_eq_le)
    then show ?thesis using 2 True by simp
  next
    case False
    then have top: "tier (a ! j) \<le> tier (a ! Suc j)" by (simp add: tierLess_def)
    have le: "tier (a ! p) \<le> tier (a ! Suc j)" if "p < Suc j" for p
    proof (cases "p = j")
      case False
      then have "tier (a ! p) \<le> tier (a ! j)"
        using that 2(2,3) by (simp add: sortedExcept_def)
      then show ?thesis by (rule order_trans [OF _ top])
    qed (use top in simp)
    have "tier (a ! p) \<le> tier (a ! q)" if "p < q" "q \<le> n" for p q
      using that le 2(2) by (cases "q = Suc j") (auto simp: sortedExcept_def)
    then show ?thesis using False by simp
  qed
qed

text \<open>The elements above the start of the sift stay where they are.\<close>

lemma insertionSort_prefix:
  "n \<le> length a \<Longrightarrow> let b = foldl siftDown a [1..<n] in
     mset b = mset a \<and> (\<forall>p q. p < q \<longrightarrow> q < n \<longrightarrow> tier (b ! p) \<le> tier (b ! q))"
proof (induction n)
  case 0
  show ?case by simp
next
  case (Suc n)
  show ?case
  proof (cases "n = 0")
    case True
    then show ?thesis by simp
  next
    case False
    define b where "b = foldl siftDown a [1..<n]"
    have b: "mset b = mset a" "\<And>p q. p < q \<Longrightarrow> q < n \<Longrightarrow> tier (b ! p) \<le> tier (b ! q)"
      using Suc by (auto simp: b_def Let_def)
    have len: "n < length b" using Suc.prems mset_eq_length [OF b(1)] by simp
    have "sortedExcept b n n"
      using b(2) by (auto simp: sortedExcept_def)
    from siftDown_sorted [OF this _ len] siftDown_mset [OF len] b(1) False
    show ?thesis by (simp add: b_def Let_def less_Suc_eq_le)
  qed
qed

interpretation go_sort: tier_sort tier insertionSort
proof
  fix xs
  have A: "mset (insertionSort xs) = mset xs"
      "\<forall>p q. p < q \<longrightarrow> q < length xs \<longrightarrow> tier (insertionSort xs ! p) \<le> tier (insertionSort xs ! q)"
    using insertionSort_prefix [of "length xs" xs] by (auto simp: insertionSort_def Let_def)
  show "mset (insertionSort xs) = mset xs" by (rule A(1))
  show "sorted (map tier (insertionSort xs))"
    using A(2) mset_eq_length [OF A(1)] by (auto simp: sorted_wrt_iff_nth_less)
qed

section \<open>The contract of the store\<close>

text \<open>
  What the callers of \<open>Put\<close> and \<open>Delete\<close> rely on, stated on the map \<open>look\<close> from keys to
  items that a store stands for: a rule that compiles replaces the item under its key, a rule
  that does not compile leaves the map alone and is reported, a panic of a compiler is passed
  on, and deletion clears the key.
\<close>

locale rule_store =
  fixes inv :: "'s \<Rightarrow> bool"
    and look :: "'s \<Rightarrow> 'k \<rightharpoonup> 'i"
    and put :: "'s \<Rightarrow> 'r \<Rightarrow> ('s \<times> string option) res"
    and del :: "'s \<Rightarrow> 'k \<Rightarrow> 's"
    and key :: "'r \<Rightarrow> 'k"
    and build :: "'r \<Rightarrow> 'i res"
  assumes put_ok: "inv s \<Longrightarrow> build r = Inr i \<Longrightarrow>
      \<exists>s'. put s r = Inr (s', None) \<and> inv s' \<and> look s' = (look s)(key r \<mapsto> i)"
    and put_err: "inv s \<Longrightarrow> build r = Inl (GoErr e) \<Longrightarrow>
      \<exists>s' m. put s r = Inr (s', Some m) \<and> inv s' \<and> look s' = look s"
    and put_panic: "build r = Inl (GoPanic p) \<Longrightarrow> put s r = Inl (GoPanic p)"
    and del_inv: "inv s \<Longrightarrow> inv (del s k)"
    and del_look: "inv s \<Longrightarrow> look (del s k) = (look s)(k := None)"
begin

lemma put_cases:
  assumes "inv s" and "put s r = Inr (s', err)"
  shows "inv s' \<and> ((\<exists>i. build r = Inr i \<and> err = None \<and> look s' = (look s)(key r \<mapsto> i)) \<or>
    (\<exists>e. build r = Inl (GoErr e) \<and> err \<noteq> None \<and> look s' = look s))"
proof (cases "build r")
  case (Inl f)
  then show ?thesis using assms put_err [OF assms(1)] put_panic [of r _ s] by (cases f) fastforce+
next
  case (Inr i)
  then show ?thesis using assms put_ok [OF assms(1) Inr] by auto
qed

lemma put_inv: "inv s \<Longrightarrow> put s r = Inr (s', err) \<Longrightarrow> inv s'"
  using put_cases by blast

lemma put_frame: "inv s \<Longrightarrow> put s r = Inr (s', err) \<Longrightarrow> k \<noteq> key r \<Longrightarrow> look s' k = look s k"
  using put_cases by (metis fun_upd_other)

lemma put_put:
  assumes "inv s" "build r = Inr i" "build r' = Inr i'" "key r = key r'"
    "put s r = Inr (s1, e1)" "put s1 r' = Inr (s2, e2)" "put s r' = Inr (s3, e3)"
  shows "look s2 = look s3"
proof -
  have s1: "inv s1" "look s1 = (look s)(key r \<mapsto> i)"
    using put_cases [OF assms(1,5)] assms(2) by auto
  have "look s2 = (look s1)(key r' \<mapsto> i')"
    using put_cases [OF s1(1) assms(6)] assms(3) by auto
  moreover have "look s3 = (look s)(key r' \<mapsto> i')"
    using put_cases [OF assms(1,7)] assms(3) by auto
  ultimately show ?thesis using s1(2) assms(4) by simp
qed

lemma del_put:
  assumes "inv s" "put s r = Inr (s', err)"
  shows "look (del s' (key r)) = (look s)(key r := None)"
  using put_cases [OF assms] del_look by auto

end

section \<open>The store as a map\<close>

definition lookupRule :: "modRuleStore \<Rightarrow> string \<times> string \<rightharpoonup> storeItem" where
  "lookupRule s k = map_of (map (\<lambda>x. (ruleName x, x)) (rulesOf s (fst k))) (snd k)"

text \<open>
  Names are unique in a namespace, and an item is filed under the namespace of its rule.
\<close>

definition storeInv :: "modRuleStore \<Rightarrow> bool" where
  "storeInv s \<longleftrightarrow> (\<forall>ns. distinct (map ruleName (rulesOf s ns)) \<and>
     (\<forall>x \<in> set (rulesOf s ns). Namespace (si_modRule x) = ns))"

lemma findItemIndexByName_Some:
  "findItemIndexByName xs n = Some i \<Longrightarrow> i < length xs \<and> ruleName (xs ! i) = n"
  by (induction xs arbitrary: i) (auto split: if_splits)

lemma findItemIndexByName_None: "findItemIndexByName xs n = None \<longleftrightarrow> n \<notin> set (map ruleName xs)"
  by (induction xs) auto

lemma lookupRule_Some:
  "storeInv s \<Longrightarrow> lookupRule s (ns, n) = Some x \<longleftrightarrow> x \<in> set (rulesOf s ns) \<and> ruleName x = n"
  by (auto simp: lookupRule_def storeInv_def o_def dest: map_of_SomeD)

text \<open>The lookup depends on the set of the rules of the namespace only.\<close>

lemma lookupRule_upd:
  assumes inv: "storeInv s" "storeInv s'"
    and other: "\<And>ns'. ns' \<noteq> ns \<Longrightarrow> rulesOf s' ns' = rulesOf s ns'"
    and here: "\<And>x. x \<in> set (rulesOf s' ns) \<longleftrightarrow> P x \<or> (x \<in> set (rulesOf s ns) \<and> ruleName x \<noteq> n)"
    and P: "\<And>x. P x \<longleftrightarrow> upd = Some x" and name: "\<And>x. upd = Some x \<Longrightarrow> ruleName x = n"
  shows "lookupRule s' = (lookupRule s)((ns, n) := upd)"
proof
  fix k :: "string \<times> string"
  obtain ns' m where k: "k = (ns', m)" by (cases k)
  show "lookupRule s' k = ((lookupRule s)((ns, n) := upd)) k"
  proof (cases "ns' = ns")
    case False
    then show ?thesis by (simp add: k lookupRule_def other)
  next
    case True
    have "lookupRule s' (ns, m) = Some x \<longleftrightarrow> ((lookupRule s)((ns, n) := upd)) (ns, m) = Some x" for x
      using here [of x] P [of x] name [of x] by (auto simp: lookupRule_Some inv)
    then have "lookupRule s' (ns, m) = ((lookupRule s)((ns, n) := upd)) (ns, m)"
      by (metis not_Some_eq)
    then show ?thesis by (simp add: k True)
  qed
qed

lemma rulesOf_upd [simp]:
  "rulesOf (s\<lparr>modRuleListMap := (modRuleListMap s)(ns := x)\<rparr>) ns' =
     (if ns' = ns then (case x of None \<Rightarrow> [] | Some xs \<Rightarrow> xs) else rulesOf s ns')"
  by (simp add: rulesOf_def)

section \<open>Put\<close>

text \<open>The slice after the rule took its place, before it is sorted.\<close>

definition placed :: "storeItem list \<Rightarrow> storeItem \<Rightarrow> storeItem list" where
  "placed xs item = (case findItemIndexByName xs (ruleName item) of
     Some i \<Rightarrow> xs[i := item] | None \<Rightarrow> xs @ [item])"

lemma NewModRuleStoreItem_rule: "NewModRuleStoreItem E r = Inr item \<Longrightarrow> si_modRule item = r"
  by (auto simp: NewModRuleStoreItem_def Let_def res_simps)

lemma Put_ok:
  assumes "NewModRuleStoreItem E r = Inr item"
  shows "Put E s r = Inr (s\<lparr>modRuleListMap := (modRuleListMap s)
    (Namespace r \<mapsto> sortSort E (placed (rulesOf s (Namespace r)) item))\<rparr>, None)"
  using NewModRuleStoreItem_rule [OF assms] assms
  by (auto simp: Put_def placed_def rulesOf_def Let_def split: option.splits)

lemma Put_err:
  assumes "NewModRuleStoreItem E r = Inl (GoErr e)"
  shows "\<exists>s'. Put E s r = Inr (s', Some (''failed to add ModRule to ModRuleStore: '' @ e)) \<and>
    rulesOf s' = rulesOf s \<and> clusterModRulesNamespace s' = clusterModRulesNamespace s"
  using assms
  by (auto simp: Put_def Let_def fun_eq_iff rulesOf_def split: option.splits)

lemma Put_panic: "NewModRuleStoreItem E r = Inl (GoPanic p) \<Longrightarrow> Put E s r = Inl (GoPanic p)"
  by (auto simp: Put_def Let_def split: option.splits)

lemma set_placed:
  assumes "distinct (map ruleName xs)"
  shows "x \<in> set (placed xs item) \<longleftrightarrow> x = item \<or> x \<in> set xs \<and> ruleName x \<noteq> ruleName item"
proof (cases "findItemIndexByName xs (ruleName item)")
  case None
  then have "ruleName item \<notin> ruleName ` set xs" by (simp add: findItemIndexByName_None)
  then show ?thesis by (auto simp: placed_def None image_iff)
next
  case (Some i)
  note i = findItemIndexByName_Some [OF Some]
  have d: "distinct xs" "inj_on ruleName (set xs)" using assms by (simp_all add: distinct_map)
  then have "x \<in> set xs - {xs ! i} \<longleftrightarrow> x \<in> set xs \<and> ruleName x \<noteq> ruleName item"
    using i nth_mem [of i xs] inj_onD [of ruleName "set xs" x "xs ! i"] by auto
  then show ?thesis
    using i d(1) by (simp add: placed_def Some set_update_distinct)
qed

lemma distinct_placed:
  assumes "distinct (map ruleName xs)"
  shows "distinct (map ruleName (placed xs item))"
proof (cases "findItemIndexByName xs (ruleName item)")
  case None
  then have "ruleName item \<notin> ruleName ` set xs" by (simp add: findItemIndexByName_None)
  then show ?thesis using assms by (simp add: placed_def None)
next
  case (Some i)
  note i = findItemIndexByName_Some [OF Some]
  have "map ruleName (xs[i := item]) = map ruleName xs"
    using i by (metis list_update_id map_update)
  with assms show ?thesis by (simp add: placed_def Some)
qed

section \<open>Delete\<close>

lemma mset_swap_remove:
  assumes "i < length xs"
  shows "mset (take (length xs - 1) (xs[i := xs ! (length xs - 1)])) = mset xs - {#xs ! i#}"
proof -
  obtain ys y where xs: "xs = ys @ [y]" using assms by (cases xs rule: rev_cases) auto
  show ?thesis
  proof (cases "i = length ys")
    case True
    then show ?thesis by (simp add: xs)
  next
    case False
    then have "i < length ys" using assms xs by simp
    then show ?thesis
      by (simp add: xs list_update_append nth_append mset_update)
  qed
qed

lemma Delete_rules:
  assumes "storeInv s"
  shows "mset (rulesOf (Delete s ns n) ns') =
    (if ns' = ns then filter_mset (\<lambda>x. ruleName x \<noteq> n) (mset (rulesOf s ns)) else mset (rulesOf s ns'))"
proof (cases "\<exists>xs i. modRuleListMap s ns = Some xs \<and> findItemIndexByName xs n = Some i")
  case False
  then have D: "Delete s ns n = s" by (auto simp: Delete_def split: option.splits)
  have "findItemIndexByName (rulesOf s ns) n = None"
    using False by (cases "modRuleListMap s ns") (auto simp: rulesOf_def)
  then have "filter (\<lambda>x. ruleName x \<noteq> n) (rulesOf s ns) = rulesOf s ns"
    by (auto simp: findItemIndexByName_None intro!: filter_True)
  then show ?thesis by (simp add: D flip: mset_filter)
next
  case True
  then obtain xs i where xs: "modRuleListMap s ns = Some xs" and f: "findItemIndexByName xs n = Some i" by blast
  note i = findItemIndexByName_Some [OF f]
  let ?ys = "take (length xs - 1) (xs[i := xs ! (length xs - 1)])"
  have "rulesOf s ns = xs" by (simp add: rulesOf_def xs)
  then have d: "distinct (map ruleName xs)" using assms by (auto simp: storeInv_def)
  have "mset (filter (\<lambda>x. ruleName x \<noteq> n) xs) = mset xs - {#xs ! i#}"
    using i d
  proof (induction xs arbitrary: i)
    case (Cons x xs)
    show ?case
    proof (cases i)
      case 0
      have "filter (\<lambda>x. ruleName x \<noteq> n) xs = xs" using Cons.prems 0 by (auto simp: image_iff intro!: filter_True)
      then show ?thesis using Cons.prems 0 by simp
    next
      case (Suc j)
      then have "ruleName x \<noteq> n" using Cons.prems by auto
      then show ?thesis using Cons.IH [of j] Cons.prems Suc nth_mem [of j xs]
        by (auto simp: diff_add_mset_swap)
    qed
  qed simp
  moreover have "rulesOf (Delete s ns n) ns' = (if ns' = ns then ?ys else rulesOf s ns')"
    by (auto simp: Delete_def xs f Let_def rulesOf_def)
  ultimately show ?thesis
    using mset_swap_remove [of i xs] i by (simp add: \<open>rulesOf s ns = xs\<close>)
qed

lemma set_Delete:
  assumes "storeInv s"
  shows "x \<in> set (rulesOf (Delete s ns n) ns') \<longleftrightarrow>
    x \<in> set (rulesOf s ns') \<and> \<not> (ns' = ns \<and> ruleName x = n)"
  using arg_cong [OF Delete_rules [OF assms, of ns n ns'], of set_mset] by (auto split: if_splits)

lemma distinct_Delete:
  assumes "storeInv s"
  shows "distinct (map ruleName (rulesOf (Delete s ns n) ns'))"
proof -
  have "mset (rulesOf (Delete s ns n) ns') =
    mset (if ns' = ns then filter (\<lambda>x. ruleName x \<noteq> n) (rulesOf s ns) else rulesOf s ns')"
    using Delete_rules [OF assms, of ns n ns'] by (simp add: mset_filter)
  then have "distinct (map ruleName (rulesOf (Delete s ns n) ns')) \<longleftrightarrow> distinct (map ruleName
    (if ns' = ns then filter (\<lambda>x. ruleName x \<noteq> n) (rulesOf s ns) else rulesOf s ns'))"
    by (metis mset_eq_imp_distinct_iff mset_map)
  then show ?thesis
    using assms by (simp add: storeInv_def distinct_map_filter)
qed

lemma Delete_storeInv: "storeInv s \<Longrightarrow> storeInv (Delete s ns n)"
  using distinct_Delete set_Delete by (auto simp: storeInv_def)

lemma Delete_lookup:
  assumes "storeInv s"
  shows "lookupRule (Delete s ns n) = (lookupRule s)((ns, n) := None)"
proof (rule lookupRule_upd [OF assms Delete_storeInv [OF assms], where P = "\<lambda>_. False"])
  fix ns' :: string
  assume "ns' \<noteq> ns"
  then show "rulesOf (Delete s ns n) ns' = rulesOf s ns'"
    by (auto simp: Delete_def Let_def rulesOf_def split: option.splits)
qed (auto simp: set_Delete assms)

lemma Delete_cluster [simp]: "clusterModRulesNamespace (Delete s ns n) = clusterModRulesNamespace s"
  by (auto simp: Delete_def Let_def split: option.splits)

lemma Put_storeInv:
  assumes E: "sortsByTier E" and inv: "storeInv s" and item: "NewModRuleStoreItem E r = Inr item"
    and put: "Put E s r = Inr (s', err)"
  shows "storeInv s'" "lookupRule s' = (lookupRule s)((Namespace r, Name r) \<mapsto> item)"
proof -
  have sorts: "tier_sort tier (sortSort E)" using E by (simp add: sortsByTier_def)
  note srt = tier_sort.sort_set [OF sorts] tier_sort.sort_distinct [OF sorts]
  have rule: "si_modRule item = r" by (rule NewModRuleStoreItem_rule [OF item])
  let ?xs = "rulesOf s (Namespace r)"
  have d: "distinct (map ruleName ?xs)" using inv by (simp add: storeInv_def)
  have s': "s' = s\<lparr>modRuleListMap := (modRuleListMap s)(Namespace r \<mapsto> sortSort E (placed ?xs item))\<rparr>"
    using Put_ok [OF item, of s] put by simp
  show inv': "storeInv s'"
    using inv rule by (auto simp: storeInv_def s' srt distinct_placed set_placed)
  show "lookupRule s' = (lookupRule s)((Namespace r, Name r) \<mapsto> item)"
    by (rule lookupRule_upd [OF inv inv', where P = "\<lambda>x. x = item"])
      (auto simp: s' srt set_placed d rule)
qed

lemma lookupRule_cong: "rulesOf s' = rulesOf s \<Longrightarrow> lookupRule s' = lookupRule s"
  by (auto simp: lookupRule_def fun_eq_iff)

lemma storeInv_cong: "rulesOf s' = rulesOf s \<Longrightarrow> storeInv s' \<longleftrightarrow> storeInv s"
  by (simp add: storeInv_def)

text \<open>The environment of a store whose sort is Go's; every other function is the environment's.\<close>

definition withGoSort :: "('p, 'o) env \<Rightarrow> ('p, 'o) env" where
  "withGoSort E = E\<lparr>sortSort := insertionSort\<rparr>"

lemma sortsByTier_withGoSort: "sortsByTier (withGoSort E)"
  using go_sort.tier_sort_axioms by (simp add: sortsByTier_def withGoSort_def)

lemma Put_contract:
  assumes E: "sortsByTier E" and inv: "storeInv s"
  shows "NewModRuleStoreItem E r = Inr i \<Longrightarrow>
      \<exists>s'. Put E s r = Inr (s', None) \<and> storeInv s' \<and> lookupRule s' = (lookupRule s)((Namespace r, Name r) \<mapsto> i)"
    and "NewModRuleStoreItem E r = Inl (GoErr e) \<Longrightarrow>
      \<exists>s' m. Put E s r = Inr (s', Some m) \<and> storeInv s' \<and> lookupRule s' = lookupRule s"
proof -
  show "\<exists>s'. Put E s r = Inr (s', None) \<and> storeInv s' \<and> lookupRule s' = (lookupRule s)((Namespace r, Name r) \<mapsto> i)"
    if "NewModRuleStoreItem E r = Inr i"
    using Put_ok [OF that, of s] Put_storeInv [OF E inv that] by blast
  show "\<exists>s' m. Put E s r = Inr (s', Some m) \<and> storeInv s' \<and> lookupRule s' = lookupRule s"
    if "NewModRuleStoreItem E r = Inl (GoErr e)"
    using Put_err [OF that, of s] inv storeInv_cong lookupRule_cong by metis
qed

lemma rule_store_Put:
  assumes "sortsByTier E"
  shows "rule_store storeInv lookupRule (Put E) (\<lambda>s k. Delete s (fst k) (snd k))
    (\<lambda>r. (Namespace r, Name r)) (NewModRuleStoreItem E)"
proof
  fix s r i e p k
  show "\<exists>s'. Put E s r = Inr (s', None) \<and> storeInv s' \<and> lookupRule s' = (lookupRule s)((Namespace r, Name r) \<mapsto> i)"
    if "storeInv s" "NewModRuleStoreItem E r = Inr i"
    using Put_contract(1) [OF assms that] .
  show "\<exists>s' m. Put E s r = Inr (s', Some m) \<and> storeInv s' \<and> lookupRule s' = lookupRule s"
    if "storeInv s" "NewModRuleStoreItem E r = Inl (GoErr e)"
    using Put_contract(2) [OF assms that] .
  show "lookupRule (Delete s (fst k) (snd k)) = (lookupRule s)(k := None)" if "storeInv s"
    using Delete_lookup [OF that, of "fst k" "snd k"] by simp
qed (simp_all add: Put_panic Delete_storeInv)

text \<open>The store over Go's own sort.\<close>

interpretation rs: rule_store storeInv lookupRule "Put (withGoSort E)"
  "\<lambda>s k. Delete s (fst k) (snd k)" "\<lambda>r. (Namespace r, Name r)" "NewModRuleStoreItem (withGoSort E)"
  for E :: "('p, 'o) env"
  by (rule rule_store_Put [OF sortsByTier_withGoSort])

lemma storeInv_New: "storeInv (NewModRuleStore ns)"
  by (simp add: storeInv_def rulesOf_def NewModRuleStore_def)

lemma lookupRule_New: "lookupRule (NewModRuleStore ns) = Map.empty"
  by (simp add: lookupRule_def rulesOf_def NewModRuleStore_def fun_eq_iff)


end
