(* ===== verification/ItemMatch.thy ===== *)
theory ItemMatch imports StoreItem begin

text \<open>
  What matching means. \<open>NewModRuleStoreItem\<close> fills its caches completely, so the panics of
  a missing entry cannot happen, and \<open>isMatch\<close> computes the declarative meaning
  \<open>matchHolds\<close> of a match item, flipped by \<open>negate\<close>.
\<close>

section \<open>Compiled caches\<close>

definition noPanic :: "'a res \<Rightarrow> bool" where
  "noPanic m \<longleftrightarrow> (case m of Inl (GoPanic p) \<Rightarrow> False | _ \<Rightarrow> True)"

lemma noPanic_simps [simp]:
  "noPanic (Inr x)" "noPanic (Inl (GoErr e))" "\<not> noPanic (Inl (GoPanic p))"
  by (simp_all add: noPanic_def)

lemma noPanic_cases: "noPanic m \<Longrightarrow> (\<And>x. m = Inr x \<Longrightarrow> P) \<Longrightarrow> (\<And>e. m = Inl (GoErr e) \<Longrightarrow> P) \<Longrightarrow> P"
  by (auto simp: noPanic_def split: sum.splits fail.splits)

text \<open>A loop that compiles some of the elements into a cache keyed by their index.\<close>

definition cacheStep :: "('x \<Rightarrow> 'y res option) \<Rightarrow> (nat \<rightharpoonup> 'y) \<Rightarrow> nat \<times> 'x \<Rightarrow> (nat \<rightharpoonup> 'y) res" where
  "cacheStep g cache p = (case g (snd p) of
     None \<Rightarrow> Inr cache | Some m \<Rightarrow> bindr m (\<lambda>y. Inr (cache(fst p \<mapsto> y))))"

lemma foldM_cache:
  "foldM (cacheStep g) m0 (enumerate n xs) = Inr m \<Longrightarrow>
   (\<forall>j < n. m j = m0 j) \<and>
   (\<forall>i < length xs. \<forall>c. g (xs ! i) = Some c \<longrightarrow> (\<exists>y. c = Inr y \<and> m (n + i) = Some y))"
proof (induction xs arbitrary: n m0)
  case Nil
  then show ?case by simp
next
  case (Cons x xs)
  obtain m1 where m1: "cacheStep g m0 (n, x) = Inr m1"
    and rest: "foldM (cacheStep g) m1 (enumerate (Suc n) xs) = Inr m"
    using Cons.prems by (auto simp: bindr_Inr_iff)
  have IH: "\<forall>j < Suc n. m j = m1 j"
    "\<forall>i < length xs. \<forall>c. g (xs ! i) = Some c \<longrightarrow> (\<exists>y. c = Inr y \<and> m (Suc n + i) = Some y)"
    using Cons.IH [OF rest] by auto
  have m1_old: "m1 j = m0 j" if "j < n" for j
    using m1 that by (auto simp: cacheStep_def bindr_Inr_iff split: option.splits)
  have m1_new: "\<exists>y. c = Inr y \<and> m1 n = Some y" if "g x = Some c" for c
    using m1 that by (auto simp: cacheStep_def bindr_Inr_iff)
  have "\<exists>y. c = Inr y \<and> m (n + i) = Some y" if "i < length (x # xs)" "g ((x # xs) ! i) = Some c" for i c
    using that m1_new IH by (cases i) auto
  then show ?case using IH(1) m1_old by auto
qed

lemma newCompiledMatchSelects_cache:
  assumes "newCompiledMatchSelects E mis = Inr m" and "i < length mis"
  shows "\<exists>ev. NewEvaluable E (Select (mis ! i)) = Inr ev \<and> m i = Some ev"
proof -
  have "foldM (cacheStep (\<lambda>mi. Some (NewEvaluable E (Select mi)))) Map.empty (enumerate 0 mis) = Inr m"
    using assms(1) by (simp add: newCompiledMatchSelects_def cacheStep_def [abs_def] split_def)
  from foldM_cache [OF this] assms(2) show ?thesis by simp
qed

lemma newCompiledRegexes_cacheStep:
  "newCompiledRegexes E mis =
     foldM (cacheStep (\<lambda>mi. map_option (regexpCompile E) (MatchRegex mi))) Map.empty (enumerate 0 mis)"
proof -
  have "cacheStep (\<lambda>mi :: matchItem. map_option (regexpCompile E) (MatchRegex mi)) =
    (\<lambda>cache (i, mi). case MatchRegex mi of None \<Rightarrow> Inr cache
       | Some rex \<Rightarrow> bindr (regexpCompile E rex) (\<lambda>re. Inr (cache(i \<mapsto> re))))"
    by (auto simp: cacheStep_def fun_eq_iff split: option.splits)
  then show ?thesis by (simp add: newCompiledRegexes_def)
qed

lemma newCompiledRegexes_cache:
  assumes "newCompiledRegexes E mis = Inr m" and "i < length mis" and "MatchRegex (mis ! i) = Some rex"
  shows "\<exists>re. regexpCompile E rex = Inr re \<and> m i = Some re"
  using foldM_cache [OF assms(1) [unfolded newCompiledRegexes_cacheStep]] assms(2,3) by simp

lemma NewModRuleStoreItem_fields:
  assumes "NewModRuleStoreItem E r = Inr si"
  shows "si_modRule si = r"
    "newCompiledMatchSelects E (Match (Spec r)) = Inr (si_compiledMatchSelects si)"
    "newCompiledRegexes E (Match (Spec r)) = Inr (si_compiledRegexes si)"
    "newCompiledJSONPatch E (Patch (Spec r)) = Inr (si_compiledJSONPatch si)"
    "compileTargetNamespaceRegex E (TargetNamespaceRegex (Spec r)) = Inr (si_compiledTargetNamespaceRegex si)"
    "compileRejectMessage E (RejectMessage (Spec r)) = Inr (si_rejectMessageTemplate si)"
  using assms by (auto simp: NewModRuleStoreItem_def Let_def res_simps)

section \<open>The meaning of a match item\<close>

text \<open>The test a single string has to pass: matchValue wins over matchValues over matchRegex.\<close>

definition valueHolds :: "('p, 'o) env \<Rightarrow> matchItem \<Rightarrow> string \<Rightarrow> bool" where
  "valueHolds E mi x =
     (case MatchValue mi of
        Some mv \<Rightarrow> x = mv
      | None \<Rightarrow>
          if MatchValues mi \<noteq> [] then x \<in> set (MatchValues mi)
          else (case MatchRegex mi of
                  None \<Rightarrow> True
                | Some rex \<Rightarrow> (case regexpCompile E rex of Inr re \<Rightarrow> re x | Inl _ \<Rightarrow> True)))"

definition matchHolds :: "('p, 'o) env \<Rightarrow> matchItem \<Rightarrow> val res \<Rightarrow> bool" where
  "matchHolds E mi result =
     (case result of
        Inl _ \<Rightarrow> False
      | Inr VNil \<Rightarrow> False
      | Inr VUndef \<Rightarrow> False
      | Inr (VBool b) \<Rightarrow> b
      | Inr (VArr vs) \<Rightarrow>
          (let es = filter (\<lambda>v. v \<noteq> VUndef) vs in
           es \<noteq> [] \<and>
           (if matchesAny mi then \<exists>v \<in> set es. valueHolds E mi (matchString v)
            else (MatchFor mi = MatchForTypeAll \<longrightarrow> VUndef \<notin> set vs) \<and>
                 (\<forall>v \<in> set es. valueHolds E mi (matchString v))))
      | Inr v \<Rightarrow> valueHolds E mi (matchString v))"

lemma isStringMatch_holds:
  assumes "\<And>rex. MatchRegex mi = Some rex \<Longrightarrow> \<exists>re. regexpCompile E rex = Inr re \<and> m = Some re"
  shows "isStringMatch mi m x = Inr (valueHolds E mi x)"
  using assms by (fastforce simp: isStringMatch_def valueHolds_def list_ex_iff split: option.splits)

lemma matchLoop_holds:
  assumes "\<And>x. isStringMatch mi m x = Inr (valueHolds E mi x)"
  shows "matchLoop mi m (if matchesAny mi then Negate mi else \<not> Negate mi) vs =
    Inr ((if matchesAny mi then \<exists>v \<in> set vs. valueHolds E mi (matchString v)
          else \<forall>v \<in> set vs. valueHolds E mi (matchString v)) \<noteq> Negate mi)"
  by (induction vs) (auto simp: assms)

lemma containedUndefined_iff:
  "length (filter (\<lambda>v. v \<noteq> VUndef) vs) \<noteq> length vs \<longleftrightarrow> VUndef \<in> set vs"
proof (cases "VUndef \<in> set vs")
  case True
  then show ?thesis using length_filter_less [of VUndef vs "\<lambda>v. v \<noteq> VUndef"] by simp
next
  case False
  then have "filter (\<lambda>v. v \<noteq> VUndef) vs = vs" by (auto intro!: filter_True)
  with False show ?thesis by simp
qed

lemma MatchFor_All_not_any: "MatchFor mi = MatchForTypeAll \<Longrightarrow> \<not> matchesAny mi"
  by (simp add: matchesAny_def MatchForTypeAll_def MatchForTypeAny_def)

lemma isMatch_holds:
  assumes item: "NewModRuleStoreItem E r = Inr si"
    and i: "i < length (Match (Spec r))"
    and ev: "NewEvaluable E (Select (Match (Spec r) ! i)) = Inr ev"
    and np: "noPanic (ev background v)"
  shows "isMatch si (i, Match (Spec r) ! i) v =
    Inr (matchHolds E (Match (Spec r) ! i) (ev background v) \<noteq> Negate (Match (Spec r) ! i))"
proof -
  let ?mi = "Match (Spec r) ! i"
  note f = NewModRuleStoreItem_fields [OF item]
  have sel: "si_compiledMatchSelects si i = Some ev"
    using newCompiledMatchSelects_cache [OF f(2) i] ev by auto
  have str: "isStringMatch ?mi (si_compiledRegexes si i) x = Inr (valueHolds E ?mi x)" for x
    by (rule isStringMatch_holds) (rule newCompiledRegexes_cache [OF f(3) i])
  note loop = matchLoop_holds [OF str]
  show ?thesis
  proof (cases "ev background v")
    case (Inr res)
    show ?thesis
    proof (cases res)
      case (VArr vs)
      show ?thesis
        using containedUndefined_iff [of vs] MatchFor_All_not_any [of ?mi]
        by (auto simp: isMatch_def sel Inr VArr classify_def matchHolds_def Let_def loop)
    qed (auto simp: isMatch_def sel Inr classify_def matchHolds_def str)
  next
    case (Inl f)
    then show ?thesis using np by (cases f) (simp_all add: isMatch_def sel matchHolds_def)
  qed
qed

text \<open>A rule matches when every one of its items holds, negated or not.\<close>

definition ruleHolds :: "('p, 'o) env \<Rightarrow> modRule \<Rightarrow> val \<Rightarrow> bool" where
  "ruleHolds E r v \<longleftrightarrow> list_all (\<lambda>mi. case NewEvaluable E (Select mi) of
     Inr ev \<Rightarrow> matchHolds E mi (ev background v) \<noteq> Negate mi | Inl _ \<Rightarrow> False) (Match (Spec r))"

definition selectsSafe :: "('p, 'o) env \<Rightarrow> modRule \<Rightarrow> val \<Rightarrow> bool" where
  "selectsSafe E r v \<longleftrightarrow> list_all (\<lambda>mi. case NewEvaluable E (Select mi) of
     Inr ev \<Rightarrow> noPanic (ev background v) | Inl _ \<Rightarrow> True) (Match (Spec r))"

lemma isMatchAll_Inr:
  "(\<And>p. p \<in> set ims \<Longrightarrow> isMatch si p v = Inr (h p)) \<Longrightarrow> isMatchAll si ims v = Inr (list_all h ims)"
  by (induction ims) auto

lemma IsMatch_holds:
  assumes item: "NewModRuleStoreItem E r = Inr si" and safe: "selectsSafe E r v"
  shows "IsMatch si v = Inr (ruleHolds E r v)"
proof -
  let ?h = "\<lambda>(i :: nat, mi). case NewEvaluable E (Select mi) of
     Inr ev \<Rightarrow> matchHolds E mi (ev background v) \<noteq> Negate mi | Inl _ \<Rightarrow> False"
  note f = NewModRuleStoreItem_fields [OF item]
  have "isMatch si p v = Inr (?h p)" if p: "p \<in> set (enumerate 0 (Match (Spec r)))" for p
  proof -
    obtain i where i: "i < length (Match (Spec r))" "p = (i, Match (Spec r) ! i)"
      using p by (auto simp: in_set_enumerate_eq)
    obtain ev where ev: "NewEvaluable E (Select (Match (Spec r) ! i)) = Inr ev"
      using newCompiledMatchSelects_cache [OF f(2) i(1)] by blast
    have "noPanic (ev background v)"
      using safe i(1) ev by (auto simp: selectsSafe_def list_all_length split: sum.splits)
    from isMatch_holds [OF item i(1) ev this] show ?thesis by (simp add: i(2) ev)
  qed
  from isMatchAll_Inr [OF this]
  have "IsMatch si v = Inr (list_all ?h (enumerate 0 (Match (Spec r))))"
    by (simp add: IsMatch_def f(1))
  also have "list_all ?h (enumerate 0 (Match (Spec r))) = ruleHolds E r v"
    by (simp add: ruleHolds_def list_all_length nth_enumerate_eq)
  finally show ?thesis .
qed

end
