(* ===== verification/Sample.thy ===== *)
theory Sample imports StoreRules ItemMatch begin

text \<open>
  A concrete instance of the external functions, for the examples that show the hypotheses of
  the properties can hold. It implements fragments of the libraries: select queries that are
  plain key paths, or the object \<open>{#: path[*]}\<close> over one, regular expressions without
  metacharacters, templates without actions, YAML that is already JSON, and documents of the
  shape \<open>{"kind": text}\<close>, written as the text alone.
\<close>

definition sampleGval :: gvalEval where
  "sampleGval = \<lparr>
     EvalString = \<lambda>k c v. bindr (k c v) (\<lambda>x. Inr (fmtV x)),
     EvalInt = \<lambda>k c v. bindr (k c v) (\<lambda>x. case x of
        VInt i \<Rightarrow> Inr i | _ \<Rightarrow> Inl (GoErr (''expected number but got '' @ fmtV x))),
     EvalBool = \<lambda>k c v. bindr (k c v) (\<lambda>x. case x of
        VBool b \<Rightarrow> Inr b | _ \<Rightarrow> Inl (GoErr (''expected bool but got '' @ fmtV x)))\<rparr>"

definition keyPath :: "string \<Rightarrow> plainPath" where
  "keyPath s = map (\<lambda>k. directSelector sampleGval (Const (VStr k))) (splitOn CHR ''.'' s)"

definition sampleNewEvaluable :: "string \<Rightarrow> evaluable res" where
  "sampleNewEvaluable s =
     (if hasPrefix s ''$.'' then Inr (evaluate (Plain (keyPath (drop 2 s))))
      else if hasPrefix s ''{#: $.'' then
        Inr (selectObject sampleGval id (Ambiguous (Plain (keyPath (take (length s - 10) (drop 6 s)))) starSelector []))
      else Inl (GoErr ''parsing error''))"

definition sampleCompile :: "string \<Rightarrow> regexp res" where
  "sampleCompile s = (if s = ''('' then Inl (GoErr ''missing closing )'') else Inr (\<lambda>x. strContains x s))"

definition sampleTemplate :: "string \<Rightarrow> (string \<times> string) list \<Rightarrow> string \<Rightarrow> goTemplate res" where
  "sampleTemplate name fm txt =
     (if strContains txt ''{{'' then Inl (GoErr ''template: unclosed action'') else Inr (\<lambda>_. Inr txt))"

text \<open>
  Applying a patch yields the patch's text as the new document; the patch of a rule whose value
  is \<open>fail\<close> does not apply and returns the nil document beside its error.
\<close>

definition sampleApply :: "string \<Rightarrow> bytes \<Rightarrow> applyOptions \<Rightarrow> (bytes \<times> string option) res" where
  "sampleApply p doc opts =
     (if strContains p ''fail'' then Inr (None, Some ''testing value failed'')
      else if p = ''[]'' then Inr (doc, None)
      else Inr (Some p, None))"

definition sampleUnmarshal :: "bytes \<Rightarrow> val res" where
  "sampleUnmarshal b = (case b of
     None \<Rightarrow> Inl (GoErr ''unexpected end of JSON input'') | Some t \<Rightarrow> Inr (VObj [(''kind'', VStr t)]))"

definition sampleCreatePatch :: "bytes \<Rightarrow> bytes \<Rightarrow> string list res" where
  "sampleCreatePatch a b = (case (a, b) of
     (Some x, Some y) \<Rightarrow> Inr (if x = y then [] else [y])
   | _ \<Rightarrow> Inl (GoErr ''invalid JSON Document''))"

definition sampleEnv :: "(string, string) env" where
  "sampleEnv = \<lparr>NewEvaluable = sampleNewEvaluable, regexpCompile = sampleCompile,
     sprigFuncMap = [(''env'', ''os.Getenv''), (''upper'', ''strings.ToUpper'')],
     templateParse = sampleTemplate, sprintfOther = \<lambda>fmt args. fmt, YAMLToJSON = Inr,
     DecodePatch = Inr, ApplyWithOptions = sampleApply, CreatePatch = sampleCreatePatch,
     jsonUnmarshal = sampleUnmarshal, jsonMarshal = \<lambda>v. Inr (fmtV v),
     sortSort = insertionSort, rangeMap = id\<rparr>"

lemma sortsByTier_sample: "sortsByTier sampleEnv"
  using go_sort.tier_sort_axioms by (simp add: sortsByTier_def sampleEnv_def)

section \<open>Sample rules\<close>

definition kindIs :: "string \<Rightarrow> matchItem" where
  "kindIs k = \<lparr>Select = ''$.kind'', MatchFor = ''Any'', MatchValue = Some k, MatchValues = [],
     MatchRegex = None, Negate = False\<rparr>"

definition kindIsNot :: "string \<Rightarrow> matchItem" where
  "kindIsNot k = (kindIs k)\<lparr>Negate := True\<rparr>"

definition rejectRule :: "string \<Rightarrow> string \<Rightarrow> int \<Rightarrow> matchItem list \<Rightarrow> modRule" where
  "rejectRule ns n t ms = \<lparr>Namespace = ns, Name = n, Spec = \<lparr>Type = ''Reject'', ExecutionTier = toInt16 t,
     AdmissionOperations = [''CREATE''], Match = ms, Patch = [], RejectMessage = Some ''no'',
     TargetNamespaceRegex = None\<rparr>\<rparr>"

definition patchRule :: "string \<Rightarrow> string \<Rightarrow> int \<Rightarrow> string \<Rightarrow> modRule" where
  "patchRule ns n t value = \<lparr>Namespace = ns, Name = n, Spec = \<lparr>Type = ''Patch'', ExecutionTier = toInt16 t,
     AdmissionOperations = [''CREATE''], Match = [],
     Patch = [\<lparr>Operation = ''add'', PatchSelect = None, Path = ''/a'', Value = Some value\<rparr>],
     RejectMessage = None, TargetNamespaceRegex = None\<rparr>\<rparr>"

text \<open>The compiled form of a rule over match items without a regular expression.\<close>

definition sampleSelects :: "matchItem list \<Rightarrow> nat \<rightharpoonup> evaluable" where
  "sampleSelects ms = (\<lambda>i. if i < length ms then Some (evaluate (Plain (keyPath (drop 2 (Select (ms ! i)))))) else None)"

definition rejectItem :: "string \<Rightarrow> string \<Rightarrow> int \<Rightarrow> matchItem list \<Rightarrow> storeItem" where
  "rejectItem ns n t ms = \<lparr>si_modRule = rejectRule ns n t ms, si_compiledTargetNamespaceRegex = None,
     si_compiledMatchSelects = sampleSelects ms, si_compiledRegexes = Map.empty,
     si_compiledJSONPatch = [], si_rejectMessageTemplate = Some (\<lambda>_. Inr ''no'')\<rparr>"

definition patchItem :: "string \<Rightarrow> string \<Rightarrow> int \<Rightarrow> string \<Rightarrow> storeItem" where
  "patchItem ns n t value = \<lparr>si_modRule = patchRule ns n t value, si_compiledTargetNamespaceRegex = None,
     si_compiledMatchSelects = Map.empty, si_compiledRegexes = Map.empty,
     si_compiledJSONPatch = [\<lparr>cop_op = ''add'', cop_patchSelect = None, cop_path = ''/a'',
       cop_pathSprintfTemplate = ''/a'', cop_valueTemplate = (\<lambda>_. Inr value)\<rparr>],
     si_rejectMessageTemplate = None\<rparr>"

definition sampleStore :: "storeItem list \<Rightarrow> modRuleStore" where
  "sampleStore xs = \<lparr>modRuleListMap = [''a'' \<mapsto> xs], clusterModRulesNamespace = ''km''\<rparr>"

lemmas sample_eval = sampleEnv_def sampleNewEvaluable_def sampleCompile_def sampleTemplate_def
  sampleApply_def sampleUnmarshal_def sampleCreatePatch_def sampleGval_def keyPath_def
  kindIs_def kindIsNot_def rejectRule_def patchRule_def


lemma rejectItem_compiled:
  "NewModRuleStoreItem sampleEnv (rejectRule ns n t [kindIs k]) = Inr (rejectItem ns n t [kindIs k])"
  "NewModRuleStoreItem sampleEnv (rejectRule ns n t [kindIsNot k]) = Inr (rejectItem ns n t [kindIsNot k])"
  by (auto simp: NewModRuleStoreItem_def Let_def newCompiledMatchSelects_def newCompiledRegexes_def
      newCompiledJSONPatch_def compileRejectMessage_def compileTargetNamespaceRegex_def sample_eval
      hasPrefix_def NewSafeTemplate_Parse_def strContains_def rejectItem_def sampleSelects_def)

lemma patchItem_compiled:
  "NewModRuleStoreItem sampleEnv (patchRule ns n t ''1'') = Inr (patchItem ns n t ''1'')"
  "NewModRuleStoreItem sampleEnv (patchRule ns n t ''fail'') = Inr (patchItem ns n t ''fail'')"
  by (simp_all add: NewModRuleStoreItem_def Let_def newCompiledMatchSelects_def newCompiledRegexes_def
      newCompiledJSONPatch_def compilePatchOperation_def compileRejectMessage_def
      compileTargetNamespaceRegex_def sample_eval hasPrefix_def NewSafeTemplate_Parse_def strContains_def
      patchItem_def PreProcessModRuleGoTemplate_def scanNum.simps pathTemplateToSprintfTemplate_def
      scanPathPlaceholders_def extractMatches_def sprintf_def parseFormat.simps)

end
