(* ===== verification/StoreProps.thy ===== *)
theory StoreProps imports Sample begin

text \<open>
  The properties of the rule store: what the two loops over the tiers compute, that the store
  implements a map from keys to compiled rules, and the corner cases of both.
\<close>

section \<open>Stores of compiled rules\<close>

definition compiledStore :: "('p, 'o) env \<Rightarrow> modRuleStore \<Rightarrow> bool" where
  "compiledStore E s \<longleftrightarrow>
     (\<forall>ns. \<forall>x \<in> set (rulesOf s ns). NewModRuleStoreItem E (si_modRule x) = Inr x)"

lemma candidateRules_stored:
  "x \<in> set (candidateRules s op ns) \<Longrightarrow> \<exists>ns'. x \<in> set (rulesOf s ns')"
  by (auto simp: candidateRules_def split: if_splits)

lemma candidate_compiled:
  "compiledStore E s \<Longrightarrow> x \<in> set (candidateRules s op ns) \<Longrightarrow> NewModRuleStoreItem E (si_modRule x) = Inr x"
  using candidateRules_stored by (fastforce simp: compiledStore_def)

lemma candidate_IsMatch:
  "compiledStore E s \<Longrightarrow> x \<in> set (candidateRules s op ns) \<Longrightarrow> selectsSafe E (si_modRule x) v \<Longrightarrow>
   IsMatch x v = Inr (ruleHolds E (si_modRule x) v)"
  by (rule IsMatch_holds [OF candidate_compiled])

definition messageSafe :: "string \<Rightarrow> val \<Rightarrow> storeItem \<Rightarrow> bool" where
  "messageSafe ns v x \<longleftrightarrow> (case si_rejectMessageTemplate x of
     None \<Rightarrow> True | Some tpl \<Rightarrow> noPanic (tpl (RejectTemplateContext ns v)))"

lemma messageSafe_isOk: "messageSafe ns v x \<Longrightarrow> isOk (rejectionMessage ns v x)"
  by (auto simp: messageSafe_def rejectionMessage_def noPanic_def onErr_def isOk_def
      split: option.splits sum.splits fail.splits)

text \<open>
  The rules of a type that apply to a document: declared for the operation and the namespace,
  every match item holds, and the tier is neither of the two that the loops never reach.
\<close>

definition applicableRules :: "('p, 'o) env \<Rightarrow> modRuleStore \<Rightarrow> string \<Rightarrow> string \<Rightarrow> string \<Rightarrow> val \<Rightarrow> storeItem list" where
  "applicableRules E s op ns ty v =
     filter (\<lambda>x. Type (Spec (si_modRule x)) = ty \<and> ruleHolds E (si_modRule x) v \<and>
                 MinInt16 < tier x \<and> tier x < MaxInt16) (candidateRules s op ns)"

lemma MinInt16_less: "MinInt16 < t \<longleftrightarrow> t \<noteq> MinInt16"
  by (auto simp: order_less_le)

lemma executedRules_applicable:
  assumes "compiledStore E s"
    and "\<And>x. x \<in> set (candidateRules s op ns) \<Longrightarrow> selectsSafe E (si_modRule x) v"
  shows "executedRules s op ns ty v = sort_key tier (applicableRules E s op ns ty v)"
proof -
  have "ruleMatches ty v x \<longleftrightarrow> Type (Spec (si_modRule x)) = ty \<and> ruleHolds E (si_modRule x) v"
    if "x \<in> set (candidateRules s op ns)" for x
    using candidate_IsMatch [OF assms(1) that assms(2) [OF that]] by (simp add: ruleMatches_def)
  then show ?thesis
    unfolding executedRules_def applicableRules_def
    by (intro arg_cong [where f = "sort_key tier"] filter_cong)
      (auto simp: MinInt16_less less_MaxInt16)
qed

section \<open>Rejections\<close>

lemma DetermineRejections_executed_safe:
  assumes "compiledStore E s"
    and "\<forall>x \<in> set (candidateRules s op ns). selectsSafe E (si_modRule x) v \<and> messageSafe ns v x"
  shows "DetermineRejections s op ns v =
    Inr (map (rejectionText ns v) (sort_key tier (applicableRules E s op ns ModRuleTypeReject v)))"
proof -
  have "isOk (IsMatch x v) \<and> isOk (rejectionMessage ns v x)" if "x \<in> set (candidateRules s op ns)" for x
    using that assms candidate_IsMatch [OF assms(1) that] messageSafe_isOk by auto
  from DetermineRejections_executed [OF this] show ?thesis
    using executedRules_applicable [OF assms(1)] assms(2) by simp
qed

text \<open>
  C1: \<open>DetermineRejections\<close> reports exactly the Reject rules that apply to the document, in
  ascending order of their tiers and, within a tier, in the order of the store, with one
  message for each time that a rule is a candidate (a rule of the cluster-wide namespace may be one twice for a resource of
  that namespace). A rule of one of the two extreme tiers never applies. This is for a store of compiled rules, on a
  document on which no query and no message template of a candidate panics.
\<close>

theorem DetermineRejections_correct:
  assumes "compiledStore E s"
    and "\<forall>x \<in> set (candidateRules s op ns). selectsSafe E (si_modRule x) v \<and> messageSafe ns v x"
  shows "DetermineRejections s op ns v =
    Inr (map (rejectionText ns v) (sort_key tier (applicableRules E s op ns ModRuleTypeReject v)))"
  using assms by (rule DetermineRejections_executed_safe)

text \<open>A store with two Reject rules, put in against the order of their tiers.\<close>

definition twoRejects :: modRuleStore where
  "twoRejects = sampleStore [rejectItem ''a'' ''r1'' 2 [kindIsNot ''Job''], rejectItem ''a'' ''r2'' 5 [kindIs ''Pod'']]"

lemma rulesOf_sampleStore: "rulesOf (sampleStore xs) ns = (if ns = ''a'' then xs else [])"
  by (simp add: sampleStore_def rulesOf_def)

lemma sampleStore_cluster: "clusterModRulesNamespace (sampleStore xs) = ''km''"
  by (simp add: sampleStore_def)

lemma rejectItem_rule:
  "si_modRule (rejectItem ns n t ms) = rejectRule ns n t ms"
  "si_rejectMessageTemplate (rejectItem ns n t ms) = Some (\<lambda>_. Inr ''no'')"
  by (simp_all add: rejectItem_def)

lemma twoRejects_compiled: "compiledStore sampleEnv twoRejects"
  by (auto simp: compiledStore_def twoRejects_def rulesOf_sampleStore rejectItem_compiled rejectItem_rule)

definition aPod :: val where
  "aPod = VObj [(''kind'', VStr ''Pod'')]"

lemma kind_of_aPod:
  "evaluatePath background aPod aPod (keyPath ''kind'') = Inr (VStr ''Pod'')"
  by (simp add: aPod_def sample_eval directSelector_def Const_def)

lemma kindIs_aPod:
  "sampleNewEvaluable (Select (kindIs k)) = Inr (evaluate (Plain (keyPath ''kind'')))"
  "sampleNewEvaluable (Select (kindIsNot k)) = Inr (evaluate (Plain (keyPath ''kind'')))"
  by (simp_all add: kindIs_def kindIsNot_def sampleNewEvaluable_def hasPrefix_def)

lemma NewEvaluable_sample: "NewEvaluable sampleEnv = sampleNewEvaluable"
  by (simp add: sampleEnv_def)

lemma rejectRule_fields:
  "Match (Spec (rejectRule ns n t ms)) = ms" "Type (Spec (rejectRule ns n t ms)) = ''Reject''"
  "AdmissionOperations (Spec (rejectRule ns n t ms)) = [''CREATE'']"
  "ExecutionTier (Spec (rejectRule ns n t ms)) = toInt16 t"
  "Name (rejectRule ns n t ms) = n" "Namespace (rejectRule ns n t ms) = ns"
  by (simp_all add: rejectRule_def)

lemma kindIs_holds:
  "matchHolds sampleEnv (kindIs k) (Inr (VStr x)) \<longleftrightarrow> x = k"
  "matchHolds sampleEnv (kindIsNot k) (Inr (VStr x)) \<longleftrightarrow> x = k"
  "\<not> Negate (kindIs k)" "Negate (kindIsNot k)"
  by (simp_all add: matchHolds_def valueHolds_def matchString_def kindIs_def kindIsNot_def)

lemmas reject_eval = rejectItem_rule rejectRule_fields kindIs_holds NewEvaluable_sample kindIs_aPod
  kind_of_aPod rulesOf_sampleStore sampleStore_cluster

lemma twoRejects_candidates:
  "candidateRules twoRejects ''CREATE'' ''a'' = rulesOf twoRejects ''a''"
  by (simp add: candidateRules_def twoRejects_def reject_eval admits_def)

lemma twoRejects_safe:
  "x \<in> set (candidateRules twoRejects ''CREATE'' ''a'') \<Longrightarrow>
     selectsSafe sampleEnv (si_modRule x) aPod \<and> messageSafe ''a'' aPod x"
  unfolding twoRejects_candidates
  by (auto simp: twoRejects_def reject_eval selectsSafe_def messageSafe_def)

lemma rejectItem_text:
  "rejectionText ns v (rejectItem m n t ms) = m @ ''/'' @ n @ '': '' @ [CHR 0x22] @ ''no'' @ [CHR 0x22]"
  by (simp add: rejectionText_def rejectItem_def GetNamespacedName_def rejectRule_fields)

lemma DetermineRejections_correct_witness:
  "DetermineRejections twoRejects ''CREATE'' ''a'' aPod =
    Inr [''a/r1: '' @ [CHR 0x22] @ ''no'' @ [CHR 0x22], ''a/r2: '' @ [CHR 0x22] @ ''no'' @ [CHR 0x22]]"
proof -
  have "applicableRules sampleEnv twoRejects ''CREATE'' ''a'' ModRuleTypeReject aPod = rulesOf twoRejects ''a''"
    by (simp add: applicableRules_def twoRejects_candidates)
      (simp add: twoRejects_def reject_eval ruleHolds_def ModRuleTypeReject_def less_int16_def i16_toInt16)
  moreover have "sort_key tier (rulesOf twoRejects ''a'') = rulesOf twoRejects ''a''"
    by (simp add: twoRejects_def reject_eval less_eq_int16_def i16_toInt16)
  ultimately show ?thesis
    using DetermineRejections_correct [OF twoRejects_compiled, of "''CREATE''" "''a''" aPod] twoRejects_safe
    by (simp add: twoRejects_def reject_eval rejectItem_text)
qed

section \<open>The layout of the store does not matter\<close>

lemma same_rules:
  assumes "storeInv s" "storeInv s'" "lookupRule s = lookupRule s'"
  shows "mset (rulesOf s ns) = mset (rulesOf s' ns)"
proof -
  have "set (rulesOf s ns) = set (rulesOf s' ns)"
    using lookupRule_Some [OF assms(1), of ns] lookupRule_Some [OF assms(2), of ns] assms(3)
    by (metis (no_types, opaque_lifting) subsetI subset_antisym)
  moreover have "distinct (rulesOf s ns)" "distinct (rulesOf s' ns)"
    using assms(1,2) by (auto simp: storeInv_def distinct_map)
  ultimately show ?thesis by (simp add: set_eq_iff_mset_eq_distinct)
qed

lemma same_candidates:
  assumes "\<And>ns. mset (rulesOf s ns) = mset (rulesOf s' ns)"
    and "clusterModRulesNamespace s = clusterModRulesNamespace s'"
  shows "mset (candidateRules s op ns) = mset (candidateRules s' op ns)"
  using assms by (simp add: candidateRules_def mset_filter)

lemma same_compiled:
  assumes "\<And>ns. mset (rulesOf s ns) = mset (rulesOf s' ns)" and "compiledStore E s"
  shows "compiledStore E s'"
  using assms(2) mset_eq_setD [OF assms(1)] by (simp add: compiledStore_def)

text \<open>
  Two stores that stand for the same map of rules (one filled in another order, or one
  whose order a \<open>Delete\<close> broke) reject a document with the same messages, up to their order.
  In particular both reject or neither does.
\<close>

lemma DetermineRejections_layout:
  assumes inv: "storeInv s" "storeInv s'" and same: "lookupRule s = lookupRule s'"
      "clusterModRulesNamespace s = clusterModRulesNamespace s'"
    and comp: "compiledStore E s"
    and safe: "\<forall>x \<in> set (candidateRules s op ns). selectsSafe E (si_modRule x) v \<and> messageSafe ns v x"
  shows "\<exists>ms ms'. DetermineRejections s op ns v = Inr ms \<and> DetermineRejections s' op ns v = Inr ms' \<and>
    mset ms = mset ms'"
proof -
  note rules = same_rules [OF inv same(1)]
  note cand = same_candidates [OF rules same(2), of op ns]
  have d: "DetermineRejections s op ns v =
      Inr (map (rejectionText ns v) (sort_key tier (applicableRules E s op ns ModRuleTypeReject v)))"
    using comp safe by (rule DetermineRejections_executed_safe)
  have d': "DetermineRejections s' op ns v =
      Inr (map (rejectionText ns v) (sort_key tier (applicableRules E s' op ns ModRuleTypeReject v)))"
    using same_compiled [OF rules comp] safe mset_eq_setD [OF cand]
    by (intro DetermineRejections_executed_safe) auto
  show ?thesis
    unfolding d d' by (simp add: applicableRules_def mset_filter cand)
qed

lemma DetermineRejections_layout_witness:
  "mset (projr (DetermineRejections twoRejects ''CREATE'' ''a'' aPod)) =
   mset (projr (DetermineRejections (sampleStore (rev (rulesOf twoRejects ''a''))) ''CREATE'' ''a'' aPod))"
proof -
  have inv: "storeInv twoRejects" "storeInv (sampleStore (rev (rulesOf twoRejects ''a'')))"
    by (auto simp: storeInv_def twoRejects_def reject_eval)
  have look: "lookupRule twoRejects = lookupRule (sampleStore (rev (rulesOf twoRejects ''a'')))"
    by (auto simp: lookupRule_def twoRejects_def reject_eval fun_eq_iff)
  have cluster: "clusterModRulesNamespace twoRejects =
      clusterModRulesNamespace (sampleStore (rev (rulesOf twoRejects ''a'')))"
    by (simp add: twoRejects_def reject_eval)
  show ?thesis
    using DetermineRejections_layout [OF inv look cluster twoRejects_compiled, of "''CREATE''" "''a''" aPod]
      twoRejects_safe by auto
qed

section \<open>The store implements a map\<close>

text \<open>A history of the store: the calls the reconciler and the dry run make.\<close>

datatype storeOp = PutOp modRule | DeleteOp string string

fun runOps :: "('p, 'o) env \<Rightarrow> modRuleStore \<Rightarrow> storeOp list \<Rightarrow> modRuleStore res" where
  "runOps E s [] = Inr s"
| "runOps E s (PutOp r # ops) = bindr (Put E s r) (\<lambda>(s', err). runOps E s' ops)"
| "runOps E s (DeleteOp ns n # ops) = runOps E (Delete s ns n) ops"

text \<open>The specification: a map that forgets a rule which does not compile.\<close>

fun specOp :: "('p, 'o) env \<Rightarrow> storeOp \<Rightarrow> (string \<times> string \<rightharpoonup> storeItem) \<Rightarrow> (string \<times> string \<rightharpoonup> storeItem)" where
  "specOp E (PutOp r) m = (case NewModRuleStoreItem E r of
     Inr item \<Rightarrow> m((Namespace r, Name r) \<mapsto> item) | Inl _ \<Rightarrow> m)"
| "specOp E (DeleteOp ns n) m = m((ns, n) := None)"

lemma Put_compiled:
  assumes "sortsByTier E" "compiledStore E s" "storeInv s" "Put E s r = Inr (s', err)"
  shows "compiledStore E s'" "clusterModRulesNamespace s' = clusterModRulesNamespace s"
proof -
  have "compiledStore E s' \<and> clusterModRulesNamespace s' = clusterModRulesNamespace s"
  proof (cases "NewModRuleStoreItem E r")
    case (Inl f)
    then show ?thesis
      using Put_err [of E r _ s] Put_panic [of E r _ s] assms by (cases f) (auto simp: compiledStore_def)
  next
    case (Inr item)
    have sorts: "tier_sort tier (sortSort E)" using assms(1) by (simp add: sortsByTier_def)
    show ?thesis
      using Put_ok [OF Inr, of s] assms(2-4) Inr
      by (auto simp: compiledStore_def tier_sort.sort_set [OF sorts] set_placed storeInv_def
          NewModRuleStoreItem_rule [OF Inr])
  qed
  then show "compiledStore E s'" "clusterModRulesNamespace s' = clusterModRulesNamespace s" by simp_all
qed

lemma Delete_compiled: "storeInv s \<Longrightarrow> compiledStore E s \<Longrightarrow> compiledStore E (Delete s ns n)"
  by (auto simp: compiledStore_def set_Delete)

lemma Put_total:
  "noPanic (NewModRuleStoreItem E r) \<Longrightarrow> \<exists>s' err. Put E s r = Inr (s', err)"
  using Put_ok [of E r _ s] Put_err [of E r _ s] by (cases "NewModRuleStoreItem E r" rule: noPanic_cases) blast+

lemma specOp_Put:
  assumes "sortsByTier E" "storeInv s" "Put E s r = Inr (s', err)"
  shows "storeInv s'" "lookupRule s' = specOp E (PutOp r) (lookupRule s)"
  using rule_store.put_cases [OF rule_store_Put [OF assms(1)] assms(2,3)] by auto

lemma runOps_refines:
  assumes E: "sortsByTier E" and "storeInv s" "compiledStore E s"
    and "\<forall>r. PutOp r \<in> set ops \<longrightarrow> noPanic (NewModRuleStoreItem E r)"
  shows "\<exists>s'. runOps E s ops = Inr s' \<and> storeInv s' \<and> compiledStore E s' \<and>
    clusterModRulesNamespace s' = clusterModRulesNamespace s \<and>
    lookupRule s' = fold (specOp E) ops (lookupRule s)"
  using assms(2-)
proof (induction ops arbitrary: s)
  case Nil
  then show ?case by simp
next
  case (Cons op ops)
  show ?case
  proof (cases op)
    case (PutOp r)
    then obtain s1 err where put: "Put E s r = Inr (s1, err)"
      using Cons.prems Put_total [of E r s] by auto
    show ?thesis
      using Cons.IH [of s1] Cons.prems put PutOp Put_compiled [OF E _ _ put] specOp_Put [OF E _ put] by auto
  next
    case (DeleteOp ns n)
    show ?thesis
      using Cons.IH [OF Delete_storeInv [OF Cons.prems(1)] Delete_compiled [OF Cons.prems(1,2)], of ns n]
        Cons.prems DeleteOp Delete_lookup [OF Cons.prems(1), of ns n] by (simp add: fun_upd_def)
  qed
qed

text \<open>
  C3: every history of \<open>Put\<close> and \<open>Delete\<close> on a new store ends without a panic of the store,
  with one rule at most under each pair of namespace and name, every rule filed under its own
  namespace and compiled, and as the map that the history describes: the last \<open>Put\<close> of a key
  that compiles wins unless a \<open>Delete\<close> of the key follows.
\<close>

theorem store_refines_map:
  assumes "sortsByTier E" and "\<forall>r. PutOp r \<in> set ops \<longrightarrow> noPanic (NewModRuleStoreItem E r)"
  shows "\<exists>s. runOps E (NewModRuleStore cns) ops = Inr s \<and> storeInv s \<and> compiledStore E s \<and>
    clusterModRulesNamespace s = cns \<and> lookupRule s = fold (specOp E) ops Map.empty"
  using runOps_refines [OF assms(1) storeInv_New [of cns] _ assms(2)]
  by (auto simp: lookupRule_New) (simp_all add: compiledStore_def rulesOf_def NewModRuleStore_def)

lemma patchRule_key: "Namespace (patchRule ns n t v) = ns" "Name (patchRule ns n t v) = n"
  by (simp_all add: patchRule_def)

lemma store_refines_map_witness:
  "\<exists>s. runOps sampleEnv (NewModRuleStore ''km'') [PutOp (patchRule ''a'' ''p'' 1 ''1''),
      PutOp (rejectRule ''a'' ''r'' 2 [kindIs ''Pod'']), DeleteOp ''a'' ''p''] = Inr s \<and>
    lookupRule s = [(''a'', ''r'') \<mapsto> rejectItem ''a'' ''r'' 2 [kindIs ''Pod'']]"
proof -
  have "noPanic (NewModRuleStoreItem sampleEnv (patchRule ''a'' ''p'' 1 ''1''))"
    "noPanic (NewModRuleStoreItem sampleEnv (rejectRule ''a'' ''r'' 2 [kindIs ''Pod'']))"
    by (simp_all add: rejectItem_compiled patchItem_compiled)
  then show ?thesis
    using store_refines_map [OF sortsByTier_sample, of "[PutOp (patchRule ''a'' ''p'' 1 ''1''),
      PutOp (rejectRule ''a'' ''r'' 2 [kindIs ''Pod'']), DeleteOp ''a'' ''p'']" "''km''"]
    by (auto simp: rejectItem_compiled patchItem_compiled rejectRule_fields patchRule_key
        fun_upd_def fun_eq_iff simp del: runOps.simps)
qed

text \<open>
  C20: a successful \<open>Put\<close> leaves the namespace's slice sorted by execution tier, holding the
  new item in place of the rule of the same name, if any, and every other rule of the slice;
  all other namespaces keep their slices.
\<close>

theorem Put_slice:
  assumes "sortsByTier E" and "storeInv s" and "NewModRuleStoreItem E r = Inr item"
  shows "\<exists>s'. Put E s r = Inr (s', None) \<and>
    sorted (map tier (rulesOf s' (Namespace r))) \<and>
    mset (rulesOf s' (Namespace r)) =
      add_mset item (filter_mset (\<lambda>x. ruleName x \<noteq> Name r) (mset (rulesOf s (Namespace r)))) \<and>
    (\<forall>ns. ns \<noteq> Namespace r \<longrightarrow> rulesOf s' ns = rulesOf s ns)"
proof -
  have sorts: "tier_sort tier (sortSort E)" using assms(1) by (simp add: sortsByTier_def)
  let ?xs = "rulesOf s (Namespace r)"
  have d: "distinct (map ruleName ?xs)" using assms(2) by (simp add: storeInv_def)
  have rule: "si_modRule item = r" by (rule NewModRuleStoreItem_rule [OF assms(3)])
  have "set (placed ?xs item) = set (item # filter (\<lambda>x. ruleName x \<noteq> Name r) ?xs)"
    using set_placed [OF d] rule by auto
  moreover have "distinct (placed ?xs item)" "distinct (item # filter (\<lambda>x. ruleName x \<noteq> Name r) ?xs)"
    using distinct_placed [OF d, of item] d rule by (auto simp: distinct_map)
  ultimately have "mset (placed ?xs item) = mset (item # filter (\<lambda>x. ruleName x \<noteq> Name r) ?xs)"
    by (simp only: set_eq_iff_mset_eq_distinct)
  then show ?thesis
    using Put_ok [OF assms(3), of s] tier_sort.sort_ordered [OF sorts] tier_sort.sort_permutes [OF sorts]
    by (auto simp: mset_filter)
qed

lemma Put_slice_witness:
  "\<exists>s'. Put sampleEnv twoRejects (rejectRule ''a'' ''r2'' 1 [kindIs ''Pod'']) = Inr (s', None) \<and>
    mset (rulesOf s' ''a'') = {#rejectItem ''a'' ''r2'' 1 [kindIs ''Pod''], rejectItem ''a'' ''r1'' 2 [kindIsNot ''Job'']#}"
proof -
  have "storeInv twoRejects" by (auto simp: storeInv_def twoRejects_def reject_eval)
  from Put_slice [OF sortsByTier_sample this, OF rejectItem_compiled(1), of "''a''" "''r2''" 1 "''Pod''"]
  show ?thesis by (auto simp: rejectRule_fields) (simp add: twoRejects_def reject_eval)
qed

text \<open>
  C21: \<open>Delete\<close> removes the rule of the name from its namespace and nothing else, whatever the
  order of the slice; the namespace's entry goes with its last rule, so that \<open>GetStats\<close> reports a namespace without
  rules after a \<open>Delete\<close> only if it did before. A \<open>Delete\<close> of a rule that is not there leaves the store as it
  is, the empty entry of a failed \<open>Put\<close> included.
\<close>

theorem Delete_removes:
  assumes "storeInv s"
  shows "mset (rulesOf (Delete s ns n) ns) = filter_mset (\<lambda>x. ruleName x \<noteq> n) (mset (rulesOf s ns)) \<and>
    (\<forall>ns'. ns' \<noteq> ns \<longrightarrow> modRuleListMap (Delete s ns n) ns' = modRuleListMap s ns') \<and>
    (n \<in> set (map ruleName (rulesOf s ns)) \<longrightarrow>
       GetStats (Delete s ns n) ns =
         (if length (rulesOf s ns) = 1 then None else Some (length (rulesOf s ns) - 1))) \<and>
    (n \<notin> set (map ruleName (rulesOf s ns)) \<longrightarrow> Delete s ns n = s) \<and>
    (\<forall>ns'. GetStats (Delete s ns n) ns' = Some 0 \<longrightarrow> GetStats s ns' = Some 0)"
proof -
  have other: "modRuleListMap (Delete s ns n) ns' = modRuleListMap s ns'" if "ns' \<noteq> ns" for ns'
    using that by (auto simp: Delete_def Let_def split: option.splits)
  have present: "GetStats (Delete s ns n) ns = (if length (rulesOf s ns) = 1 then None else Some (length (rulesOf s ns) - 1))"
    if n: "n \<in> set (map ruleName (rulesOf s ns))"
  proof -
    obtain i xs where xs: "modRuleListMap s ns = Some xs" "findItemIndexByName xs n = Some i"
      using n by (cases "findItemIndexByName (rulesOf s ns) n"; cases "modRuleListMap s ns")
        (auto simp: findItemIndexByName_None rulesOf_def)
    have "take (length xs - 1) (xs[i := xs ! (length xs - 1)]) = [] \<longleftrightarrow> length xs = 1"
      using findItemIndexByName_Some [OF xs(2)] by (auto simp flip: length_0_conv)
    then show ?thesis
      using xs by (simp add: Delete_def GetStats_def rulesOf_def Let_def del: take_eq_Nil)
  qed
  have absent: "Delete s ns n = s" if "n \<notin> set (map ruleName (rulesOf s ns))"
    using that findItemIndexByName_None [of "rulesOf s ns" n]
    by (cases "modRuleListMap s ns") (simp_all add: Delete_def rulesOf_def)
  have "GetStats s ns' = Some 0" if "GetStats (Delete s ns n) ns' = Some 0" for ns'
  proof (cases "ns' = ns \<and> n \<in> set (map ruleName (rulesOf s ns))")
    case True
    then have "length (rulesOf s ns) \<noteq> 1" "length (rulesOf s ns) - 1 = 0" "rulesOf s ns \<noteq> []"
      using that present by (auto split: if_splits)
    then show ?thesis by (cases "rulesOf s ns") auto
  next
    case False
    then show ?thesis using that absent other [of ns'] by (cases "ns' = ns") (auto simp: GetStats_def)
  qed
  then show ?thesis using present absent other by (simp add: Delete_rules [OF assms])
qed

lemma Delete_removes_witness:
  "mset (rulesOf (Delete twoRejects ''a'' ''r1'') ''a'') = {#rejectItem ''a'' ''r2'' 5 [kindIs ''Pod'']#} \<and>
   GetStats (Delete twoRejects ''a'' ''r1'') ''a'' = Some 1"
proof -
  have "storeInv twoRejects" by (auto simp: storeInv_def twoRejects_def reject_eval)
  from Delete_removes [OF this, of "''a''" "''r1''"] show ?thesis
    by (simp add: twoRejects_def reject_eval)
qed

text \<open>
  A \<open>Put\<close> whose rule does not compile reports the error and changes no rule, but the first
  one for a namespace leaves an empty entry for it, which \<open>GetStats\<close> shows and no \<open>Delete\<close>
  clears.
\<close>

lemma Put_failed_leaves_entry:
  assumes "NewModRuleStoreItem E r = Inl (GoErr e)"
  shows "\<exists>s'. Put E s r = Inr (s', Some (''failed to add ModRule to ModRuleStore: '' @ e)) \<and>
    rulesOf s' = rulesOf s \<and>
    (modRuleListMap s (Namespace r) = None \<longrightarrow>
       GetStats s' (Namespace r) = Some 0 \<and> (\<forall>n. Delete s' (Namespace r) n = s'))"
  using assms by (auto simp: Put_def Let_def fun_eq_iff rulesOf_def GetStats_def Delete_def split: option.splits)

end
