(* ===== verification/PatchProps.thy ===== *)
theory PatchProps imports StoreProps begin

text \<open>
  The properties of \<open>CalculatePatch\<close>: the order in which rules are applied, the document no
  rule applies to, and three corner cases of the loop and its epilogue.
\<close>

section \<open>Order\<close>

text \<open>
  C8: the patch loop applies the rules tier by tier, in strictly ascending order of the tiers
  that have a candidate and lie strictly between the two extreme tiers. Each tier's rules are
  selected on the document that the tiers below it produced. When the tiers are done, the
  match items of the rules of the top tier are still evaluated, but no rule of it is applied.
\<close>

theorem patchTiers_ascending:
  "patchTiers E s op ns MinInt16 st =
     bindr (foldM (patchTier E s op ns) st (candidateTiers s op ns)) (\<lambda>st.
     bindr (selectRules ModRuleTypePatch (jsonDoc st) (rulesOfTier s op ns MaxInt16)) (\<lambda>_. Inr st)) \<and>
   sorted (candidateTiers s op ns) \<and> distinct (candidateTiers s op ns) \<and>
   set (candidateTiers s op ns) = tier ` set (candidateRules s op ns) - {MinInt16, MaxInt16}"
proof (intro conjI)
  show "sorted (candidateTiers s op ns)" "distinct (candidateTiers s op ns)"
    by (simp_all add: candidateTiers_def tiersAbove_sorted)
  show "set (candidateTiers s op ns) = tier ` set (candidateRules s op ns) - {MinInt16, MaxInt16}"
    using set_candidateTiers by auto
qed (rule patchTiers_fold)

section \<open>Documents that no rule applies to\<close>

lemma CalculatePatch_start:
  assumes "jsonUnmarshal E (Some orig) = Inr v" and "patchTiers E s op ns MinInt16 (startState orig v) = Inr st"
  shows "CalculatePatch E s op ns orig =
     bindr (case lastAppliedConfigurationJSON st of
              None \<Rightarrow> Inr (jsonDoc st, modifiedJSON st)
            | Some la \<Rightarrow>
                bindr (stickLastApplied (jsonDoc st) la) (\<lambda>v.
                bindr (jsonMarshal E v) (\<lambda>js. Inr (v, Some js)))) (\<lambda>(jsonv, modified).
     bindr (CreatePatch E (Some orig) modified) (\<lambda>ops. Inr (jsonv, ops)))"
  using assms by (simp add: CalculatePatch_def patchEpilogue_def)

text \<open>
  When no Patch rule applies to the document, \<open>CalculatePatch\<close> returns the document as it
  was decoded. The operations are those between the original text and itself or, when the
  document carries the last-applied annotation, the document encoded again.
\<close>

lemma CalculatePatch_idle:
  assumes "compiledStore E s"
    and "jsonUnmarshal E (Some orig) = Inr v"
    and "\<forall>x \<in> set (candidateRules s op ns). selectsSafe E (si_modRule x) v"
    and "applicableRules E s op ns ModRuleTypePatch v = []"
  shows "CalculatePatch E s op ns orig =
    bindr (case extractLastAppliedConfiguration v of
             None \<Rightarrow> Inr (Some orig) | Some _ \<Rightarrow> bindr (jsonMarshal E v) (\<lambda>js. Inr (Some js))) (\<lambda>modified.
    bindr (CreatePatch E (Some orig) modified) (\<lambda>ops. Inr (v, ops)))"
proof -
  have "executedRules s op ns ModRuleTypePatch v = []"
    using executedRules_applicable [OF assms(1)] assms(3,4) by simp
  moreover have "isOk (IsMatch x v)" if "x \<in> set (candidateRules s op ns)" for x
    using candidate_IsMatch [OF assms(1) that] assms(3) that by simp
  ultimately have "patchTiers E s op ns MinInt16 (startState orig v) = Inr (startState orig v)"
    by (intro patchTiers_idle) (simp_all add: startState_def)
  from CalculatePatch_start [OF assms(2) this] show ?thesis
    by (auto simp: startState_def stickLastApplied_same bindr_assoc split: option.split)
qed

lemma twoRejects_no_patch: "applicableRules E twoRejects ''CREATE'' ''a'' ModRuleTypePatch v = []"
  by (simp add: applicableRules_def twoRejects_candidates)
    (simp add: twoRejects_def reject_eval ModRuleTypePatch_def)

lemma aPod_not_applied: "extractLastAppliedConfiguration aPod = None"
  by (simp add: extractLastAppliedConfiguration_def getValueFromJSONObject_def aPod_def lastAppliedKey_def)

lemma sample_decodes_pod: "jsonUnmarshal sampleEnv (Some ''Pod'') = Inr aPod"
  by (simp add: sampleEnv_def sampleUnmarshal_def aPod_def)

lemma CalculatePatch_idle_witness:
  "CalculatePatch sampleEnv twoRejects ''CREATE'' ''a'' ''Pod'' = Inr (aPod, [])"
  using CalculatePatch_idle [OF twoRejects_compiled sample_decodes_pod _ twoRejects_no_patch] twoRejects_safe
  by (simp add: aPod_not_applied) (simp add: sampleEnv_def sampleCreatePatch_def)

lemma pod_idle:
  assumes comp: "compiledStore sampleEnv s"
    and safe: "\<And>x. x \<in> set (candidateRules s ''CREATE'' ''a'') \<Longrightarrow> selectsSafe sampleEnv (si_modRule x) aPod"
    and none: "applicableRules sampleEnv s ''CREATE'' ''a'' ModRuleTypePatch aPod = []"
  shows "CalculatePatch sampleEnv s ''CREATE'' ''a'' ''Pod'' = Inr (aPod, [])"
proof -
  have "\<And>r. r \<in> set (candidateRules s ''CREATE'' ''a'') \<Longrightarrow> isOk (IsMatch r aPod)"
    using candidate_IsMatch [OF comp] safe by simp
  moreover have "executedRules s ''CREATE'' ''a'' ModRuleTypePatch aPod = []"
    using executedRules_applicable [OF comp safe] none by simp
  ultimately have "patchTiers sampleEnv s ''CREATE'' ''a'' MinInt16 (startState ''Pod'' aPod) =
      Inr (startState ''Pod'' aPod)"
    by (intro patchTiers_idle) (simp_all add: startState_def)
  from CalculatePatch_start [OF sample_decodes_pod this] show ?thesis
    by (simp add: startState_def aPod_not_applied) (simp add: sampleEnv_def sampleCreatePatch_def)
qed

lemma twoRejects_idle: "CalculatePatch sampleEnv twoRejects ''CREATE'' ''a'' ''Pod'' = Inr (aPod, [])"
  using twoRejects_safe by (intro pod_idle twoRejects_compiled twoRejects_no_patch) blast

section \<open>A patch that does not apply\<close>

text \<open>A loop in which a single rule runs, which leaves the decoded document as it was.\<close>

lemma patchTier_ok:
  assumes "\<And>x. x \<in> set (candidateRules s op ns) \<Longrightarrow> isOk (IsMatch x (jsonDoc st))"
  shows "patchTier E s op ns st t =
    foldM (applyRule E ns) st (filter (ruleMatches ModRuleTypePatch (jsonDoc st)) (rulesOfTier s op ns t))"
  using assms selectRules_ok [of "rulesOfTier s op ns t" "jsonDoc st"] by (simp add: patchTier_def rulesOfTier_def)

lemma patchTier_fold_single:
  assumes ok: "\<And>x. x \<in> set (candidateRules s op ns) \<Longrightarrow> isOk (IsMatch x v)"
    and f: "f = (\<lambda>t. filter (ruleMatches ModRuleTypePatch v) (rulesOfTier s op ns t))"
  shows "jsonDoc st = v \<Longrightarrow> concat (map f ts) = [] \<Longrightarrow> foldM (patchTier E s op ns) st ts = Inr st"
    and "jsonDoc st = v \<Longrightarrow> concat (map f ts) = [x] \<Longrightarrow> applyRule E ns st x = Inr st' \<Longrightarrow> jsonDoc st' = v \<Longrightarrow>
      foldM (patchTier E s op ns) st ts = Inr st'"
proof -
  have one: "patchTier E s op ns st t = foldM (applyRule E ns) st (f t)" if "jsonDoc st = v" for st t
    using ok that by (simp add: patchTier_ok f)
  have none: "foldM (patchTier E s op ns) st ts = Inr st" if "jsonDoc st = v" "concat (map f ts) = []" for st ts
    using that by (intro foldM_const) (simp add: one)
  then show "jsonDoc st = v \<Longrightarrow> concat (map f ts) = [] \<Longrightarrow> foldM (patchTier E s op ns) st ts = Inr st" .
  show "foldM (patchTier E s op ns) st ts = Inr st'"
    if "jsonDoc st = v" "concat (map f ts) = [x]" "applyRule E ns st x = Inr st'" "jsonDoc st' = v"
    using that(2)
  proof (induction ts)
    case (Cons t ts)
    then show ?case using that none [of st' ts] by (cases "f t") (auto simp: one)
  qed simp
qed

lemma patchTiers_single:
  assumes comp: "compiledStore E s"
    and safe: "\<forall>x \<in> set (candidateRules s op ns). selectsSafe E (si_modRule x) (jsonDoc st)"
    and one: "applicableRules E s op ns ModRuleTypePatch (jsonDoc st) = [x]"
    and app: "applyRule E ns st x = Inr st'" and keep: "jsonDoc st' = jsonDoc st"
  shows "patchTiers E s op ns MinInt16 st = Inr st'"
proof -
  have ok: "isOk (IsMatch x (jsonDoc st))" if "x \<in> set (candidateRules s op ns)" for x
    using candidate_IsMatch [OF comp that] safe that by simp
  have "executedRules s op ns ModRuleTypePatch (jsonDoc st) = [x]"
    using executedRules_applicable [OF comp, of op ns "jsonDoc st"] safe one by simp
  then have "foldM (patchTier E s op ns) st (candidateTiers s op ns) = Inr st'"
    using patchTier_fold_single(2) [OF ok refl refl _ app keep] by (simp add: executedRules_tiers)
  moreover have "selectRules ModRuleTypePatch (jsonDoc st') (rulesOfTier s op ns MaxInt16) =
      Inr (filter (ruleMatches ModRuleTypePatch (jsonDoc st')) (rulesOfTier s op ns MaxInt16))"
    using ok keep by (intro selectRules_ok) (simp add: rulesOfTier_def)
  ultimately show ?thesis by (simp add: patchTiers_fold)
qed

lemma CalculatePatch_nil_document:
  assumes comp: "compiledStore E s" and dec: "jsonUnmarshal E (Some orig) = Inr v"
    and safe: "\<forall>x \<in> set (candidateRules s op ns). selectsSafe E (si_modRule x) v"
    and one: "applicableRules E s op ns ModRuleTypePatch v = [x]"
    and la: "extractLastAppliedConfiguration v = None"
    and p: "calculatePatch E ns x v = Inr p"
    and app: "ApplyWithOptions E p (Some orig) jsonPatchApplyOptions = Inr (None, Some err)"
  shows "CalculatePatch E s op ns orig = bindr (CreatePatch E (Some orig) None) (\<lambda>ops. Inr (v, ops))"
proof -
  have "applyRule E ns (startState orig v) x = Inr ((startState orig v)\<lparr>modifiedJSON := None\<rparr>)"
    using p app by (simp add: applyRule_def startState_def)
  then have "patchTiers E s op ns MinInt16 (startState orig v) = Inr ((startState orig v)\<lparr>modifiedJSON := None\<rparr>)"
    using comp safe one by (intro patchTiers_single) (simp_all add: startState_def)
  from CalculatePatch_start [OF dec this] la show ?thesis by (simp add: startState_def)
qed

text \<open>
  C23: when the patch of the only applicable rule is computed but \<open>ApplyWithOptions\<close> fails and
  returns the nil document beside its error, the loop goes on with the nil document: the final
  diff is taken against nil, whose failure becomes the failure of the whole call. The comment
  in the loop says the rule would only be logged and skipped.
\<close>

theorem CalculatePatch_failed_apply:
  assumes "compiledStore E s" and "jsonUnmarshal E (Some orig) = Inr v"
    and "\<forall>x \<in> set (candidateRules s op ns). selectsSafe E (si_modRule x) v"
    and "applicableRules E s op ns ModRuleTypePatch v = [x]"
    and "extractLastAppliedConfiguration v = None"
    and "calculatePatch E ns x v = Inr p"
    and "ApplyWithOptions E p (Some orig) jsonPatchApplyOptions = Inr (None, Some err)"
    and "CreatePatch E (Some orig) None = Inl (GoErr e)"
  shows "CalculatePatch E s op ns orig = Inl (GoErr e)"
  using CalculatePatch_nil_document [OF assms(1-7)] assms(8) by simp

definition failingPatch :: modRuleStore where
  "failingPatch = sampleStore [patchItem ''a'' ''p'' 1 ''fail'', rejectItem ''a'' ''r'' 5 [kindIs ''Pod'']]"

lemma patchItem_fields:
  "si_modRule (patchItem ns n t v) = patchRule ns n t v"
  "ExecutionTier (Spec (patchRule ns n t v)) = toInt16 t"
  "Match (Spec (patchRule ns n t v)) = []" "Type (Spec (patchRule ns n t v)) = ''Patch''"
  "AdmissionOperations (Spec (patchRule ns n t v)) = [''CREATE'']"
  "si_rejectMessageTemplate (patchItem ns n t v) = None"
  by (simp_all add: patchItem_def patchRule_def)

lemma patchItem_candidates:
  "candidateRules (sampleStore [patchItem ''a'' n t v]) ''CREATE'' ''a'' = [patchItem ''a'' n t v]"
  by (simp add: candidateRules_def reject_eval admits_def patchItem_fields)

lemma patchItem_text:
  "patchText sampleEnv ns (patchItem ns n t x) v = Inr (''['' @ operationText ''add'' ''/a'' x @ '']'')"
  by (simp add: patchText_def patchItem_def operationsOf_def pathItemsOf_def operationOf_def sampleEnv_def)

lemma patchItem_patch:
  "calculatePatch sampleEnv ns (patchItem ns n t x) v = Inr (''['' @ operationText ''add'' ''/a'' x @ '']'')"
  unfolding calculatePatch_def patchItem_text by (simp add: sampleEnv_def)

text \<open>The store of the failing rule, alone or beside a Reject rule for pods.\<close>

lemma failingPatch_compiled: "compiledStore sampleEnv failingPatch"
  by (auto simp: compiledStore_def failingPatch_def reject_eval rejectItem_compiled patchItem_compiled patchItem_fields)

lemma failingPatch_candidates:
  "candidateRules failingPatch ''CREATE'' ''a'' = [patchItem ''a'' ''p'' 1 ''fail'', rejectItem ''a'' ''r'' 5 [kindIs ''Pod'']]"
  by (simp add: candidateRules_def failingPatch_def reject_eval admits_def patchItem_fields)

lemma failingPatch_safe:
  "\<forall>x \<in> set (candidateRules failingPatch ''CREATE'' ''a''). selectsSafe sampleEnv (si_modRule x) aPod \<and> messageSafe ''a'' aPod x"
  by (simp add: failingPatch_candidates selectsSafe_def messageSafe_def reject_eval patchItem_fields)

lemma failingPatch_applicable:
  "applicableRules sampleEnv failingPatch ''CREATE'' ''a'' ModRuleTypePatch aPod = [patchItem ''a'' ''p'' 1 ''fail'']"
  "applicableRules sampleEnv failingPatch ''CREATE'' ''a'' ModRuleTypeReject aPod = [rejectItem ''a'' ''r'' 5 [kindIs ''Pod'']]"
  by (simp_all add: applicableRules_def failingPatch_candidates ruleHolds_def reject_eval patchItem_fields
      ModRuleTypePatch_def ModRuleTypeReject_def less_int16_def i16_toInt16)

lemma failingPatch_apply:
  "ApplyWithOptions sampleEnv (''['' @ operationText ''add'' ''/a'' ''fail'' @ '']'') (Some ''Pod'')
     jsonPatchApplyOptions = Inr (None, Some ''testing value failed'')"
  by (simp add: sampleEnv_def sampleApply_def operationText_def strContains_def hasPrefix_def Let_def)

lemma sample_nil_patch: "CreatePatch sampleEnv (Some t) None = Inl (GoErr ''invalid JSON Document'')"
  by (simp add: sampleEnv_def sampleCreatePatch_def)

lemma CalculatePatch_failed_apply_witness:
  "CalculatePatch sampleEnv failingPatch ''CREATE'' ''a'' ''Pod'' = Inl (GoErr ''invalid JSON Document'')"
proof -
  have "\<forall>x \<in> set (candidateRules failingPatch ''CREATE'' ''a''). selectsSafe sampleEnv (si_modRule x) aPod"
    using failingPatch_safe by blast
  from CalculatePatch_failed_apply [OF failingPatch_compiled sample_decodes_pod this failingPatch_applicable(1)
      aPod_not_applied patchItem_patch failingPatch_apply sample_nil_patch]
  show ?thesis .
qed

section \<open>A patch that removes the annotations\<close>

lemma stickLastApplied_panics:
  assumes "\<not> (\<exists>node. getValueFromJSONObject v ''metadata:annotations'' = VObj node)"
  shows "\<exists>msg. stickLastApplied v la = Inl (GoPanic msg)"
proof -
  have "splitOn CHR '':'' ''metadata:annotations'' = [''metadata'', ''annotations'']" by simp
  then show ?thesis using assms
    by (auto simp: stickLastApplied_def assertObject_def indexObject_def getValueFromJSONObject_def
        split: val.splits option.splits)
qed

text \<open>
  C24: a document with the last-applied annotation whose patches leave it without a
  \<open>metadata.annotations\<close> object makes \<open>CalculatePatch\<close> panic in a type assertion, after all
  the rules ran.
\<close>

theorem CalculatePatch_panics_without_annotations:
  assumes "jsonUnmarshal E (Some orig) = Inr v"
    and "patchTiers E s op ns MinInt16 (startState orig v) = Inr st"
    and "lastAppliedConfigurationJSON st = Some la"
    and "\<not> (\<exists>node. getValueFromJSONObject (jsonDoc st) ''metadata:annotations'' = VObj node)"
  shows "\<exists>msg. CalculatePatch E s op ns orig = Inl (GoPanic msg)"
  using CalculatePatch_start [OF assms(1,2)] stickLastApplied_panics [OF assms(4), of la] assms(3) by auto

text \<open>An environment in which the text \<open>A\<close> decodes to a document with the annotation.\<close>

definition annotated :: val where
  "annotated = VObj [(''metadata'', VObj [(''annotations'', VObj [(lastAppliedKey, VStr ''x'')])])]"

definition annotatedEnv :: "(string, string) env" where
  "annotatedEnv = sampleEnv\<lparr>jsonUnmarshal := (\<lambda>b. if b = Some ''A'' then Inr annotated else sampleUnmarshal b)\<rparr>"

lemma CalculatePatch_panics_without_annotations_witness:
  "\<exists>msg. CalculatePatch annotatedEnv (sampleStore [patchItem ''a'' ''p'' 1 ''1'']) ''CREATE'' ''a'' ''A'' = Inl (GoPanic msg)"
proof -
  let ?x = "patchItem ''a'' ''p'' 1 ''1''"
  let ?p = "''['' @ operationText ''add'' ''/a'' ''1'' @ '']''"
  let ?st = "\<lparr>modifiedJSON = Some ?p, jsonDoc = VObj [(''kind'', VStr ?p)], lastAppliedConfigurationJSON = Some ?p\<rparr>"
  have split: "splitOn CHR '':'' (''metadata:annotations:'' @ lastAppliedKey) =
      [''metadata'', ''annotations'', lastAppliedKey]" "splitOn CHR '':'' ''metadata:annotations'' = [''metadata'', ''annotations'']"
    by (simp_all add: lastAppliedKey_def)
  have patch: "calculatePatch annotatedEnv ''a'' ?x v = Inr ?p" for v
    by (simp add: calculatePatch_def patchText_def patchItem_def operationsOf_def pathItemsOf_def
        operationOf_def annotatedEnv_def sampleEnv_def)
  have applied: "ApplyWithOptions annotatedEnv ?p d jsonPatchApplyOptions = Inr (Some ?p, None)" for d
    by (simp add: annotatedEnv_def sampleEnv_def sampleApply_def operationText_def strContains_def hasPrefix_def Let_def)
  have decode: "jsonUnmarshal annotatedEnv (Some ?p) = Inr (VObj [(''kind'', VStr ?p)])"
    by (simp add: annotatedEnv_def sampleUnmarshal_def)
  have "extractLastAppliedConfiguration annotated = Some ''x''"
    unfolding extractLastAppliedConfiguration_def getValueFromJSONObject_def annotated_def split
    by (simp add: split)
  then have "applyRule annotatedEnv ''a'' (startState ''A'' annotated) ?x = Inr ?st"
    using patch applied decode by (simp add: applyRule_def startState_def)
  then have run: "patchTiers annotatedEnv (sampleStore [?x]) ''CREATE'' ''a'' MinInt16 (startState ''A'' annotated) = Inr ?st"
    by (simp add: patchTiers_fold candidateTiers_def tiersAbove_def patchItem_candidates patchTier_def
        rulesOfTier_def selectRules_def patchItem_fields ModRuleTypePatch_def IsMatch_def
        less_int16_def i16_toInt16 MinInt16_less flip: i16_inject)
  have start: "jsonUnmarshal annotatedEnv (Some ''A'') = Inr annotated" by (simp add: annotatedEnv_def)
  show ?thesis
    by (rule CalculatePatch_panics_without_annotations [OF start run])
      (simp_all add: getValueFromJSONObject_def split)
qed

section \<open>The cluster-wide namespace\<close>

lemma candidateRules_doubled:
  assumes "ns = clusterModRulesNamespace s" and "ns \<noteq> []" and "x \<in> set (rulesOf s ns)"
    and "clusterRuleApplies ns x" and "admits op x"
  shows "2 \<le> count (mset (candidateRules s op ns)) x"
proof -
  let ?cluster = "filter (admits op) (filter (clusterRuleApplies ns) (rulesOf s ns))"
  let ?own = "filter (admits op) (rulesOf s ns)"
  have "x \<in> set ?cluster" "x \<in> set ?own" using assms by simp_all
  then have "0 < count (mset ?cluster) x" "0 < count (mset ?own) x"
    by (simp_all only: count_greater_zero_iff set_mset_mset)
  moreover have "candidateRules s op ns = ?cluster @ ?own"
    using assms(1,2) by (simp add: candidateRules_def)
  ultimately show ?thesis by (simp only: mset_append count_union)
qed

lemma potentialRules_own_tier:
  "x \<in> set (candidateRules s op ns) \<Longrightarrow>
   fst (potentialRules s op ns (tier x)) = filter (\<lambda>r. tier r = tier x) (candidateRules s op ns)"
  using tq.query_rules [of s op ns "tier x"] tq.query_least [of x s op ns "tier x"]
    potentialRules_bound [of "tier x" s op ns] by (simp add: tierBound_def) (metis MaxInt16_top antisym)

lemma count_filter_mset: "P x \<Longrightarrow> count (mset (filter P xs)) x = count (mset xs) x"
  by (simp add: mset_filter)

lemma count_map: "count (mset xs) x \<le> count (mset (map f xs)) (f x)"
  by (induction xs) auto

text \<open>
  A rule of the cluster-wide namespace whose \<open>targetNamespaceRegex\<close> matches that same
  namespace is found twice for a resource of the namespace: the query of its tier holds it
  twice, and a Reject rule that matches reports its message twice.
\<close>

lemma candidateRules_twice:
  assumes ns: "ns = clusterModRulesNamespace s" "ns \<noteq> []" and x: "x \<in> set (rulesOf s ns)" "admits op x"
    and re: "si_compiledTargetNamespaceRegex x = Some re" "re ns"
    and ok: "\<forall>y \<in> set (candidateRules s op ns). isOk (IsMatch y v) \<and> isOk (rejectionMessage ns v y)"
    and match: "ruleMatches ModRuleTypeReject v x" "tier x \<noteq> MinInt16" "tier x \<noteq> MaxInt16"
  shows "2 \<le> count (mset (fst (potentialRules s op ns (tier x)))) x \<and>
    (\<exists>ms. DetermineRejections s op ns v = Inr ms \<and> 2 \<le> count (mset ms) (rejectionText ns v x))"
proof -
  have two: "2 \<le> count (mset (candidateRules s op ns)) x"
    by (rule candidateRules_doubled [OF ns x(1) _ x(2)]) (simp add: clusterRuleApplies_def re)
  then have "x \<in> set (candidateRules s op ns)" by (metis count_greater_zero_iff set_mset_mset less_le_trans zero_less_numeral)
  then have "2 \<le> count (mset (fst (potentialRules s op ns (tier x)))) x"
    using two by (simp add: potentialRules_own_tier count_filter_mset del: mset_filter)
  moreover have "2 \<le> count (mset (executedRules s op ns ModRuleTypeReject v)) x"
    using two match by (simp add: executedRules_def count_filter_mset del: mset_filter)
  then have "2 \<le> count (mset (map (rejectionText ns v) (executedRules s op ns ModRuleTypeReject v))) (rejectionText ns v x)"
    by (rule order_trans [OF _ count_map])
  moreover have "DetermineRejections s op ns v = Inr (map (rejectionText ns v) (executedRules s op ns ModRuleTypeReject v))"
    using ok by (intro DetermineRejections_executed) blast
  ultimately show ?thesis by blast
qed

text \<open>A cluster-wide Reject rule without match items, for every namespace.\<close>

definition rejectEverywhere :: storeItem where
  "rejectEverywhere = (rejectItem ''km'' ''r'' 1 [])\<lparr>si_compiledTargetNamespaceRegex := Some (\<lambda>_. True)\<rparr>"

lemma candidateRules_twice_witness:
  "\<exists>ms. DetermineRejections \<lparr>modRuleListMap = [''km'' \<mapsto> [rejectEverywhere]], clusterModRulesNamespace = ''km''\<rparr>
      ''CREATE'' ''km'' VNil = Inr ms \<and> 2 \<le> count (mset ms) (rejectionText ''km'' VNil rejectEverywhere)"
proof -
  let ?s = "\<lparr>modRuleListMap = [''km'' \<mapsto> [rejectEverywhere]], clusterModRulesNamespace = ''km''\<rparr>"
  have one: "rulesOf ?s ns = (if ns = ''km'' then [rejectEverywhere] else [])" for ns
    by (simp add: rulesOf_def)
  have rule: "si_modRule rejectEverywhere = rejectRule ''km'' ''r'' 1 []" "IsMatch rejectEverywhere VNil = Inr True"
    "si_compiledTargetNamespaceRegex rejectEverywhere = Some (\<lambda>_. True)"
    "isOk (rejectionMessage ns v rejectEverywhere)" for ns v
    by (simp_all add: rejectEverywhere_def rejectItem_rule IsMatch_def reject_eval rejectionMessage_def rejectItem_def)
  have "toInt16 1 \<noteq> MinInt16" "toInt16 1 \<noteq> MaxInt16"
    by (simp_all add: MinInt16_def MaxInt16_def i16_toInt16 flip: i16_inject)
  then show ?thesis
    using candidateRules_twice [of "''km''" ?s rejectEverywhere "''CREATE''" "\<lambda>_. True" VNil]
    by (simp add: one rule admits_def reject_eval ruleMatches_def candidateRules_def clusterRuleApplies_def
        ModRuleTypeReject_def)
qed

end
