(* ===== verification/ItemProps.thy ===== *)
theory ItemProps imports PatchProps begin

text \<open>
  The properties of a single rule: what matching means, what the validating webhook accepts,
  and how far an accepted rule compiles.
\<close>

section \<open>Matching\<close>

text \<open>
  C11: a compiled rule matches a document exactly when each of its match items holds, flipped
  where the item is negated. An item holds when its query neither fails nor yields nil or
  Undefined and, for a boolean result, the result is true; for other results, when the value,
  or some element (matchFor Any) or every element (All, then with no Undefined among them) of
  an array, passes the test of matchValue, else of matchValues, else of matchRegex. The test
  never panics: the caches of a compiled rule are complete.
\<close>

theorem IsMatch_meaning:
  assumes "NewModRuleStoreItem E r = Inr si" and "selectsSafe E r v"
  shows "IsMatch si v = Inr (ruleHolds E r v)"
  using assms by (rule IsMatch_holds)

lemma IsMatch_meaning_witness:
  "IsMatch (rejectItem ''a'' ''r'' 2 [kindIs ''Pod'']) aPod = Inr True \<and>
   IsMatch (rejectItem ''a'' ''r'' 2 [kindIsNot ''Pod'']) aPod = Inr False"
  using IsMatch_meaning [OF rejectItem_compiled(1), of "''a''" "''r''" 2 "''Pod''" aPod]
    IsMatch_meaning [OF rejectItem_compiled(2), of "''a''" "''r''" 2 "''Pod''" aPod]
  by (simp add: selectsSafe_def ruleHolds_def reject_eval)

section \<open>Defaulting\<close>

text \<open>
  Defaulting is idempotent, leaves no match item without matchFor and no rule without
  admission operations, and changes nothing that the author set.
\<close>

lemma Default_fills:
  "Default (Default r) = Default r \<and>
   list_all (\<lambda>mi. MatchFor mi \<noteq> []) (Match (Spec (Default r))) \<and>
   AdmissionOperations (Spec (Default r)) \<noteq> [] \<and>
   (list_all (\<lambda>mi. MatchFor mi \<noteq> []) (Match (Spec r)) \<and> AdmissionOperations (Spec r) \<noteq> [] \<longrightarrow> Default r = r)"
proof -
  have idem: "defaultMatchItem (defaultMatchItem mi) = defaultMatchItem mi" for mi
    by (simp add: defaultMatchItem_def MatchForTypeAny_def)
  have some: "MatchFor (defaultMatchItem mi) \<noteq> []" for mi
    by (simp add: defaultMatchItem_def MatchForTypeAny_def)
  have "map defaultMatchItem (Match (Spec r)) = Match (Spec r)"
    if "list_all (\<lambda>mi. MatchFor mi \<noteq> []) (Match (Spec r))"
    using that by (induction "Match (Spec r)" arbitrary: r)
      (auto simp: list_all_iff defaultMatchItem_def intro!: map_idI)
  then show ?thesis
    by (auto simp: Default_def Let_def idem some list_all_iff)
qed

section \<open>Validation\<close>

definition validMatchItem :: "('p, 'o) env \<Rightarrow> matchItem \<Rightarrow> bool" where
  "validMatchItem E mi \<longleftrightarrow> Select mi \<noteq> [] \<and> isOk (NewEvaluable E (Select mi)) \<and>
     (\<forall>rex. MatchRegex mi = Some rex \<longrightarrow> isOk (regexpCompile E rex)) \<and>
     MatchFor mi \<in> {MatchForTypeAny, MatchForTypeAll}"

definition validPatchOperation :: "('p, 'o) env \<Rightarrow> patchOperation \<Rightarrow> bool" where
  "validPatchOperation E po \<longleftrightarrow> (\<forall>value. Value po = Some value \<longrightarrow>
     isOk (NewSafeTemplate_Parse E (Path po) (PreProcessModRuleGoTemplate value)) \<and>
     (\<forall>sel. PatchSelect po = Some sel \<and> sel \<noteq> [] \<longrightarrow> isOk (NewEvaluable E sel)))"

definition validSpec :: "modRuleSpec \<Rightarrow> bool" where
  "validSpec sp \<longleftrightarrow>
     (Type sp = ModRuleTypePatch \<and> Patch sp \<noteq> [] \<and> RejectMessage sp = None \<or>
      Type sp = ModRuleTypeReject \<and> Patch sp = []) \<and>
     MinInt16 < ExecutionTier sp \<and> ExecutionTier sp < MaxInt16"

text \<open>The compilers return, with a value or an error.\<close>

definition compilersReturn :: "('p, 'o) env \<Rightarrow> bool" where
  "compilersReturn E \<longleftrightarrow> (\<forall>s. noPanic (NewEvaluable E s)) \<and> (\<forall>s. noPanic (regexpCompile E s)) \<and>
     (\<forall>n s. noPanic (NewSafeTemplate_Parse E n s))"

lemma check_iff: "noPanic m \<Longrightarrow> check m err = Inr (if isOk m then [] else [err (case m of Inl (GoErr e) \<Rightarrow> e | _ \<Rightarrow> [])])"
  by (erule noPanic_cases) (simp_all add: check_def)

lemma validateType_iff: "validateType sp = [] \<longleftrightarrow> validSpec sp"
  by (auto simp: validateType_def validSpec_def ModRuleTypePatch_def ModRuleTypeReject_def
      MinInt16_less less_MaxInt16 split: option.splits)

text \<open>The field that an error is about, and the errors about element \<open>i\<close> of a list of the spec.\<close>

definition errorPath :: "fieldError \<Rightarrow> pathElem list" where
  "errorPath e = (case e of Invalid p _ _ \<Rightarrow> p | Required p _ \<Rightarrow> p)"

definition aboutElem :: "string \<Rightarrow> nat \<Rightarrow> fieldError \<Rightarrow> bool" where
  "aboutElem field i e \<longleftrightarrow> (\<exists>f. errorPath e = [Child ''spec'', Child field, Index i, f])"

lemma aboutElem_index: "aboutElem field i e \<Longrightarrow> aboutElem field' j e \<longleftrightarrow> field' = field \<and> j = i"
  by (auto simp: aboutElem_def)

text \<open>A check of one element: it returns, and what it returns is about the element and empty if the element is valid.\<close>

definition checksElem :: "string \<Rightarrow> ('a \<Rightarrow> bool) \<Rightarrow> (nat \<times> 'a \<Rightarrow> fieldError list res) \<Rightarrow> bool" where
  "checksElem field P f \<longleftrightarrow> (\<forall>i x. \<exists>errs. f (i, x) = Inr errs \<and> (errs = [] \<longleftrightarrow> P x) \<and> (\<forall>e \<in> set errs. aboutElem field i e))"

lemma validateMatchItem_checks:
  "compilersReturn E \<Longrightarrow> checksElem ''match'' (validMatchItem E) (validateMatchItem E)"
  unfolding checksElem_def
proof (intro allI)
  fix i mi assume "compilersReturn E"
  then show "\<exists>errs. validateMatchItem E (i, mi) = Inr errs \<and> (errs = [] \<longleftrightarrow> validMatchItem E mi) \<and>
      (\<forall>e \<in> set errs. aboutElem ''match'' i e)"
    by (cases "MatchRegex mi")
      (auto simp: validateMatchItem_def validMatchItem_def compilersReturn_def check_iff aboutElem_def errorPath_def)
qed

lemma validatePatchOperation_checks:
  "compilersReturn E \<Longrightarrow> checksElem ''patch'' (validPatchOperation E) (validatePatchOperation E)"
  unfolding checksElem_def
proof (intro allI)
  fix i po assume "compilersReturn E"
  then show "\<exists>errs. validatePatchOperation E (i, po) = Inr errs \<and> (errs = [] \<longleftrightarrow> validPatchOperation E po) \<and>
      (\<forall>e \<in> set errs. aboutElem ''patch'' i e)"
    by (cases "Value po"; cases "PatchSelect po")
      (auto simp: validatePatchOperation_def validPatchOperation_def compilersReturn_def check_iff aboutElem_def errorPath_def)
qed

lemma concatM_checks:
  assumes "checksElem field P f"
  shows "\<exists>errs. concatM f (enumerate n xs) = Inr errs \<and> (errs = [] \<longleftrightarrow> list_all P xs) \<and>
    (\<forall>e \<in> set errs. \<exists>i. aboutElem field i e) \<and>
    (\<forall>i. (\<exists>e \<in> set errs. aboutElem field i e) \<longleftrightarrow> n \<le> i \<and> i < n + length xs \<and> \<not> P (xs ! (i - n)))"
proof (induction xs arbitrary: n)
  case Nil
  show ?case by auto
next
  case (Cons x xs)
  obtain e1 where e1: "f (n, x) = Inr e1" "e1 = [] \<longleftrightarrow> P x" "\<And>e. e \<in> set e1 \<Longrightarrow> aboutElem field n e"
    using assms unfolding checksElem_def by blast
  obtain e2 where e2: "concatM f (enumerate (Suc n) xs) = Inr e2" "e2 = [] \<longleftrightarrow> list_all P xs"
    "\<And>e. e \<in> set e2 \<Longrightarrow> \<exists>i. aboutElem field i e"
    "\<And>i. (\<exists>e \<in> set e2. aboutElem field i e) \<longleftrightarrow> Suc n \<le> i \<and> i < Suc n + length xs \<and> \<not> P (xs ! (i - Suc n))"
    using Cons by metis
  have first: "(\<exists>e \<in> set e1. aboutElem field i e) \<longleftrightarrow> i = n \<and> \<not> P x" for i
    using e1(2,3) aboutElem_index by (metis list.set_intros(1) neq_Nil_conv set_empty empty_iff)
  have "(\<exists>e \<in> set (e1 @ e2). aboutElem field i e) \<longleftrightarrow> n \<le> i \<and> i < n + length (x # xs) \<and> \<not> P ((x # xs) ! (i - n))" for i
    unfolding set_append bex_Un first e2(4) by (cases "i - n") (auto simp: Suc_le_eq diff_Suc)
  then show ?case using e1 e2 by (intro exI [of _ "e1 @ e2"]) auto
qed

definition validRule :: "('p, 'o) env \<Rightarrow> modRule \<Rightarrow> bool" where
  "validRule E r \<longleftrightarrow> validSpec (Spec r) \<and> list_all (validMatchItem E) (Match (Spec r)) \<and>
     list_all (validPatchOperation E) (Patch (Spec r)) \<and>
     (\<forall>msg. RejectMessage (Spec r) = Some msg \<longrightarrow> isOk (NewSafeTemplate_Parse E ''rejectMessage'' msg))"

lemma validateModRule_iff:
  assumes "compilersReturn E"
  shows "\<exists>errs. validateModRule E r = Inr (if validRule E r then None else Some errs) \<and> (validRule E r \<longleftrightarrow> errs = []) \<and>
    (\<forall>i. (\<exists>e \<in> set errs. aboutElem ''match'' i e) \<longleftrightarrow> i < length (Match (Spec r)) \<and> \<not> validMatchItem E (Match (Spec r) ! i)) \<and>
    (\<forall>i. (\<exists>e \<in> set errs. aboutElem ''patch'' i e) \<longleftrightarrow> i < length (Patch (Spec r)) \<and> \<not> validPatchOperation E (Patch (Spec r) ! i))"
proof -
  obtain ms where ms: "concatM (validateMatchItem E) (enumerate 0 (Match (Spec r))) = Inr ms"
      "ms = [] \<longleftrightarrow> list_all (validMatchItem E) (Match (Spec r))" "\<And>e. e \<in> set ms \<Longrightarrow> \<exists>i. aboutElem ''match'' i e"
      "\<And>i. (\<exists>e \<in> set ms. aboutElem ''match'' i e) \<longleftrightarrow> i < length (Match (Spec r)) \<and> \<not> validMatchItem E (Match (Spec r) ! i)"
    using concatM_checks [OF validateMatchItem_checks [OF assms], of 0 "Match (Spec r)"] by auto
  obtain ps where ps: "concatM (validatePatchOperation E) (enumerate 0 (Patch (Spec r))) = Inr ps"
      "ps = [] \<longleftrightarrow> list_all (validPatchOperation E) (Patch (Spec r))" "\<And>e. e \<in> set ps \<Longrightarrow> \<exists>i. aboutElem ''patch'' i e"
      "\<And>i. (\<exists>e \<in> set ps. aboutElem ''patch'' i e) \<longleftrightarrow> i < length (Patch (Spec r)) \<and> \<not> validPatchOperation E (Patch (Spec r) ! i)"
    using concatM_checks [OF validatePatchOperation_checks [OF assms], of 0 "Patch (Spec r)"] by auto
  have "\<exists>rs. (case RejectMessage (Spec r) of None \<Rightarrow> Inr [] | Some msg \<Rightarrow>
        check (NewSafeTemplate_Parse E ''rejectMessage'' msg) (Invalid [Child ''spec'', Child ''rejectMessage''] (BadString msg))) = Inr rs \<and>
      (rs = [] \<longleftrightarrow> (\<forall>msg. RejectMessage (Spec r) = Some msg \<longrightarrow> isOk (NewSafeTemplate_Parse E ''rejectMessage'' msg))) \<and>
      (\<forall>e \<in> set rs. \<forall>field i. \<not> aboutElem field i e)"
    using assms by (cases "RejectMessage (Spec r)") (simp_all add: compilersReturn_def check_iff aboutElem_def errorPath_def)
  then obtain rs where rs: "(case RejectMessage (Spec r) of None \<Rightarrow> Inr [] | Some msg \<Rightarrow>
        check (NewSafeTemplate_Parse E ''rejectMessage'' msg) (Invalid [Child ''spec'', Child ''rejectMessage''] (BadString msg))) = Inr rs"
      "rs = [] \<longleftrightarrow> (\<forall>msg. RejectMessage (Spec r) = Some msg \<longrightarrow> isOk (NewSafeTemplate_Parse E ''rejectMessage'' msg))"
      "\<And>e. e \<in> set rs \<Longrightarrow> \<not> aboutElem field i e" for field i
    by blast
  have type: "\<not> aboutElem field i e" if "e \<in> set (validateType (Spec r))" for e field i
    using that by (auto simp: validateType_def aboutElem_def errorPath_def split: if_splits option.splits)
  let ?errs = "validateType (Spec r) @ ms @ ps @ rs"
  have run: "validateModRule E r = Inr (if ?errs \<noteq> [] then Some ?errs else None)"
    unfolding validateModRule_def allErrors_def Let_def ms(1) ps(1) rs(1) by simp
  have valid: "validRule E r \<longleftrightarrow> ?errs = []"
    unfolding append_is_Nil_conv validateType_iff ms(2) ps(2) rs(2) validRule_def ..
  have others: "\<not> aboutElem field i e" if "e \<in> set (validateType (Spec r)) \<union> set rs" for e field i
    using that type rs(3) by blast
  have "\<not> aboutElem ''match'' i e" if "e \<in> set ps" for e i
    using ps(3) [OF that] aboutElem_index by fastforce
  then have match: "(\<exists>e \<in> set ?errs. aboutElem ''match'' i e) \<longleftrightarrow> (\<exists>e \<in> set ms. aboutElem ''match'' i e)" for i
    using others by auto
  have "\<not> aboutElem ''patch'' i e" if "e \<in> set ms" for e i
    using ms(3) [OF that] aboutElem_index by fastforce
  then have patch: "(\<exists>e \<in> set ?errs. aboutElem ''patch'' i e) \<longleftrightarrow> (\<exists>e \<in> set ps. aboutElem ''patch'' i e)" for i
    using others by auto
  have "validateModRule E r = Inr (if validRule E r then None else Some ?errs)" unfolding run valid by simp
  with valid show ?thesis
    by (intro exI [of _ ?errs] conjI allI) (assumption | rule trans [OF match ms(4)] trans [OF patch ps(4)])+
qed

text \<open>
  C17: the validating webhook accepts a rule, on creation and on update alike, exactly when its type is Patch with
  operations and no reject message, or Reject without operations, its tier is neither extreme, each match
  item has a query that compiles, a known matchFor and, if it has a regular expression, one
  that compiles, each patch operation with a value has a template that parses and, if it has a
  query, one that compiles, and the reject message parses. Otherwise it returns a non-empty
  list of errors, in which there is one about a match item or a patch operation exactly if that
  item or operation is at fault. A deletion is always accepted.
\<close>

theorem validation_accepts:
  assumes "compilersReturn E"
  shows "(validRule E r \<longrightarrow> ValidateCreate E r = Inr None) \<and>
    (\<not> validRule E r \<longrightarrow> (\<exists>errs. ValidateCreate E r = Inr (Some errs) \<and> errs \<noteq> [] \<and>
      (\<forall>i. (\<exists>e \<in> set errs. aboutElem ''match'' i e) \<longleftrightarrow> i < length (Match (Spec r)) \<and> \<not> validMatchItem E (Match (Spec r) ! i)) \<and>
      (\<forall>i. (\<exists>e \<in> set errs. aboutElem ''patch'' i e) \<longleftrightarrow> i < length (Patch (Spec r)) \<and> \<not> validPatchOperation E (Patch (Spec r) ! i)))) \<and>
    ValidateUpdate E r old = ValidateCreate E r \<and> ValidateDelete E r = Inr None"
  using validateModRule_iff [OF assms, of r]
  by (cases "validRule E r") (auto simp: ValidateCreate_def ValidateUpdate_def ValidateDelete_def)

lemma sample_compilersReturn: "compilersReturn sampleEnv"
  by (simp add: compilersReturn_def sampleEnv_def sampleNewEvaluable_def sampleCompile_def
      NewSafeTemplate_Parse_def sampleTemplate_def)

text \<open>A rule whose second match item has no query.\<close>

lemma validation_accepts_witness:
  "ValidateCreate sampleEnv (rejectRule ''a'' ''r'' 2 [kindIs ''Pod'']) = Inr None \<and>
   (\<exists>errs. ValidateCreate sampleEnv (rejectRule ''a'' ''r'' 2 [kindIs ''Pod'', (kindIs ''Pod'')\<lparr>Select := []\<rparr>]) = Inr (Some errs) \<and>
     (\<exists>e \<in> set errs. aboutElem ''match'' 1 e) \<and> \<not> (\<exists>e \<in> set errs. aboutElem ''match'' 0 e))"
proof -
  let ?bad = "rejectRule ''a'' ''r'' 2 [kindIs ''Pod'', (kindIs ''Pod'')\<lparr>Select := []\<rparr>]"
  note eval = validRule_def validSpec_def rejectRule_def validMatchItem_def kindIs_def sampleEnv_def
      sampleNewEvaluable_def sampleTemplate_def NewSafeTemplate_Parse_def hasPrefix_def strContains_def
      ModRuleTypePatch_def ModRuleTypeReject_def MatchForTypeAny_def less_int16_def i16_toInt16
  have "validRule sampleEnv (rejectRule ''a'' ''r'' 2 [kindIs ''Pod''])" by (simp add: eval)
  then have "ValidateCreate sampleEnv (rejectRule ''a'' ''r'' 2 [kindIs ''Pod'']) = Inr None"
    using validation_accepts [OF sample_compilersReturn] by blast
  moreover have "\<not> validRule sampleEnv ?bad" by (simp add: eval)
  with validation_accepts [OF sample_compilersReturn, of ?bad] obtain errs
    where errs: "ValidateCreate sampleEnv ?bad = Inr (Some errs)"
      "\<And>i. (\<exists>e \<in> set errs. aboutElem ''match'' i e) \<longleftrightarrow> i < length (Match (Spec ?bad)) \<and> \<not> validMatchItem sampleEnv (Match (Spec ?bad) ! i)"
    by blast
  have items: "Match (Spec ?bad) = [kindIs ''Pod'', (kindIs ''Pod'')\<lparr>Select := []\<rparr>]" by (simp add: rejectRule_def)
  have "\<not> validMatchItem sampleEnv ((kindIs ''Pod'')\<lparr>Select := []\<rparr>)" "validMatchItem sampleEnv (kindIs ''Pod'')"
    by (simp_all add: eval)
  then have "(\<exists>e \<in> set errs. aboutElem ''match'' 1 e) \<and> \<not> (\<exists>e \<in> set errs. aboutElem ''match'' 0 e)"
    unfolding errs(2) items by simp
  ultimately show ?thesis using errs(1) by blast
qed

section \<open>From validation to compilation\<close>

lemma foldM_cache_ok:
  "isOk (foldM (cacheStep g) m0 (enumerate n xs)) \<longleftrightarrow> list_all (\<lambda>x. \<forall>c. g x = Some c \<longrightarrow> isOk c) xs"
proof (induction xs arbitrary: m0 n)
  case Nil
  show ?case by simp
next
  case (Cons x xs)
  show ?case
  proof (cases "g x")
    case None
    then show ?thesis using Cons by (simp add: cacheStep_def)
  next
    case (Some c)
    then show ?thesis using Cons by (cases c) (simp_all add: cacheStep_def)
  qed
qed

lemma newCompiledMatchSelects_ok:
  "isOk (newCompiledMatchSelects E mis) \<longleftrightarrow> list_all (\<lambda>mi. isOk (NewEvaluable E (Select mi))) mis"
  using foldM_cache_ok [of "\<lambda>mi. Some (NewEvaluable E (Select mi))" Map.empty 0 mis]
  by (simp add: newCompiledMatchSelects_def cacheStep_def [abs_def] split_def)

lemma newCompiledRegexes_ok:
  "isOk (newCompiledRegexes E mis) \<longleftrightarrow> list_all (\<lambda>mi. \<forall>rex. MatchRegex mi = Some rex \<longrightarrow> isOk (regexpCompile E rex)) mis"
  unfolding newCompiledRegexes_cacheStep
  by (auto simp: foldM_cache_ok list_all_iff)

lemma mapM_ok: "isOk (mapM f xs) \<longleftrightarrow> list_all (\<lambda>x. isOk (f x)) xs"
proof (induction xs)
  case (Cons x xs)
  then show ?case by (cases "f x"; cases "mapM f xs") auto
qed simp

definition templateOf :: "patchOperation \<Rightarrow> string" where
  "templateOf po = PreProcessModRuleGoTemplate (case Value po of None \<Rightarrow> ''null'' | Some v \<Rightarrow> v)"

lemma compilePatchOperation_ok:
  "isOk (compilePatchOperation E po) \<longleftrightarrow>
     (\<forall>sel. PatchSelect po = Some sel \<longrightarrow> isOk (NewEvaluable E (''{#: '' @ sel @ ''}''))) \<and>
     isOk (NewSafeTemplate_Parse E (Path po) (templateOf po))"
proof (cases "PatchSelect po")
  case None
  then show ?thesis
    by (cases "NewSafeTemplate_Parse E (Path po) (templateOf po)")
      (simp_all add: compilePatchOperation_def Let_def templateOf_def)
next
  case (Some sel)
  then show ?thesis
    by (cases "NewEvaluable E (''{#: '' @ sel @ ''}'')"; cases "NewSafeTemplate_Parse E (Path po) (templateOf po)")
      (simp_all add: compilePatchOperation_def Let_def templateOf_def)
qed

lemma bindr_ok: "isOk (bindr m f) \<longleftrightarrow> (\<exists>x. m = Inr x \<and> isOk (f x))"
  by (cases m) auto

lemma NewModRuleStoreItem_ok:
  "isOk (NewModRuleStoreItem E r) \<longleftrightarrow>
     isOk (compileTargetNamespaceRegex E (TargetNamespaceRegex (Spec r))) \<and>
     isOk (newCompiledMatchSelects E (Match (Spec r))) \<and> isOk (newCompiledRegexes E (Match (Spec r))) \<and>
     isOk (newCompiledJSONPatch E (Patch (Spec r))) \<and> isOk (compileRejectMessage E (RejectMessage (Spec r)))"
  by (simp add: NewModRuleStoreItem_def Let_def bindr_ok) (simp add: isOk_iff)

lemma compileRejectMessage_ok:
  "isOk (compileRejectMessage E msg) \<longleftrightarrow> (\<forall>s. msg = Some s \<longrightarrow> isOk (NewSafeTemplate_Parse E ''rejectMessage'' s))"
  by (cases msg) (auto simp: compileRejectMessage_def isOk_iff bindr_Inr_iff)

text \<open>
  C15: what validation leaves unchecked. A rule that the webhook accepts compiles in the store
  exactly when, besides, its \<open>targetNamespaceRegex\<close> compiles, the query of each patch operation
  compiles in the form \<open>{#: query}\<close> in which the store uses it, and each operation without a
  value has a template name under which \<open>null\<close> parses.
\<close>

theorem accepted_rule_compiles:
  assumes "compilersReturn E" and "validateModRule E r = Inr None"
  shows "isOk (NewModRuleStoreItem E r) \<longleftrightarrow>
    (\<forall>rex. TargetNamespaceRegex (Spec r) = Some rex \<and> rex \<noteq> [] \<longrightarrow> isOk (regexpCompile E rex)) \<and>
    (\<forall>po \<in> set (Patch (Spec r)).
      (\<forall>sel. PatchSelect po = Some sel \<longrightarrow> isOk (NewEvaluable E (''{#: '' @ sel @ ''}''))) \<and>
      (Value po = None \<longrightarrow> isOk (NewSafeTemplate_Parse E (Path po) (PreProcessModRuleGoTemplate ''null''))))"
proof -
  have valid: "validRule E r" using validateModRule_iff [OF assms(1), of r] assms(2) by auto
  have tns: "isOk (compileTargetNamespaceRegex E (TargetNamespaceRegex (Spec r))) \<longleftrightarrow>
      (\<forall>rex. TargetNamespaceRegex (Spec r) = Some rex \<and> rex \<noteq> [] \<longrightarrow> isOk (regexpCompile E rex))"
    by (cases "TargetNamespaceRegex (Spec r)") (auto simp: compileTargetNamespaceRegex_def isOk_iff bindr_Inr_iff)
  have "isOk (newCompiledMatchSelects E (Match (Spec r)))" "isOk (newCompiledRegexes E (Match (Spec r)))"
      "isOk (compileRejectMessage E (RejectMessage (Spec r)))"
    using valid by (auto simp: validRule_def validMatchItem_def newCompiledMatchSelects_ok
        newCompiledRegexes_ok compileRejectMessage_ok list_all_iff)
  moreover have "isOk (NewSafeTemplate_Parse E (Path po) (templateOf po)) \<longleftrightarrow>
      (Value po = None \<longrightarrow> isOk (NewSafeTemplate_Parse E (Path po) (PreProcessModRuleGoTemplate ''null'')))"
    if "po \<in> set (Patch (Spec r))" for po
    using valid that by (auto simp: validRule_def validPatchOperation_def list_all_iff templateOf_def split: option.splits)
  ultimately show ?thesis
    by (simp add: NewModRuleStoreItem_ok tns newCompiledJSONPatch_def mapM_ok list_all_iff compilePatchOperation_ok)
qed

lemma accepted_rule_compiles_witness:
  "\<not> isOk (NewModRuleStoreItem sampleEnv
     ((rejectRule ''a'' ''r'' 2 [kindIs ''Pod''])\<lparr>Spec := (Spec (rejectRule ''a'' ''r'' 2 [kindIs ''Pod'']))\<lparr>TargetNamespaceRegex := Some ''(''\<rparr>\<rparr>))"
proof -
  have "validateModRule sampleEnv
     ((rejectRule ''a'' ''r'' 2 [kindIs ''Pod''])\<lparr>Spec := (Spec (rejectRule ''a'' ''r'' 2 [kindIs ''Pod'']))\<lparr>TargetNamespaceRegex := Some ''(''\<rparr>\<rparr>) = Inr None"
    by (simp add: validateModRule_def allErrors_def Let_def validateMatchItem_def check_def
      validateType_def NewSafeTemplate_Parse_def sample_eval hasPrefix_def strContains_def
      ModRuleTypePatch_def ModRuleTypeReject_def MatchForTypeAny_def i16_toInt16 flip: i16_inject)
  from accepted_rule_compiles [OF sample_compilersReturn this] show ?thesis
    by (simp add: sampleEnv_def sampleCompile_def)
qed

section \<open>Templates\<close>

lemma safeFuncMap_filter: "safeFuncMap fm = filter (\<lambda>(k, _). k \<notin> {''env'', ''expandenv''}) fm"
  by (auto simp: safeFuncMap_def blockFuncs_def intro: filter_cong)

lemma template_blind:
  "safeFuncMap fm = safeFuncMap fm' \<Longrightarrow>
   NewSafeTemplate_Parse (E\<lparr>sprigFuncMap := fm\<rparr>) = NewSafeTemplate_Parse (E\<lparr>sprigFuncMap := fm'\<rparr>)"
  by (simp add: NewSafeTemplate_Parse_def fun_eq_iff)

lemma other_externals:
  "NewEvaluable (E\<lparr>sprigFuncMap := fm\<rparr>) = NewEvaluable E" "regexpCompile (E\<lparr>sprigFuncMap := fm\<rparr>) = regexpCompile E"
  "sprintfOther (E\<lparr>sprigFuncMap := fm\<rparr>) = sprintfOther E"
  by simp_all

lemma other_compilers_blind:
  "compileTargetNamespaceRegex (E\<lparr>sprigFuncMap := fm\<rparr>) = compileTargetNamespaceRegex E"
  "newCompiledMatchSelects (E\<lparr>sprigFuncMap := fm\<rparr>) = newCompiledMatchSelects E"
  "newCompiledRegexes (E\<lparr>sprigFuncMap := fm\<rparr>) = newCompiledRegexes E"
  "validateMatchItem (E\<lparr>sprigFuncMap := fm\<rparr>) = validateMatchItem E"
  by (simp_all only: fun_eq_iff compileTargetNamespaceRegex_def newCompiledMatchSelects_def newCompiledRegexes_def
      validateMatchItem_def other_externals simp_thms cong: option.case_cong if_cong)

lemma item_blind:
  assumes "safeFuncMap fm = safeFuncMap fm'"
  shows "NewModRuleStoreItem (E\<lparr>sprigFuncMap := fm\<rparr>) = NewModRuleStoreItem (E\<lparr>sprigFuncMap := fm'\<rparr>)"
proof -
  note t = template_blind [OF assms, of E]
  have "compilePatchOperation (E\<lparr>sprigFuncMap := fm\<rparr>) = compilePatchOperation (E\<lparr>sprigFuncMap := fm'\<rparr>)"
    by (simp only: fun_eq_iff compilePatchOperation_def t other_externals simp_thms cong: option.case_cong)
  moreover have "compileRejectMessage (E\<lparr>sprigFuncMap := fm\<rparr>) = compileRejectMessage (E\<lparr>sprigFuncMap := fm'\<rparr>)"
    by (simp only: fun_eq_iff compileRejectMessage_def t simp_thms cong: option.case_cong)
  ultimately show ?thesis
    by (intro ext) (simp only: NewModRuleStoreItem_def newCompiledJSONPatch_def other_compilers_blind)
qed

lemma validation_blind:
  fixes E :: "('p, 'o) env"
  assumes "safeFuncMap fm = safeFuncMap fm'"
  shows "validateModRule (E\<lparr>sprigFuncMap := fm\<rparr>) = validateModRule (E\<lparr>sprigFuncMap := fm'\<rparr>)"
proof -
  note t = template_blind [OF assms, of E]
  have "validatePatchOperation (E\<lparr>sprigFuncMap := fm\<rparr>) = validatePatchOperation (E\<lparr>sprigFuncMap := fm'\<rparr>)"
    by (simp only: fun_eq_iff validatePatchOperation_def t other_externals simp_thms cong: option.case_cong)
  then show ?thesis
    by (intro ext) (simp only: validateModRule_def allErrors_def other_compilers_blind t cong: option.case_cong)
qed

text \<open>
  C16: no template of a rule can read KubeMod's own environment. Whatever functions Sprig offers
  as \<open>env\<close> and \<open>expandenv\<close>, or whether it offers them at all, the validating webhook answers the same
  for every rule and the store compiles every rule to the same item: the same templates for its
  patch values and for its rejection message.
\<close>

theorem templates_blind:
  assumes "filter (\<lambda>(k, _). k \<notin> {''env'', ''expandenv''}) fm = filter (\<lambda>(k, _). k \<notin> {''env'', ''expandenv''}) fm'"
  shows "validateModRule (E\<lparr>sprigFuncMap := fm\<rparr>) r = validateModRule (E\<lparr>sprigFuncMap := fm'\<rparr>) r \<and>
    NewModRuleStoreItem (E\<lparr>sprigFuncMap := fm\<rparr>) r = NewModRuleStoreItem (E\<lparr>sprigFuncMap := fm'\<rparr>) r \<and>
    Put (E\<lparr>sprigFuncMap := fm\<rparr>) s r = Put (E\<lparr>sprigFuncMap := fm'\<rparr>) s r"
proof -
  have "safeFuncMap fm = safeFuncMap fm'" using assms by (simp only: safeFuncMap_filter)
  then show ?thesis using item_blind [of fm fm' E] validation_blind [of fm fm' E] by (simp add: Put_def)
qed

lemma templates_blind_witness:
  "NewModRuleStoreItem (sampleEnv\<lparr>sprigFuncMap := [(''env'', ''os.Getenv''), (''trim'', ''strings.TrimSpace'')]\<rparr>)
     (rejectRule ''a'' ''r'' 2 [kindIs ''Pod'']) =
   NewModRuleStoreItem (sampleEnv\<lparr>sprigFuncMap := [(''trim'', ''strings.TrimSpace'')]\<rparr>)
     (rejectRule ''a'' ''r'' 2 [kindIs ''Pod''])"
  using templates_blind [of "[(''env'', ''os.Getenv''), (''trim'', ''strings.TrimSpace'')]"
      "[(''trim'', ''strings.TrimSpace'')]" sampleEnv "rejectRule ''a'' ''r'' 2 [kindIs ''Pod'']"] by simp

end
