(* ===== verification/PathProps.thy ===== *)
theory PathProps imports PathTemplate begin

text \<open>
  The properties of select keys and path templates: a select key gives back the wildcard keys
  it was built from, and a path template is filled in with them.
\<close>

section \<open>Select keys\<close>

text \<open>The keys inside the nested lists that \<open>..\<close> produces, in order.\<close>

fun keyLeaves :: "val \<Rightarrow> val list" where
  "keyLeaves (VArr ws) = concat (map keyLeaves ws)"
| "keyLeaves w = [w]"

definition plainKey :: "val \<Rightarrow> bool" where
  "plainKey w = (case w of VStr k \<Rightarrow> k \<noteq> [] \<and> list_all plainChar k | _ \<Rightarrow> False)"

definition keyText :: "val \<Rightarrow> string" where
  "keyText w = (case w of VStr k \<Rightarrow> k | _ \<Rightarrow> [])"

definition bracketed :: "string \<Rightarrow> string" where
  "bracketed k = [CHR ''['', CHR 0x22] @ k @ [CHR 0x22, CHR '']'']"

lemma quoteWildcard_bracketed:
  "list_all plainKey (concat (map keyLeaves ws)) \<Longrightarrow>
     quoteWildcardValues uq ws = concat (map (bracketed \<circ> keyText) (concat (map keyLeaves ws)))"
  "list_all plainKey (keyLeaves w) \<Longrightarrow>
     quoteWildcardValue uq w = concat (map (bracketed \<circ> keyText) (keyLeaves w))"
  by (induction uq ws and uq w rule: quoteWildcardValues_quoteWildcardValue.induct)
    (auto simp: plainKey_def keyText_def bracketed_def quote_plain)

lemma plainChar_keyByte: "list_all plainChar k \<Longrightarrow> list_all keyByte k"
  by (auto simp: list_all_iff plainChar_def keyByte_def Let_def)

lemma scanKeySegments_bracketed:
  assumes "k \<noteq> []" and "list_all keyByte k"
  shows "scanKeySegments (bracketed k @ rest) = k # scanKeySegments rest"
proof -
  have stop: "\<not> keyByte (CHR 0x22)" by (simp add: keyByte_def)
  have "takeWhile keyByte (k @ CHR 0x22 # CHR '']'' # rest) = k"
    "dropWhile keyByte (k @ CHR 0x22 # CHR '']'' # rest) = CHR 0x22 # CHR '']'' # rest"
    using assms(2) stop by (simp_all add: list_all_iff takeWhile_append dropWhile_append)
  then show ?thesis
    using assms(1) by (subst scanKeySegments.simps) (simp add: bracketed_def hasPrefix_def Let_def)
qed

lemma scanKeySegments_all:
  "list_all (\<lambda>k. k \<noteq> [] \<and> list_all keyByte k) ks \<Longrightarrow> scanKeySegments (concat (map bracketed ks)) = ks"
  by (induction ks) (auto simp: scanKeySegments_bracketed, subst scanKeySegments.simps, simp)

lemma scanKeySegments_dollar: "scanKeySegments (CHR ''$'' # s) = scanKeySegments s"
  by (subst scanKeySegments.simps) (simp add: Let_def)

lemma keySegments_of_matches:
  assumes "list_all plainKey (concat (map keyLeaves ws))"
  shows "scanKeySegments (''$'' @ quoteWildcardValues uq ws) = map keyText (concat (map keyLeaves ws))"
proof -
  have "list_all (\<lambda>k. k \<noteq> [] \<and> list_all keyByte k) (map keyText (concat (map keyLeaves ws)))"
    using assms plainChar_keyByte
    by (fastforce simp: list_all_iff plainKey_def keyText_def split: val.splits)
  from scanKeySegments_all [OF this] quoteWildcard_bracketed(1) [OF assms, of uq]
  show ?thesis by (simp add: scanKeySegments_dollar o_def)
qed

text \<open>
  C26: reading back a select key. The key \<open>$["k1"]["k2"]..\<close> that the select object writes for
  a match yields the wildcard keys of the match in order, those nested by \<open>..\<close> flattened, as
  long as each key is a non-empty string of printable ASCII without quotes, backslashes and
  brackets. A key that reads as a 64-bit decimal integer comes back as that integer, every
  other key as the string it was.
\<close>

theorem select_key_roundtrip:
  assumes "list_all plainKey (concat (map keyLeaves ws))"
  shows "keyPartsFromSelectKey (''$'' @ quoteWildcardValues uq ws) =
    map (detectType \<circ> keyText) (concat (map keyLeaves ws))"
  using keySegments_of_matches [OF assms, of uq] by (simp add: keyPartsFromSelectKey_def extractMatches_def o_def)

lemma select_key_roundtrip_witness:
  "keyPartsFromSelectKey (''$'' @ quoteWildcardValues id [VStr ''3'', VArr [VStr ''spec'', VStr ''0'']]) =
     [VInt 3, VStr ''spec'', VInt 0]"
  using select_key_roundtrip [of "[VStr ''3'', VArr [VStr ''spec'', VStr ''0'']]" id]
  by (simp add: plainKey_def plainChar_def keyText_def detectType_def atoi_def isDigit_def natOf_def digitVal_def Let_def)

text \<open>
  An index of an array survives: its decimal key comes back as the index, and prints as
  the same decimal. A key of an object survives printing exactly when it is not an integer
  written in another form than the shortest: \<open>007\<close>, \<open>+5\<close> and \<open>-0\<close> come back as \<open>7\<close>, \<open>5\<close>
  and \<open>0\<close>, so a path built from them addresses another member.
\<close>

lemma key_survives:
  "(i < 2 ^ 63 \<longrightarrow> detectType (itoa (int i)) = VInt (int i) \<and> fmtV (detectType (itoa (int i))) = itoa (int i)) \<and>
   (fmtV (detectType k) = k \<longleftrightarrow> (\<forall>n. atoi k = (n, None) \<longrightarrow> k = itoa n)) \<and>
   fmtV (detectType ''007'') = ''7'' \<and> fmtV (detectType ''+5'') = ''5'' \<and> fmtV (detectType ''-0'') = ''0''"
proof (intro conjI impI)
  assume "i < 2 ^ 63"
  then have "int i < 2 ^ 63" by (metis of_nat_less_numeral_power_cancel_iff of_nat_numeral)
  then show "detectType (itoa (int i)) = VInt (int i)" "fmtV (detectType (itoa (int i))) = itoa (int i)"
    using atoi_itoa [of "int i"] by (simp_all add: detectType_def)
next
  show "fmtV (detectType k) = k \<longleftrightarrow> (\<forall>n. atoi k = (n, None) \<longrightarrow> k = itoa n)"
    by (auto simp: detectType_def split: prod.splits option.splits)
qed (simp_all add: detectType_def atoi_def itoa_def isDigit_def natOf_def digitVal_def dec.simps digitChar_def Let_def)

lemma key_survives_witness: "detectType (itoa 12) = VInt 12 \<and> fmtV (detectType ''name'') = ''name''"
  using key_survives [of 12 "''name''"] by (simp add: atoi_def isDigit_def Let_def)

section \<open>Path templates\<close>

text \<open>The segments of a scan: literal bytes of the text, and holes of digits.\<close>

lemma scanNum_segments:
  "seg \<in> set (scanNum pre s) \<Longrightarrow>
     (case seg of Lit c \<Rightarrow> c \<in> set s | Hole ds \<Rightarrow> ds \<noteq> [] \<and> list_all isDigit ds)"
proof (induction pre s arbitrary: seg rule: scanNum.induct)
  case (1 pre s)
  show ?case
  proof (cases s)
    case Nil
    with "1.prems" show ?thesis by (simp add: scanNum.simps)
  next
    case (Cons c cs)
    let ?rest = "drop (length pre) s"
    show ?thesis
    proof (cases "pre \<noteq> [] \<and> hasPrefix s pre \<and> takeWhile isDigit ?rest \<noteq> []")
      case True
      then have "seg = Hole (takeWhile isDigit ?rest) \<or> seg \<in> set (scanNum pre (dropWhile isDigit ?rest))"
        using "1.prems" Cons by (subst (asm) scanNum.simps) (auto simp: Let_def)
      then show ?thesis
      proof
        assume "seg = Hole (takeWhile isDigit ?rest)"
        then show ?thesis using True by (auto simp: list_all_iff dest: set_takeWhileD)
      next
        assume "seg \<in> set (scanNum pre (dropWhile isDigit ?rest))"
        from "1.IH"(1) [OF Cons refl refl _ this] True show ?thesis
          using set_dropWhileD [of _ isDigit ?rest] set_drop_subset [of "length pre" s]
          by (auto split: segment.splits)
      qed
    next
      case False
      then have "seg = Lit c \<or> seg \<in> set (scanNum pre cs)"
        using "1.prems" Cons by (subst (asm) scanNum.simps) (auto simp: Let_def)
      then show ?thesis
      proof
        assume "seg \<in> set (scanNum pre cs)"
        from "1.IH"(2) [OF Cons refl refl _ this] False Cons show ?thesis
          by (auto split: segment.splits)
      qed (simp add: Cons)
    qed
  qed
qed

definition cleanSegs :: "segment list \<Rightarrow> bool" where
  "cleanSegs segs \<longleftrightarrow> list_all (\<lambda>seg. case seg of
     Lit c \<Rightarrow> c \<noteq> CHR ''%'' | Hole ds \<Rightarrow> ds \<noteq> [] \<and> list_all isDigit ds) segs"

lemma scanNum_clean: "CHR ''%'' \<notin> set s \<Longrightarrow> cleanSegs (scanNum pre s)"
  using scanNum_segments [of _ pre s] by (fastforce simp: cleanSegs_def list_all_iff split: segment.splits)

lemma parseFormat_char: "c \<noteq> CHR ''%'' \<Longrightarrow> parseFormat (c # s) = map_option (Cons (Txt c)) (parseFormat s)"
  by (subst parseFormat.simps) simp

lemma parseFormat_percent: "parseFormat (CHR ''%'' # CHR ''%'' # s) = map_option (Cons Percent) (parseFormat s)"
  by (subst parseFormat.simps) simp

lemma parseFormat_v: "parseFormat (CHR ''%'' # CHR ''v'' # s) = map_option (Cons NextArg) (parseFormat s)"
  by (subst parseFormat.simps) simp

lemma parseFormat_index:
  "CHR '']'' \<notin> set ds \<Longrightarrow>
   parseFormat (CHR ''%'' # CHR ''['' # ds @ CHR '']'' # CHR ''v'' # s) = map_option (Cons (ArgIndex ds)) (parseFormat s)"
proof -
  assume "CHR '']'' \<notin> set ds"
  then have "takeWhile (\<lambda>x. x \<noteq> CHR '']'') (ds @ CHR '']'' # CHR ''v'' # s) = ds"
    "dropWhile (\<lambda>x. x \<noteq> CHR '']'') (ds @ CHR '']'' # CHR ''v'' # s) = CHR '']'' # CHR ''v'' # s"
    by (auto simp: takeWhile_append dropWhile_append)
  then show ?thesis by (subst parseFormat.simps) (simp add: hasPrefix_def Let_def)
qed

text \<open>The first pass turns each \<open>#i\<close> into the verb with the index i + 1.\<close>

fun firstPieces :: "segment list \<Rightarrow> piece list" where
  "firstPieces [] = []"
| "firstPieces (Lit c # ss) = Txt c # firstPieces ss"
| "firstPieces (Hole d # ss) = Percent # Txt CHR ''['' # NextArg # Txt CHR '']'' # Txt CHR ''v'' # firstPieces ss"

lemma parse_first: "cleanSegs segs \<Longrightarrow> parseFormat (fillHoles (\<lambda>_. ''%%[%v]v'') segs) = Some (firstPieces segs)"
proof (induction segs rule: firstPieces.induct)
  case 1
  show ?case by (simp add: parseFormat.simps)
qed (auto simp: cleanSegs_def parseFormat_char parseFormat_percent parseFormat_v)

definition indexVerb :: "string \<Rightarrow> string" where
  "indexVerb ds = ''%['' @ oneBased ds @ '']v''"

lemma render_first:
  "args = pre @ map (\<lambda>s. VStr (oneBased s)) (holes segs) \<Longrightarrow>
   render (firstPieces segs) (length pre) False args = fillHoles indexVerb segs"
proof (induction segs arbitrary: pre rule: firstPieces.induct)
  case (3 d ss)
  then have "args ! length pre = VStr (oneBased d)" "length pre < length args" by (simp_all add: nth_append)
  moreover have "render (firstPieces ss) (length (pre @ [VStr (oneBased d)])) False args = fillHoles indexVerb ss"
    using 3 by (intro "3.IH") simp
  ultimately show ?case by (simp add: indexVerb_def [of d])
qed simp_all

lemma sprintfTemplate_of_path:
  assumes "CHR ''%'' \<notin> set path"
  shows "pathTemplateToSprintfTemplate other path = fillHoles indexVerb (scanPathPlaceholders path)"
proof -
  have clean: "cleanSegs (scanPathPlaceholders path)"
    unfolding scanPathPlaceholders_def by (rule scanNum_clean [OF assms])
  show ?thesis
    using render_first [of _ "[]" "scanPathPlaceholders path"]
    by (simp add: pathTemplateToSprintfTemplate_def Let_def extractMatches_def sprintf_def parse_first [OF clean] o_def)
qed

text \<open>The index of a verb: the value of the digits, or none when it is out of range.\<close>

lemma argIndex_oneBased:
  assumes ds: "ds \<noteq> []" "list_all isDigit ds" and len: "n < 2 ^ 63"
  shows "argIndex (oneBased ds) n = (if natOf ds < n then Some (natOf ds) else None)"
proof -
  have hd: "hd ds \<noteq> CHR ''-''" "hd ds \<noteq> CHR ''+''"
    using ds by (cases ds; auto simp: isDigit_not)+
  have atoi: "fst (atoi ds) = (if int (natOf ds) < 2 ^ 63 then int (natOf ds) else 2 ^ 63 - 1)"
    using ds hd by (simp add: atoi_def Let_def)
  show ?thesis
  proof (cases "int (natOf ds) < 2 ^ 63 - 1")
    case True
    then have "wrap64 (fst (atoi ds) + 1) = int (Suc (natOf ds))"
      unfolding atoi by (subst wrap64_id) auto
    then have "oneBased ds = dec (Suc (natOf ds))"
      by (simp add: oneBased_def itoa_of_nat del: of_nat_Suc)
    then show ?thesis by (simp add: argIndex_def dec_digits)
  next
    case False
    then have "fst (atoi ds) + 1 = 2 ^ 63" unfolding atoi by auto
    then have "wrap64 (fst (atoi ds) + 1) < 0" using wrap64_overflow [of "2 ^ 63"] by simp
    then have "hd (oneBased ds) = CHR ''-''" "oneBased ds \<noteq> []" by (simp_all add: oneBased_def itoa_def)
    then have "\<not> list_all isDigit (oneBased ds)"
      using isDigit_not(1) by (cases "oneBased ds") auto
    moreover have "\<not> natOf ds < n" using False len by auto
    ultimately show ?thesis by (simp add: argIndex_def)
  qed
qed

lemma oneBased_no_bracket: "CHR '']'' \<notin> set (oneBased ds)"
proof -
  have "CHR '']'' \<notin> set (dec k)" for k
    using dec_digits [of k] isDigit_not(4) unfolding list_all_iff by blast
  then show ?thesis by (simp add: oneBased_def itoa_def)
qed

fun secondPieces :: "segment list \<Rightarrow> piece list" where
  "secondPieces [] = []"
| "secondPieces (Lit c # ss) = Txt c # secondPieces ss"
| "secondPieces (Hole d # ss) = ArgIndex (oneBased d) # secondPieces ss"

lemma parse_second: "cleanSegs segs \<Longrightarrow> parseFormat (fillHoles indexVerb segs) = Some (secondPieces segs)"
proof (induction segs rule: secondPieces.induct)
  case 1
  show ?case by (simp add: parseFormat.simps)
next
  case (3 d ss)
  then show ?case
    using parseFormat_index [OF oneBased_no_bracket, of d] by (simp add: cleanSegs_def indexVerb_def [of d])
qed (auto simp: cleanSegs_def parseFormat_char)

definition fillWith :: "string \<Rightarrow> val list \<Rightarrow> string \<Rightarrow> string" where
  "fillWith bad parts ds = (if natOf ds < length parts then fmtV (parts ! natOf ds) else bad)"

lemma render_reordered:
  "cleanSegs segs \<Longrightarrow> length parts < 2 ^ 63 \<Longrightarrow>
   render (secondPieces segs) k True parts = fillHoles (fillWith ''%!v(BADINDEX)'' parts) segs"
  by (induction segs arbitrary: k rule: secondPieces.induct)
    (auto simp: cleanSegs_def argIndex_oneBased fillWith_def [of _ _ "_ # _"] fillWith_def)

text \<open>Without any verb, the unused arguments are reported at the end.\<close>

lemma render_second:
  "cleanSegs segs \<Longrightarrow> length parts < 2 ^ 63 \<Longrightarrow>
   render (secondPieces segs) 0 False parts = fillHoles (fillWith ''%!v(BADINDEX)'' parts) segs @
     (if holes segs = [] \<and> parts \<noteq> [] then extraArgs parts else [])"
proof (induction segs rule: secondPieces.induct)
  case (3 d ss)
  then have "cleanSegs ss" by (simp add: cleanSegs_def)
  with 3 show ?case
    by (auto simp: cleanSegs_def argIndex_oneBased render_reordered fillWith_def [of _ parts d])
qed (auto simp: cleanSegs_def)

section \<open>Cleaning up after Sprintf\<close>

lemma replaceAll_skip:
  "CHR ''%'' \<notin> set a \<Longrightarrow> replaceAll (a @ b) (CHR ''%'' # old) new = a @ replaceAll b (CHR ''%'' # old) new"
  by (induction a) (auto simp: hasPrefix_def)

lemma replaceAll_hit:
  "replaceAll ((CHR ''%'' # old) @ b) (CHR ''%'' # old) new = new @ replaceAll b (CHR ''%'' # old) new"
  by (simp add: hasPrefix_def)

lemma replace_bad:
  assumes "cleanSegs segs" and "\<forall>p \<in> set parts. CHR ''%'' \<notin> set (fmtV p)"
  shows "replaceAll (fillHoles (fillWith ''%!v(BADINDEX)'' parts) segs @ x) ''%!v(BADINDEX)'' ''#(BADINDEX)'' =
    fillHoles (fillWith ''#(BADINDEX)'' parts) segs @ replaceAll x ''%!v(BADINDEX)'' ''#(BADINDEX)''"
  using assms(1)
proof (induction segs rule: secondPieces.induct)
  case (2 c ss)
  then show ?case by (simp add: cleanSegs_def hasPrefix_def)
next
  case (3 d ss)
  let ?t = "fillHoles (fillWith ''%!v(BADINDEX)'' parts) ss @ x"
  have IH: "replaceAll ?t ''%!v(BADINDEX)'' ''#(BADINDEX)'' =
      fillHoles (fillWith ''#(BADINDEX)'' parts) ss @ replaceAll x ''%!v(BADINDEX)'' ''#(BADINDEX)''"
    using 3 by (simp add: cleanSegs_def)
  show ?case
  proof (cases "natOf d < length parts")
    case True
    then have "CHR ''%'' \<notin> set (fmtV (parts ! natOf d))" using assms(2) by simp
    from replaceAll_skip [OF this, of ?t] IH True show ?thesis by (simp add: fillWith_def [of _ parts d])
  next
    case False
    with replaceAll_hit [of "''!v(BADINDEX)''" ?t "''#(BADINDEX)''"] IH show ?thesis
      by (simp add: fillWith_def [of _ parts d])
  qed
qed simp

lemma fill_no_percent:
  assumes "cleanSegs segs" and "\<forall>p \<in> set parts. CHR ''%'' \<notin> set (fmtV p)"
  shows "CHR ''%'' \<notin> set (fillHoles (fillWith ''#(BADINDEX)'' parts) segs)"
  using assms(1)
proof (induction segs rule: secondPieces.induct)
  case (3 d ss)
  moreover have "CHR ''%'' \<notin> set (fillWith ''#(BADINDEX)'' parts d)"
    using assms(2) by (simp add: fillWith_def)
  ultimately show ?case by (simp add: cleanSegs_def)
qed (auto simp: cleanSegs_def)

lemma strIndex_skip:
  "CHR ''%'' \<notin> set a \<Longrightarrow> strIndex (a @ b) (CHR ''%'' # p) = map_option (\<lambda>i. length a + i) (strIndex b (CHR ''%'' # p))"
proof (induction a)
  case Nil
  then show ?case by (simp add: option.map_ident)
next
  case (Cons c a)
  then show ?case by (auto simp: hasPrefix_def option.map_comp o_def)
qed

lemma extra_cut:
  "strIndex (replaceAll (extraArgs args) ''%!v(BADINDEX)'' ''#(BADINDEX)'') ''%!(EXTRA'' = Some 0"
  by (simp add: extraArgs_def hasPrefix_def)

definition filledPath :: "string \<Rightarrow> val list \<Rightarrow> string" where
  "filledPath path parts = fillHoles (fillWith ''#(BADINDEX)'' parts) (scanPathPlaceholders path)"

text \<open>
  The path of a patch operation. For a path template without percent signs and key parts
  that print without them, the two passes through Sprintf replace exactly each \<open>#i\<close> of the
  template by the i-th key part; an index beyond the key parts, however large, becomes
  \<open>#(BADINDEX)\<close>, on which the operation is given up. Unused key parts leave no trace.
\<close>

lemma path_filled:
  assumes "CHR ''%'' \<notin> set path" and "\<forall>p \<in> set parts. CHR ''%'' \<notin> set (fmtV p)" and "length parts < 2 ^ 63"
  shows "pathFromKeyParts other parts (pathTemplateToSprintfTemplate other path) = filledPath path parts"
proof -
  let ?segs = "scanPathPlaceholders path"
  have clean: "cleanSegs ?segs"
    unfolding scanPathPlaceholders_def by (rule scanNum_clean [OF assms(1)])
  let ?out = "fillHoles (fillWith ''#(BADINDEX)'' parts) ?segs"
  let ?x = "if holes ?segs = [] \<and> parts \<noteq> [] then extraArgs parts else []"
  have ret: "replaceAll (sprintf other (pathTemplateToSprintfTemplate other path) parts) ''%!v(BADINDEX)'' ''#(BADINDEX)'' =
      ?out @ replaceAll ?x ''%!v(BADINDEX)'' ''#(BADINDEX)''"
    by (simp only: sprintf_def sprintfTemplate_of_path [OF assms(1)] parse_second [OF clean] option.case
        render_second [OF clean assms(3)] replace_bad [OF clean assms(2)])
  have idx: "strIndex (?out @ replaceAll ?x ''%!v(BADINDEX)'' ''#(BADINDEX)'') ''%!(EXTRA'' =
      (if ?x = [] then None else Some (length ?out))"
    using strIndex_skip [OF fill_no_percent [OF clean assms(2)], of _ "''!(EXTRA''"] extra_cut [of parts]
    by (auto simp: extraArgs_def [of parts])
  show ?thesis
    unfolding pathFromKeyParts_def Let_def ret idx by (simp add: filledPath_def)
qed

end
