(* ===== verification/SelectProps.thy ===== *)
theory SelectProps imports PathProps Sample begin

text \<open>
  Patch operations with a \<open>select\<close>, end to end: the select object is built, the loop over it
  runs in whatever order Go gives, each select key is taken apart again, and the path and the
  value of one operation are made from each match.
\<close>

section \<open>The select object\<close>

text \<open>The documented behaviour of gval: an expression with a string value evaluates to that string.\<close>

definition evalsStrings :: "gvalEval \<Rightarrow> bool" where
  "evalsStrings g \<longleftrightarrow> (\<forall>k c v s. k c v = Inr (VStr s) \<longrightarrow> EvalString g k c v = Inr s)"

definition matchKey :: "(string \<Rightarrow> string) \<Rightarrow> found \<Rightarrow> string" where
  "matchKey uq m = ''$'' @ quoteWildcardValues uq (fst m)"

lemma placeholder_key:
  "placeholder_evaluable uq allPlaceholders (c\<lparr>placeholders := Some keys\<rparr>) v = Inr (VStr (''$'' @ quoteWildcardValues uq keys))"
  by (simp add: placeholder_evaluable_def allPlaceholders_def)

lemma visitMatch_fold:
  assumes "evalsStrings g"
  shows "foldM (visitMatch g (placeholder_evaluable uq allPlaceholders) c v) (es, er) ms =
    Inr (es @ map (\<lambda>m. (matchKey uq m, snd m)) ms, er)"
proof (induction ms arbitrary: es)
  case (Cons m ms)
  have "EvalString g (placeholder_evaluable uq allPlaceholders) (c\<lparr>placeholders := Some (fst m)\<rparr>) v = Inr (matchKey uq m)"
    using assms placeholder_key [of uq "fst m" _ v] by (simp add: evalsStrings_def matchKey_def)
  then have "visitMatch g (placeholder_evaluable uq allPlaceholders) c v (es, er) m = Inr (es @ [(matchKey uq m, snd m)], er)" for es
    by (simp add: visitMatch_def case_prod_beta)
  then show ?case using Cons by simp
qed simp

lemma fold_mapPut_distinct:
  "distinct (map fst (vs @ es)) \<Longrightarrow> fold (\<lambda>(k, x). mapPut k x) es vs = vs @ es"
proof (induction es arbitrary: vs)
  case (Cons e es)
  have "fst e \<notin> set (map fst vs) \<Longrightarrow> mapPut (fst e) (snd e) vs = vs @ [e]" for vs
    by (induction vs) auto
  with Cons show ?case by (simp add: case_prod_beta)
qed simp

lemma selectObject_matches:
  assumes "evalsStrings g" and "visitMatchs p c v record_match = Inr ms" and "distinct (map (matchKey uq) ms)"
  shows "selectObject g uq p c v = Inr (VObj (map (\<lambda>m. (matchKey uq m, snd m)) ms))"
  using assms fold_mapPut_distinct [of "[]" "map (\<lambda>m. (matchKey uq m, snd m)) ms"]
  by (simp add: selectObject_def jsonObjectSlice_evaluable_def visitMatch_fold o_def)

section \<open>Keys and paths of a match\<close>

definition leafKeys :: "found \<Rightarrow> val list" where
  "leafKeys m = concat (map keyLeaves (fst m))"

definition matchParts :: "found \<Rightarrow> val list" where
  "matchParts m = map (detectType \<circ> keyText) (leafKeys m)"

text \<open>Keys that pass through the select key and the format unharmed.\<close>

definition safeKey :: "val \<Rightarrow> bool" where
  "safeKey w \<longleftrightarrow> plainKey w \<and> CHR ''%'' \<notin> set (keyText w) \<and> CHR ''('' \<notin> set (keyText w)"

definition safeMatch :: "found \<Rightarrow> bool" where
  "safeMatch m \<longleftrightarrow> list_all safeKey (leafKeys m) \<and> length (leafKeys m) < 2 ^ 63"

definition inRange :: "string \<Rightarrow> val list \<Rightarrow> bool" where
  "inRange path parts \<longleftrightarrow> list_all (\<lambda>ds. natOf ds < length parts) (holes (scanPathPlaceholders path))"

lemma keySegments_matchKey: "safeMatch m \<Longrightarrow> scanKeySegments (matchKey uq m) = map keyText (leafKeys m)"
  unfolding matchKey_def leafKeys_def safeMatch_def
  by (rule keySegments_of_matches) (auto simp: list_all_iff safeKey_def)

lemma keyParts_matchKey: "safeMatch m \<Longrightarrow> keyPartsFromSelectKey (matchKey uq m) = matchParts m"
  by (simp add: keyPartsFromSelectKey_def extractMatches_def keySegments_matchKey matchParts_def)

lemma distinct_matchKeys:
  assumes "\<forall>m \<in> set ms. safeMatch m" and "distinct (map (map keyText \<circ> leafKeys) ms)"
  shows "distinct (map (matchKey uq) ms)"
proof -
  have "map (map keyText \<circ> leafKeys) ms = map scanKeySegments (map (matchKey uq) ms)"
    using assms(1) by (simp add: keySegments_matchKey)
  then show ?thesis using assms(2) by (metis distinct_map)
qed

lemma itoa_bytes: "c \<in> set (itoa n) \<Longrightarrow> isDigit c \<or> c = CHR ''-''"
  using dec_digits by (auto simp: itoa_def list_all_iff split: if_splits)

lemma fmtV_detectType: "c \<in> set (fmtV (detectType k)) \<Longrightarrow> c \<in> set k \<or> isDigit c \<or> c = CHR ''-''"
  using itoa_bytes by (auto simp: detectType_def split: prod.splits option.splits)

lemma matchParts_bytes:
  assumes "safeMatch m" and "w \<in> set (matchParts m)"
  shows "CHR ''%'' \<notin> set (fmtV w)" "CHR ''('' \<notin> set (fmtV w)"
proof -
  obtain k where k: "w = detectType (keyText k)" "safeKey k"
    using assms by (auto simp: matchParts_def safeMatch_def list_all_iff)
  have "\<not> isDigit CHR ''%''" "\<not> isDigit CHR ''(''" by (simp_all add: isDigit_def)
  then show "CHR ''%'' \<notin> set (fmtV w)" "CHR ''('' \<notin> set (fmtV w)"
    using fmtV_detectType [of _ "keyText k"] k by (fastforce simp: safeKey_def)+
qed

lemma fillHoles_bytes:
  "c \<in> set (fillHoles f segs) \<Longrightarrow> Lit c \<in> set segs \<or> (\<exists>ds \<in> set (holes segs). c \<in> set (f ds))"
  by (induction f segs rule: fillHoles.induct) auto

lemma scan_literal: "Lit c \<in> set (scanPathPlaceholders path) \<Longrightarrow> c \<in> set path"
  using scanNum_segments [of "Lit c" "''#''" path] by (simp add: scanPathPlaceholders_def)

lemma strIndex_member: "strIndex s (c # p) = Some i \<Longrightarrow> c \<in> set s"
  by (induction s arbitrary: i) (auto simp: hasPrefix_def split: if_splits)

lemma filledPath_inRange:
  assumes "inRange path parts" and "CHR ''('' \<notin> set path" and "\<forall>w \<in> set parts. CHR ''('' \<notin> set (fmtV w)"
  shows "\<not> strContains (filledPath path parts) ''(BADINDEX)''"
proof -
  have "CHR ''('' \<notin> set (filledPath path parts)"
  proof
    assume "CHR ''('' \<in> set (filledPath path parts)"
    from fillHoles_bytes [OF this [unfolded filledPath_def]] scan_literal assms(2)
    obtain ds where "ds \<in> set (holes (scanPathPlaceholders path))" "CHR ''('' \<in> set (fillWith ''#(BADINDEX)'' parts ds)"
      by blast
    then show False using assms by (auto simp: inRange_def list_all_iff fillWith_def)
  qed
  then show ?thesis using strIndex_member by (fastforce simp: strContains_def)
qed

lemma strContains_appendI: "strContains b p \<Longrightarrow> strContains (a @ b) p"
  by (induction a) (auto simp: strContains_def)

lemma strContains_prefix: "p \<noteq> [] \<Longrightarrow> strContains (p @ b) p"
  by (cases p) (auto simp: strContains_def hasPrefix_def)

lemma fillHoles_bad:
  "ds \<in> set (holes segs) \<Longrightarrow> length parts \<le> natOf ds \<Longrightarrow>
   strContains (fillHoles (fillWith ''#(BADINDEX)'' parts) segs) ''(BADINDEX)''"
proof (induction segs rule: firstPieces.induct)
  case (2 c ss)
  then show ?case using strContains_appendI [of _ _ "[c]"] by simp
next
  case (3 d ss)
  let ?rest = "fillHoles (fillWith ''#(BADINDEX)'' parts) ss"
  show ?case
  proof (cases "d = ds")
    case True
    have "strContains (''#'' @ ''(BADINDEX)'' @ ?rest) ''(BADINDEX)''"
      by (intro strContains_appendI strContains_prefix) simp
    then show ?thesis using True 3 by (simp add: fillWith_def [of _ _ ds])
  next
    case False
    then show ?thesis using 3 strContains_appendI by simp
  qed
qed simp

lemma filledPath_outOfRange: "\<not> inRange path parts \<Longrightarrow> strContains (filledPath path parts) ''(BADINDEX)''"
  using fillHoles_bad by (auto simp: inRange_def list_all_iff filledPath_def not_less)

section \<open>The operations of a select\<close>

lemma concatM_singletons:
  "(\<And>x. x \<in> set xs \<Longrightarrow> f x = Inr [g x]) \<Longrightarrow> concatM f xs = Inr (map g xs)"
  using concatM_Inr [of xs f "\<lambda>x. [g x]"] by (simp add: concat_map_singleton)

lemma concatM_fails:
  assumes "\<And>x. x \<in> set xs \<Longrightarrow> ok x \<Longrightarrow> f x = Inr (g x)" and "\<And>x. x \<in> set xs \<Longrightarrow> \<not> ok x \<Longrightarrow> f x = Inl (e x)"
    and "\<exists>x \<in> set xs. \<not> ok x"
  shows "\<exists>x \<in> set xs. \<not> ok x \<and> concatM f xs = Inl (e x)"
  using assms
proof (induction xs)
  case (Cons x xs)
  show ?case
  proof (cases "ok x")
    case True
    moreover from this have "\<exists>y \<in> set xs. \<not> ok y \<and> concatM f xs = Inl (e y)" using Cons by auto
    ultimately show ?thesis using Cons.prems(1) by auto
  next
    case False
    then show ?thesis using Cons.prems(2) by simp
  qed
qed simp

definition matchItemOf :: "string \<Rightarrow> found \<Rightarrow> patchPathItem" where
  "matchItemOf path m = \<lparr>ppi_path = filledPath path (matchParts m), ppi_selectKeyParts = matchParts m, ppi_selectedItem = snd m\<rparr>"

text \<open>What a compiled operation keeps of its source.\<close>

lemma compiled_fields:
  assumes "compilePatchOperation E po = Inr cop" and "PatchSelect po = Some sel"
  shows "NewEvaluable E (''{#: '' @ sel @ ''}'') = Inr ev \<Longrightarrow> cop_patchSelect cop = Some ev"
    and "cop_op cop = Operation po" and "cop_path cop = Path po"
    and "cop_pathSprintfTemplate cop = pathTemplateToSprintfTemplate (sprintfOther E) (Path po)"
  using assms by (auto simp: compilePatchOperation_def Let_def res_simps)

lemma pathItemOf_match:
  assumes "cop_path cop = path" and "cop_pathSprintfTemplate cop = pathTemplateToSprintfTemplate (sprintfOther E) path"
    and "CHR ''%'' \<notin> set path" and "CHR ''('' \<notin> set path" and "safeMatch m"
  shows "pathItemOf E cop (matchKey uq m, snd m) =
    (if inRange path (matchParts m) then Inr [matchItemOf path m]
     else Inl (GoErr (badIndexMessage path (filledPath path (matchParts m)))))"
proof -
  have "length (matchParts m) < 2 ^ 63" using assms(5) by (simp add: matchParts_def safeMatch_def)
  then have "pathFromKeyParts (sprintfOther E) (matchParts m) (cop_pathSprintfTemplate cop) = filledPath path (matchParts m)"
    unfolding assms(2) using matchParts_bytes(1) [OF assms(5)] by (intro path_filled [OF assms(3)]) auto
  then show ?thesis
    using filledPath_inRange [OF _ assms(4)] filledPath_outOfRange matchParts_bytes(2) [OF assms(5)] assms(1,5)
    by (auto simp: pathItemOf_def keyParts_matchKey Let_def matchItemOf_def)
qed

lemma mset_eq_mapE:
  assumes "mset ys = mset (map f xs)"
  obtains zs where "mset zs = mset xs" and "ys = map f zs"
proof -
  have "\<exists>zs. mset zs = mset xs \<and> ys = map f zs" using assms
  proof (induction ys arbitrary: xs)
    case (Cons y ys)
    then have "y \<in> set (map f xs)" by (metis list.set_intros(1) set_mset_mset)
    then obtain a x b where xs: "xs = a @ x # b" "y = f x" by (auto dest: split_list)
    then have "mset ys = mset (map f (a @ b))" using Cons.prems by simp
    from Cons.IH [OF this] obtain zs where "mset zs = mset (a @ b)" "ys = map f zs" by blast
    then show ?case using xs by (intro exI [of _ "x # zs"]) simp
  qed simp
  then show thesis using that by blast
qed

lemma pathItemsOf_select:
  assumes "evalsStrings g" and "\<And>kvs. mset (rangeMap E kvs) = mset kvs" and "cop_patchSelect cop = Some (selectObject g uq p)"
    and "visitMatchs p background v record_match = Inr ms"
    and "\<forall>m \<in> set ms. safeMatch m" and "distinct (map (map keyText \<circ> leafKeys) ms)"
  shows "\<exists>xs. mset xs = mset ms \<and> pathItemsOf E cop v = concatM (\<lambda>m. pathItemOf E cop (matchKey uq m, snd m)) xs"
proof -
  let ?kv = "\<lambda>m. (matchKey uq m, snd m)"
  have "selectObject g uq p background v = Inr (VObj (map ?kv ms))"
    by (rule selectObject_matches [OF assms(1,4) distinct_matchKeys [OF assms(5,6)]])
  moreover obtain xs where xs: "mset xs = mset ms" "rangeMap E (map ?kv ms) = map ?kv xs"
    using assms(2) [of "map ?kv ms"] by (rule mset_eq_mapE)
  ultimately show ?thesis using assms(3) by (intro exI [of _ xs]) (simp add: pathItemsOf_def concatM_map)
qed

text \<open>
  C9: the operations a select produces. For a patch operation that compiles, whose select is a
  path with matches under safe keys (plain, without percent signs and parentheses) that differ
  from each other, and a path template of the same bytes: when every \<open>#i\<close> of the template has
  a key in every match, and the value template and its conversion to JSON succeed, the
  operation contributes exactly one JSON patch operation per match, whose path is the template
  with the keys of that match and whose value is the value template run on that match. When
  some match is short of a key, the whole operation fails with the path it could not build.
  The order of the operations is that of Go's range over a map, so only their multiset is fixed.
\<close>

theorem select_operations:
  assumes "evalsStrings g" and "\<And>kvs. mset (rangeMap E kvs) = mset kvs"
    and "compilePatchOperation E po = Inr cop" and "PatchSelect po = Some sel"
    and "NewEvaluable E (''{#: '' @ sel @ ''}'') = Inr (selectObject g uq p)"
    and "visitMatchs p background v record_match = Inr ms"
    and "\<forall>m \<in> set ms. safeMatch m" and "distinct (map (map keyText \<circ> leafKeys) ms)"
    and "CHR ''%'' \<notin> set (Path po)" and "CHR ''('' \<notin> set (Path po)"
    and "\<forall>m \<in> set ms. bindr (cop_valueTemplate cop (PatchTemplateContext ns v (matchParts m) (snd m))) (YAMLToJSON E) = Inr (js m)"
  shows "if \<forall>m \<in> set ms. inRange (Path po) (matchParts m)
    then \<exists>ops. operationsOf E ns v cop = Inr ops \<and>
      mset ops = image_mset (\<lambda>m. operationText (Operation po) (filledPath (Path po) (matchParts m)) (js m)) (mset ms)
    else \<exists>m \<in> set ms. \<not> inRange (Path po) (matchParts m) \<and>
      operationsOf E ns v cop = Inl (GoErr (badIndexMessage (Path po) (filledPath (Path po) (matchParts m))))"
proof -
  note cop = compiled_fields [OF assms(3,4)]
  note item = pathItemOf_match [OF cop(3,4) assms(9,10), of _ uq]
  obtain xs where xs: "mset xs = mset ms" "pathItemsOf E cop v = concatM (\<lambda>m. pathItemOf E cop (matchKey uq m, snd m)) xs"
    using pathItemsOf_select [OF assms(1,2) cop(1) [OF assms(5)] assms(6,7,8)] by blast
  have set: "set xs = set ms" using xs(1) by (metis set_mset_mset)
  show ?thesis
  proof (cases "\<forall>m \<in> set ms. inRange (Path po) (matchParts m)")
    case True
    then have "pathItemsOf E cop v = Inr (map (matchItemOf (Path po)) xs)"
      unfolding xs(2) using assms(7) set item by (intro concatM_singletons) simp
    moreover have "concatM (operationOf E ns v cop) (map (matchItemOf (Path po)) xs) =
        Inr (map (\<lambda>m. operationText (Operation po) (filledPath (Path po) (matchParts m)) (js m)) xs)"
      unfolding concatM_map
    proof (rule concatM_singletons)
      fix m assume "m \<in> set xs"
      then show "operationOf E ns v cop (matchItemOf (Path po) m) =
          Inr [operationText (Operation po) (filledPath (Path po) (matchParts m)) (js m)]"
        using assms(11) set cop(2) by (auto simp: operationOf_def matchItemOf_def res_simps)
    qed
    ultimately show ?thesis using True xs(1) by (simp add: operationsOf_def)
  next
    case False
    then have "\<exists>m \<in> set xs. \<not> inRange (Path po) (matchParts m) \<and>
        pathItemsOf E cop v = Inl (GoErr (badIndexMessage (Path po) (filledPath (Path po) (matchParts m))))"
      unfolding xs(2) using assms(7) set item
      by (intro concatM_fails [where g = "\<lambda>m. [matchItemOf (Path po) m]"]) auto
    then show ?thesis using False set by (auto simp: operationsOf_def)
  qed
qed

definition sampleSelectOp :: "string \<Rightarrow> patchOperation" where
  "sampleSelectOp path = \<lparr>Operation = ''add'', PatchSelect = Some ''$.kind[*]'', Path = path, Value = Some ''1''\<rparr>"

definition sampleSelectPath :: path where
  "sampleSelectPath = Ambiguous (Plain (keyPath ''kind'')) starSelector []"

definition sampleSelectDoc :: val where
  "sampleSelectDoc = VObj [(''kind'', VArr [VStr ''a'', VStr ''b''])]"

definition sampleCompiledOp :: "string \<Rightarrow> compiledJSONPatchOperation" where
  "sampleCompiledOp path = \<lparr>cop_op = ''add'', cop_patchSelect = Some (selectObject sampleGval id sampleSelectPath),
     cop_path = path, cop_pathSprintfTemplate = pathTemplateToSprintfTemplate (\<lambda>f a. f) path,
     cop_valueTemplate = (\<lambda>_. Inr ''1'')\<rparr>"

lemma sampleSelect_compiled:
  "compilePatchOperation sampleEnv (sampleSelectOp path) = Inr (sampleCompiledOp path)"
  "NewEvaluable sampleEnv (''{#: '' @ ''$.kind[*]'' @ ''}'') = Inr (selectObject sampleGval id sampleSelectPath)"
  by (simp_all add: compilePatchOperation_def sampleSelectOp_def sample_eval hasPrefix_def NewSafeTemplate_Parse_def
      sampleSelectPath_def sampleCompiledOp_def strContains_def PreProcessModRuleGoTemplate_def scanNum.simps)

lemma sampleSelect_matches:
  "visitMatchs sampleSelectPath background sampleSelectDoc record_match =
     Inr [([VStr ''0''], VStr ''a''), ([VStr ''1''], VStr ''b'')]"
  by code_simp

lemma sampleGval_strings: "evalsStrings sampleGval"
  by (simp add: evalsStrings_def sampleGval_def)

lemma select_operations_witness:
  "\<exists>ops. operationsOf sampleEnv ''ns'' sampleSelectDoc (sampleCompiledOp ''/kind/#0'') = Inr ops \<and>
     mset ops = {#operationText ''add'' ''/kind/0'' ''1'', operationText ''add'' ''/kind/1'' ''1''#}"
proof -
  let ?ms = "[([VStr ''0''], VStr ''a''), ([VStr ''1''], VStr ''b'')]"
  have parts: "\<forall>m \<in> set ?ms. safeMatch m" "map matchParts ?ms = [[VInt 0], [VInt 1]]"
    by (simp_all add: safeMatch_def leafKeys_def safeKey_def plainKey_def plainChar_def keyText_def matchParts_def
        detectType_def atoi_def isDigit_def natOf_def digitVal_def Let_def)
  moreover have "holes (scanPathPlaceholders ''/kind/#0'') = [''0'']"
    "filledPath ''/kind/#0'' [VInt 0] = ''/kind/0''" "filledPath ''/kind/#0'' [VInt 1] = ''/kind/1''"
    by (simp_all add: filledPath_def fillWith_def scanPathPlaceholders_def scanNum.simps hasPrefix_def isDigit_def
        natOf_def digitVal_def itoa_def dec.simps digitChar_def Let_def)
  ultimately show ?thesis
    using select_operations [OF sampleGval_strings _ sampleSelect_compiled(1) _ sampleSelect_compiled(2) sampleSelect_matches,
        of "''/kind/#0''" "''ns''" "\<lambda>_. ''1''"]
    by (simp add: sampleSelectOp_def leafKeys_def keyText_def sampleCompiledOp_def sampleEnv_def inRange_def natOf_def digitVal_def)
qed

end
