(* ===== verification/JsonPathProps.thy ===== *)
theory JsonPathProps imports Placeholder begin

text \<open>
  The properties of the JSONPath evaluator. The branching selectors share one contract, the
  locale \<open>branching\<close>: a selector calls its matcher on a sequence of hits that does not depend
  on the matcher. Each selector of the package is an instance.
\<close>

section \<open>The contract of a branching selector\<close>

text \<open>
  A step of a selector yields the key and value of at most a few hits, or panics; the matcher
  is called on the hits of a step before the next step is taken.
\<close>

type_synonym hit = "val \<times> val"

definition runSteps :: "hit list res list \<Rightarrow> ambiguousMatcher \<Rightarrow> found list res" where
  "runSteps steps m = concatM (\<lambda>s. bindr s (concatM (\<lambda>(k, x). m k x))) steps"

locale branching =
  fixes sel :: ambiguousSelector
    and steps :: "ctx \<Rightarrow> val \<Rightarrow> val \<Rightarrow> hit list res list"
  assumes sel_steps: "sel c r v m = runSteps (steps c r v) m"
begin

lemma sel_found:
  assumes "sel c r v m = Inr fs" and "f \<in> set fs"
  shows "\<exists>k x ms. m k x = Inr ms \<and> f \<in> set ms"
proof -
  have "concatM (\<lambda>s. bindr s (concatM (\<lambda>(k, x). m k x))) (steps c r v) = Inr fs"
    using assms(1) by (simp add: sel_steps runSteps_def)
  from concatM_set [OF this assms(2)] obtain s zs where
    s: "s \<in> set (steps c r v)" "bindr s (concatM (\<lambda>(k, x). m k x)) = Inr zs" "f \<in> set zs" by blast
  then obtain hs where "concatM (\<lambda>(k, x). m k x) hs = Inr zs" by (auto simp: bindr_Inr_iff)
  from concatM_set [OF this s(3)] show ?thesis by auto
qed

text \<open>What the matcher is called on, with a matcher that records its calls.\<close>

lemma sel_recorded:
  assumes "steps c r v = map Inr hss"
  shows "sel c r v (\<lambda>k x. Inr [([k], x)]) = Inr (map (\<lambda>(k, x). ([k], x)) (concat hss))"
proof -
  have "concatM (\<lambda>(k, x). Inr [([k], x)]) hs = Inr (map (\<lambda>(k, x). ([k], x)) hs)" for hs :: "hit list"
    by (induction hs) auto
  then show ?thesis
    unfolding sel_steps runSteps_def assms by (induction hss) (auto simp: concatM_map)
qed

end

section \<open>The selectors of the package\<close>

definition starSteps :: "ctx \<Rightarrow> val \<Rightarrow> val \<Rightarrow> hit list res list" where
  "starSteps c r v = map (\<lambda>(k, x). Inr [(VStr k, x)]) (children v)"

interpretation star: branching starSelector starSteps
  by unfold_locales
    (simp add: starSelector_def visitAll_children runSteps_def starSteps_def concatM_map split_def)

definition multiSteps :: "gvalEval \<Rightarrow> evaluable list \<Rightarrow> ctx \<Rightarrow> val \<Rightarrow> val \<Rightarrow> hit list res list" where
  "multiSteps g keys c r v =
     (if keys = [] then starSteps c r v
      else map (\<lambda>k. onErr (selectValue g c k r v) (\<lambda>_. Inr [])
                    (\<lambda>(e, w). Inr (if IsUndefined e then [] else [(VStr w, e)]))) keys)"

lemma onErr_bindr: "bindr (onErr m (\<lambda>_. Inr []) f) h = onErr m (\<lambda>_. h []) (\<lambda>x. bindr (f x) h)"
  by (auto simp: onErr_def split: sum.splits fail.splits)

interpretation multi: branching "multiSelector g keys" "multiSteps g keys" for g keys
proof
  fix c r v m
  show "multiSelector g keys c r v m = runSteps (multiSteps g keys c r v) m"
  proof (cases "keys = []")
    case True
    then show ?thesis by (simp add: multiSelector_def multiSteps_def star.sel_steps)
  next
    case False
    then show ?thesis
      by (auto simp: multiSelector_def multiSteps_def runSteps_def concatM_map onErr_bindr
          intro!: concatM_cong onErr_cong)
  qed
qed

definition filterSteps :: "gvalEval \<Rightarrow> evaluable \<Rightarrow> ctx \<Rightarrow> val \<Rightarrow> val \<Rightarrow> hit list res list" where
  "filterSteps g flt c r v = map (\<lambda>(k, x). onErr (EvalBool g flt (currentContext c x) r) (\<lambda>_. Inr [])
     (\<lambda>b. Inr (if b then [(VStr k, x)] else []))) (children v)"

interpretation filter_sel: branching "filterSelector g flt" "filterSteps g flt" for g flt
  by unfold_locales
    (auto simp: filterSelector_def visitAll_children runSteps_def filterSteps_def concatM_map onErr_bindr split_def
      intro!: concatM_cong onErr_cong)

subsection \<open>The mapper\<close>

text \<open>A value and everything below it, each with the keys that lead to it.\<close>

function descendants :: "val \<Rightarrow> (string list \<times> val) list" where
  "descendants v = ([], v) #
     concat (map (\<lambda>(k, e). map (\<lambda>(ks, x). (k # ks, x)) (descendants e)) (children v))"
  by pat_completeness auto
termination
  by (relation "measure size") (auto simp: size_children)

declare descendants.simps [simp del]

lemma concatM_concat: "concatM f (concat xss) = concatM (\<lambda>xs. concatM f xs) xss"
  by (induction xss) (auto simp: concatM_append)

lemma mapper_descendants: "mapper c r v m = concatM (\<lambda>(ks, x). m (VArr (map VStr ks)) x) (descendants v)"
proof (induction v arbitrary: m rule: descendants.induct)
  case (1 v)
  have "visitAll v (\<lambda>k x. mapper c r x (\<lambda>key y. m (VArr ([VStr k] @ (case key of VArr ks \<Rightarrow> ks | _ \<Rightarrow> []))) y)) =
    concatM (\<lambda>(ks, x). m (VArr (map VStr ks)) x)
      (concat (map (\<lambda>(k, e). map (\<lambda>(ks, x). (k # ks, x)) (descendants e)) (children v)))"
    unfolding visitAll_children concatM_concat concatM_map
    by (rule concatM_cong [OF refl]) (auto simp: 1 concatM_map split_def intro!: concatM_cong)
  then show ?case
    by (subst mapper.simps, subst descendants.simps) simp
qed

definition mapperSteps :: "ctx \<Rightarrow> val \<Rightarrow> val \<Rightarrow> hit list res list" where
  "mapperSteps c r v = map (\<lambda>(ks, x). Inr [(VArr (map VStr ks), x)]) (descendants v)"

interpretation mapper_sel: branching mapperSelector mapperSteps
  by unfold_locales
    (simp add: mapperSelector_def mapper_descendants runSteps_def mapperSteps_def concatM_map split_def)

text \<open>Following keys one by one.\<close>

fun follow :: "val \<Rightarrow> string list \<Rightarrow> val option" where
  "follow v [] = Some v"
| "follow v (k # ks) = (case map_of (children v) k of None \<Rightarrow> None | Some e \<Rightarrow> follow e ks)"

lemma children_wf:
  assumes "wfVal v"
  shows "distinct (map fst (children v))" "(k, e) \<in> set (children v) \<Longrightarrow> wfVal e"
proof -
  show "distinct (map fst (children v))"
  proof (cases v)
    case (VArr xs)
    have "map fst (children v) = map (\<lambda>i. itoa (int i)) [0..<length xs]"
      by (rule nth_equalityI) (auto simp: VArr nth_enumerate_eq)
    then show ?thesis by (simp add: distinct_map inj_on_def itoa_inject)
  qed (use assms in auto)
  show "wfVal e" if "(k, e) \<in> set (children v)"
    using that assms by (cases v) (auto simp: list_all_iff enumerate_eq_zip dest: set_zip_rightD)
qed

lemma descendants_iff: "wfVal v \<Longrightarrow> (ks, x) \<in> set (descendants v) \<longleftrightarrow> follow v ks = Some x"
proof (induction v arbitrary: ks x rule: descendants.induct)
  case (1 v)
  note wf = children_wf [OF "1.prems"]
  show ?case
  proof (cases ks)
    case Nil
    then show ?thesis by (subst descendants.simps) auto
  next
    case (Cons k ks')
    have mem: "(k, e) \<in> set (children v) \<longleftrightarrow> map_of (children v) k = Some e" for e
      using map_of_eq_Some_iff [OF wf(1)] by simp
    have "(ks, x) \<in> set (descendants v) \<longleftrightarrow> (\<exists>e. (k, e) \<in> set (children v) \<and> (ks', x) \<in> set (descendants e))"
      by (subst descendants.simps) (force simp: Cons)
    also have "\<dots> \<longleftrightarrow> (\<exists>e. (k, e) \<in> set (children v) \<and> follow e ks' = Some x)"
      using "1.IH" wf(2) by blast
    also have "\<dots> \<longleftrightarrow> follow v ks = Some x"
      unfolding mem by (auto simp: Cons split: option.splits)
    finally show ?thesis .
  qed
qed

lemma distinct_descendants: "wfVal v \<Longrightarrow> distinct (map fst (descendants v))"
proof (induction v rule: descendants.induct)
  case (1 v)
  note wf = children_wf [OF "1.prems"]
  have "distinct (map fst (concat (map (\<lambda>(k, e). map (\<lambda>(ks, x). (k # ks, x)) (descendants e)) xs)))"
    if "distinct (map fst xs)" "set xs \<subseteq> set (children v)" for xs
    using that
  proof (induction xs)
    case (Cons p xs)
    obtain k e where p: "p = (k, e)" by (cases p)
    have "distinct (map fst (descendants e))"
      by (rule "1.IH" [of p k e]) (use Cons.prems wf(2) [of k e] p in simp_all)
    then have "distinct (map (Cons k) (map fst (descendants e)))"
      by (subst distinct_map) simp
    moreover have "map fst (map (\<lambda>(ks, x). (k # ks, x)) (descendants e)) = map (Cons k) (map fst (descendants e))"
      by (simp add: split_def)
    ultimately have "distinct (map fst (map (\<lambda>(ks, x). (k # ks, x)) (descendants e)))" by (simp only:)
    then show ?case using Cons p by (auto simp: split_def) (metis fst_conv imageI)
  qed simp
  from this [OF wf(1)] show ?case by (subst descendants.simps) (auto simp: split_def)
qed

text \<open>
  C29: recursive descent. On a value whose maps have unique keys, the mapper presents the value
  itself and everything below it, each exactly once and under exactly the list of keys that
  leads to it.
\<close>

theorem mapper_complete:
  assumes "wfVal v"
  shows "\<exists>ms. mapper c r v (\<lambda>k x. Inr [([k], x)]) = Inr ms \<and> distinct (map fst ms) \<and>
    set ms = {([VArr (map VStr ks)], x) | ks x. follow v ks = Some x}"
proof -
  let ?f = "\<lambda>(ks :: string list, x). ([VArr (map VStr ks)], x :: val)"
  have "mapper c r v (\<lambda>k x. Inr [([k], x)]) = Inr (map ?f (descendants v))"
    using mapper_sel.sel_recorded [of c r v "map (\<lambda>(ks, x). [(VArr (map VStr ks), x)]) (descendants v)"]
    by (simp add: mapperSelector_def mapperSteps_def split_def o_def)
  moreover have "map fst (map ?f (descendants v)) = map (\<lambda>ks. [VArr (map VStr ks)]) (map fst (descendants v))"
    by (simp add: split_def)
  moreover have "inj_on (\<lambda>ks. [VArr (map VStr ks)]) A" for A
    by (auto simp: inj_on_def dest: map_injective)
  ultimately show ?thesis
    using distinct_descendants [OF assms] descendants_iff [OF assms]
    by (intro exI [of _ "map ?f (descendants v)"]) (force simp: distinct_map simp del: map_map)
qed

lemma mapper_complete_witness:
  "\<exists>ms. mapper background VNil (VObj [(''a'', VArr [VStr ''x''])]) (\<lambda>k x. Inr [([k], x)]) = Inr ms \<and>
     ([VArr [VStr ''a'', VStr ''0'']], VStr ''x'') \<in> set ms"
proof -
  have "wfVal (VObj [(''a'', VArr [VStr ''x''])])" by simp
  from mapper_complete [OF this, of background VNil] obtain ms where
    ms: "mapper background VNil (VObj [(''a'', VArr [VStr ''x''])]) (\<lambda>k x. Inr [([k], x)]) = Inr ms"
      "set ms = {([VArr (map VStr ks)], x) | ks x. follow (VObj [(''a'', VArr [VStr ''x''])]) ks = Some x}"
    by blast
  have "follow (VObj [(''a'', VArr [VStr ''x''])]) [''a'', ''0''] = Some (VStr ''x'')"
    by (simp add: itoa_def dec.simps digitChar_def)
  then have "([VArr (map VStr [''a'', ''0''])], VStr ''x'') \<in> set ms" unfolding ms(2) by blast
  with ms(1) show ?thesis by auto
qed

section \<open>Ranges\<close>

text \<open>The indices an ascending or a descending range visits.\<close>

function upFrom :: "int \<Rightarrow> int \<Rightarrow> int \<Rightarrow> int list" where
  "upFrom i mx step = (if 0 < step \<and> i < mx then i # upFrom (i + step) mx step else [])"
  by pat_completeness auto
termination by (relation "measure (\<lambda>(i, mx, step). nat (mx - i))") auto

function downFrom :: "int \<Rightarrow> int \<Rightarrow> int \<Rightarrow> int list" where
  "downFrom i mn step = (if step < 0 \<and> mn \<le> i then i # downFrom (i + step) mn step else [])"
  by pat_completeness auto
termination by (relation "measure (\<lambda>(i, mn, step). nat (i - mn + 1))") auto

declare upFrom.simps [simp del] downFrom.simps [simp del]

lemma set_upFrom: "0 < step \<Longrightarrow> set (upFrom i mx step) = {j. i \<le> j \<and> j < mx \<and> step dvd (j - i)}"
proof (induction i mx step rule: upFrom.induct)
  case (1 i mx step)
  show ?case
  proof (cases "i < mx")
    case False
    then show ?thesis by (subst upFrom.simps) auto
  next
    case True
    have "(i \<le> j \<and> j < mx \<and> step dvd (j - i)) \<longleftrightarrow> j = i \<or> (i + step \<le> j \<and> j < mx \<and> step dvd (j - (i + step)))" for j
    proof -
      have "step dvd (j - (i + step)) \<longleftrightarrow> step dvd (j - i)"
        by (metis add_diff_cancel_left' diff_diff_eq dvd_diff_left_iff dvd_refl)
      moreover have "i + step \<le> j" if "i < j" "step dvd (j - i)"
        using that zdvd_imp_le [of step "j - i"] by simp
      ultimately show ?thesis using True "1.prems" by auto
    qed
    then show ?thesis
      using "1.IH" True "1.prems" by (subst upFrom.simps) auto
  qed
qed

lemma downFrom_mirror: "downFrom i mn step = map uminus (upFrom (- i) (1 - mn) (- step))"
proof (induction i mn step rule: downFrom.induct)
  case (1 i mn step)
  then show ?case by (subst downFrom.simps, subst upFrom.simps) auto
qed

lemma set_downFrom: "step < 0 \<Longrightarrow> set (downFrom i mn step) = {j. mn \<le> j \<and> j \<le> i \<and> step dvd (i - j)}"
proof -
  assume "step < 0"
  then have "set (downFrom i mn step) = uminus ` {j. - i \<le> j \<and> j < 1 - mn \<and> - step dvd (j - (- i))}"
    by (simp add: downFrom_mirror set_upFrom)
  also have "\<dots> = {j. mn \<le> j \<and> j \<le> i \<and> step dvd (i - j)}"
  proof (intro equalityI subsetI)
    fix j assume "j \<in> {j. mn \<le> j \<and> j \<le> i \<and> step dvd (i - j)}"
    then show "j \<in> uminus ` {j. - i \<le> j \<and> j < 1 - mn \<and> - step dvd (j - (- i))}"
      by (intro image_eqI [of _ _ "- j"]) auto
  qed (auto simp: add.commute)
  finally show ?thesis .
qed

lemma rangeUp_indices:
  "0 < step \<Longrightarrow> int (length cs) + step < 2 ^ 63 \<Longrightarrow> mx \<le> int (length cs) \<Longrightarrow> 0 \<le> i \<Longrightarrow>
   rangeUp cs i mx step m = concatM (\<lambda>j. m (VStr (itoa j)) (cs ! nat j)) (upFrom i mx step)"
proof (induction i mx step rule: upFrom.induct)
  case (1 i mx step)
  show ?case
  proof (cases "i < mx")
    case False
    then show ?thesis using 1 by (subst rangeUp.simps, subst upFrom.simps) simp
  next
    case True
    then have "wrap64 (i + step) = i + step" using "1.prems" by (intro wrap64_id) auto
    then show ?thesis
      using 1 True by (subst rangeUp.simps, subst upFrom.simps) simp
  qed
qed

lemma rangeDown_indices:
  "step < 0 \<Longrightarrow> - (2 ^ 63) \<le> step \<Longrightarrow> int (length cs) < 2 ^ 63 \<Longrightarrow> 0 \<le> mn \<Longrightarrow> i < int (length cs) \<Longrightarrow>
   rangeDown cs i mn step m = concatM (\<lambda>j. m (VStr (itoa j)) (cs ! nat j)) (downFrom i mn step)"
proof (induction i mn step rule: downFrom.induct)
  case (1 i mn step)
  show ?case
  proof (cases "mn \<le> i")
    case False
    then show ?thesis using 1 by (subst rangeDown.simps, subst downFrom.simps) simp
  next
    case True
    then have "wrap64 (i + step) = i + step" using "1.prems" by (intro wrap64_id) auto
    then show ?thesis
      using 1 True by (subst rangeDown.simps, subst downFrom.simps) simp
  qed
qed

lemma concatM_record:
  "concatM (\<lambda>j. Inr [([VStr (itoa j)], cs ! nat j)]) js = Inr (map (\<lambda>j. ([VStr (itoa j)], cs ! nat j)) js)"
  by (induction js) auto

lemma negmax_bounds: "0 \<le> n \<Longrightarrow> 0 \<le> negmax k n \<and> negmax k n \<le> n"
  by (auto simp: negmax_def)

definition rangeIndices :: "int \<Rightarrow> int \<Rightarrow> int \<Rightarrow> int \<Rightarrow> int list" where
  "rangeIndices mn mx st n =
     (if mx < mn then []
      else if st < 0 then downFrom (negmax mx n - 1) (negmax mn n) st
      else upFrom (negmax mn n) (negmax mx n) (if st = 0 then 1 else st))"

text \<open>
  C30: a range \<open>[min:max:step]\<close> over an array, whose bounds evaluate and whose step is not so
  large that the index overflows, presents exactly the elements whose index lies between the
  bounds (negative bounds counted from the end, then both cut to the array) and differs from the
  first one by a multiple of the step, in ascending order for a positive step and in descending
  order for a negative one; no index is out of range. A minimum above the maximum, compared
  before either is counted from the end, selects nothing: \<open>[1:-1]\<close> is empty.
\<close>

theorem rangeSelector_slice:
  assumes "EvalInt g emin (currentContext c (VArr cs)) r = Inr mn"
    and "EvalInt g emax (currentContext c (VArr cs)) r = Inr mx"
    and "EvalInt g estep (currentContext c (VArr cs)) r = Inr st"
    and "int (length cs) + (if st = 0 then 1 else st) < 2 ^ 63" and "int (length cs) < 2 ^ 63" and "- (2 ^ 63) \<le> st"
  shows "rangeSelector g emin emax estep c r (VArr cs) (\<lambda>k x. Inr [([k], x)]) =
      Inr (map (\<lambda>j. ([VStr (itoa j)], cs ! nat j)) (rangeIndices mn mx st (int (length cs)))) \<and>
    set (rangeIndices mn mx st (int (length cs))) =
      (if mx < mn then {}
       else if st < 0 then {j. negmax mn (int (length cs)) \<le> j \<and> j < negmax mx (int (length cs)) \<and> st dvd (negmax mx (int (length cs)) - 1 - j)}
       else {j. negmax mn (int (length cs)) \<le> j \<and> j < negmax mx (int (length cs)) \<and> (if st = 0 then 1 else st) dvd (j - negmax mn (int (length cs)))}) \<and>
    set (rangeIndices mn mx st (int (length cs))) \<subseteq> {0..<int (length cs)} \<and> rangeIndices 1 (-1) st (int (length cs)) = []"
proof -
  let ?n = "int (length cs)"
  note b = negmax_bounds [of ?n mn] negmax_bounds [of ?n mx]
  have sel: "rangeSelector g emin emax estep c r (VArr cs) (\<lambda>k x. Inr [([k], x)]) =
      concatM (\<lambda>j. Inr [([VStr (itoa j)], cs ! nat j)]) (rangeIndices mn mx st ?n)"
    using assms b
    by (auto simp: rangeSelector_def rangeIndices_def Let_def rangeUp_indices rangeDown_indices)
  have indices: "set (rangeIndices mn mx st ?n) =
      (if mx < mn then {}
       else if st < 0 then {j. negmax mn ?n \<le> j \<and> j < negmax mx ?n \<and> st dvd (negmax mx ?n - 1 - j)}
       else {j. negmax mn ?n \<le> j \<and> j < negmax mx ?n \<and> (if st = 0 then 1 else st) dvd (j - negmax mn ?n)})"
    by (auto simp: rangeIndices_def set_upFrom set_downFrom)
  moreover have "set (rangeIndices mn mx st ?n) \<subseteq> {0..<?n}"
    unfolding indices using b by auto
  moreover have "rangeIndices 1 (-1) st ?n = []" by (simp add: rangeIndices_def)
  ultimately show ?thesis unfolding sel concatM_record by simp
qed

text \<open>Integer constants as gval evaluates them.\<close>

definition constGval :: gvalEval where
  "constGval = \<lparr>EvalString = \<lambda>k c v. bindr (k c v) (\<lambda>x. Inr (fmtV x)),
     EvalInt = \<lambda>k c v. bindr (k c v) (\<lambda>x. case x of VInt i \<Rightarrow> Inr i | _ \<Rightarrow> Inl (GoErr ''expected number'')),
     EvalBool = \<lambda>k c v. bindr (k c v) (\<lambda>x. case x of VBool b \<Rightarrow> Inr b | _ \<Rightarrow> Inl (GoErr ''expected bool''))\<rparr>"

lemma rangeSelector_slice_witness:
  "rangeSelector constGval (Const (VInt (-3))) (Const (VInt 9)) (Const (VInt 2)) background VNil
     (VArr [VStr ''a'', VStr ''b'', VStr ''c'', VStr ''d'']) (\<lambda>k x. Inr [([k], x)]) =
   Inr [([VStr ''1''], VStr ''b''), ([VStr ''3''], VStr ''d'')]"
  using rangeSelector_slice [of constGval "Const (VInt (-3))" background "[VStr ''a'', VStr ''b'', VStr ''c'', VStr ''d'']"
      VNil "-3" "Const (VInt 9)" 9 "Const (VInt 2)" 2]
  by (simp add: constGval_def Const_def rangeIndices_def negmax_def upFrom.simps itoa_def dec.simps digitChar_def)

text \<open>
  A step so large that the index overflows makes an ascending range panic: past the first
  element at index i > 0, \<open>i + step\<close> wraps to a negative number, which is below the maximum and
  is used as an index.
\<close>

lemma rangeUp_overflow_panics:
  assumes "0 \<le> i" and "i < mx" and "mx \<le> int (length cs)" and "int (length cs) < 2 ^ 63"
    and "step < 2 ^ 63" and "2 ^ 63 \<le> i + step"
  shows "rangeUp cs i mx step m =
    bindr (m (VStr (itoa i)) (cs ! nat i)) (\<lambda>_. Inl (indexPanic (i + step - 2 ^ 64)))"
proof -
  have "signed_take_bit 63 (i + step) = signed_take_bit 63 (i + step - 2 ^ 64)"
    by (simp add: signed_take_bit_eq_iff_take_bit_eq take_bit_eq_mod)
  also have "\<dots> = i + step - 2 ^ 64"
    using assms by (intro signed_take_bit_int_eq_self) auto
  finally have w: "wrap64 (i + step) = i + step - 2 ^ 64" by (simp add: wrap64_def)
  have neg: "i + step - 2 ^ 64 < 0" and pos: "0 < step" using assms by auto
  have "rangeUp cs (i + step - 2 ^ 64) mx step m = Inl (indexPanic (i + step - 2 ^ 64))"
    using assms neg pos by (subst rangeUp.simps) simp
  then show ?thesis
    using assms pos w by (subst rangeUp.simps) simp
qed

lemma rangeUp_overflow_panics_witness:
  "rangeUp [VNil, VNil] 1 2 9223372036854775807 (\<lambda>k x. Inr []) = Inl (indexPanic (- 9223372036854775808))"
  using rangeUp_overflow_panics [of 1 2 "[VNil, VNil]" 9223372036854775807 "\<lambda>k x. Inr []"] by simp

section \<open>Wildcard keys\<close>

definition isBranching :: "ambiguousSelector \<Rightarrow> bool" where
  "isBranching sel \<longleftrightarrow> (\<exists>steps. branching sel steps)"

lemma runSteps_Cons: "runSteps (s # ss) m = bindr (bindr s (concatM (\<lambda>(k, x). m k x))) (\<lambda>a. bindr (runSteps ss m) (\<lambda>b. Inr (a @ b)))"
  by (simp add: runSteps_def)

lemma steps_Cons:
  assumes "\<exists>ss. \<forall>m. f m = runSteps ss m"
  shows "\<exists>ss. \<forall>m. bindr (m k x) (\<lambda>a. bindr (f m) (\<lambda>b. Inr (a @ b))) = runSteps ss m"
proof -
  obtain ss where "\<forall>m. f m = runSteps ss m" using assms by blast
  moreover have "concatM (\<lambda>(k, x). m k x) [(k, x)] = m k x" for m :: ambiguousMatcher
    by (cases "m k x") auto
  ultimately have "\<forall>m. bindr (m k x) (\<lambda>a. bindr (f m) (\<lambda>b. Inr (a @ b))) = runSteps (Inr [(k, x)] # ss) m"
    by (simp add: runSteps_Cons)
  then show ?thesis by blast
qed

lemma steps_Nil: "\<exists>ss. \<forall>m. Inr [] = runSteps ss m"
  by (rule exI [of _ "[]"]) (simp add: runSteps_def)

lemma steps_panic: "\<exists>ss. \<forall>m. Inl e = runSteps ss m"
  by (rule exI [of _ "[Inl e]"]) (simp add: runSteps_def)

lemma steps_if:
  "\<exists>ss. \<forall>m. f m = runSteps ss m \<Longrightarrow> \<exists>ss. \<forall>m. g m = runSteps ss m \<Longrightarrow>
     \<exists>ss. \<forall>m. (if b then f m else g m) = runSteps ss m"
  by (cases b) auto

lemmas steps_intros = steps_if steps_Nil steps_panic

text \<open>The loops, by induction on their distance from the end.\<close>

lemma rangeUp_steps: "\<exists>ss. \<forall>m. rangeUp cs i mx step m = runSteps ss m"
proof (induction "nat (if i < 0 then 0 else int (length cs) + 1 - i)" arbitrary: i rule: less_induct)
  case less
  show ?case
  proof (cases "0 < step \<and> step < 2 ^ 63 \<and> int (length cs) < 2 ^ 63 \<and> i < mx \<and> 0 \<le> i \<and> i < int (length cs)")
    case True
    have "wrap64 (i + step) = i + step \<or> wrap64 (i + step) < 0"
      using True wrap64_overflow [of "i + step"] by (cases "i + step < 2 ^ 63") (auto simp: wrap64_id)
    then have "nat (if wrap64 (i + step) < 0 then 0 else int (length cs) + 1 - wrap64 (i + step)) <
        nat (if i < 0 then 0 else int (length cs) + 1 - i)" using True by auto
    from steps_Cons [OF less [OF this]] show ?thesis
      using True by (subst rangeUp.simps) simp
  next
    case False
    then have "rangeUp cs i mx step m =
        (if \<not> (0 < step \<and> step < 2 ^ 63 \<and> int (length cs) < 2 ^ 63) then Inr []
         else if i < mx then Inl (indexPanic i) else Inr [])" for m
      by (subst rangeUp.simps) auto
    then show ?thesis by (simp only:) (intro steps_intros)
  qed
qed

lemma rangeDown_steps: "\<exists>ss. \<forall>m. rangeDown cs i mn step m = runSteps ss m"
proof (induction "nat (i + 1)" arbitrary: i rule: less_induct)
  case less
  show ?case
  proof (cases "step < 0 \<and> - (2 ^ 63) \<le> step \<and> int (length cs) < 2 ^ 63 \<and> mn \<le> i \<and> 0 \<le> i \<and> i < int (length cs)")
    case True
    then have "nat (wrap64 (i + step) + 1) < nat (i + 1)" by (simp add: wrap64_id)
    from steps_Cons [OF less [OF this]] show ?thesis
      using True by (subst rangeDown.simps) simp
  next
    case False
    then have "rangeDown cs i mn step m =
        (if \<not> (step < 0 \<and> - (2 ^ 63) \<le> step \<and> int (length cs) < 2 ^ 63) then Inr []
         else if mn \<le> i then Inl (indexPanic i) else Inr [])" for m
      by (subst rangeDown.simps) auto
    then show ?thesis by (simp only:) (intro steps_intros)
  qed
qed

lemma onErr_steps:
  "(\<And>x. \<exists>ss. \<forall>m. f x m = runSteps ss m) \<Longrightarrow> \<exists>ss. \<forall>m. onErr a (\<lambda>_. Inr []) (\<lambda>x. f x m) = runSteps ss m"
  using steps_Nil steps_panic by (cases a; auto simp: onErr_def split: fail.splits)

lemma isBranching_range: "isBranching (rangeSelector g emin emax estep)"
proof -
  have "\<exists>ss. \<forall>m. rangeSelector g emin emax estep c r v m = runSteps ss m" for c r v
  proof (cases v)
    case (VArr cs)
    then show ?thesis unfolding rangeSelector_def Let_def val.case
      by (simp only: val.case) (intro onErr_steps steps_intros rangeUp_steps rangeDown_steps)
  qed (simp_all add: rangeSelector_def steps_Nil)
  then obtain steps where "\<And>c r v m. rangeSelector g emin emax estep c r v m = runSteps (steps c r v) m"
    by metis
  then show ?thesis unfolding isBranching_def by (intro exI [of _ steps]) unfold_locales
qed

lemmas isBranching_selectors =
  star.branching_axioms multi.branching_axioms filter_sel.branching_axioms mapper_sel.branching_axioms

fun branchingPath :: "path \<Rightarrow> bool" where
  "branchingPath (Plain p) = True"
| "branchingPath (Ambiguous parent branch ending) = (branchingPath parent \<and> isBranching branch)"

fun wildcards :: "path \<Rightarrow> nat" where
  "wildcards (Plain p) = 0"
| "wildcards (Ambiguous parent branch ending) = Suc (wildcards parent)"

lemma plainMatcher_found:
  "plainMatcher p c r m k x = Inr fs \<Longrightarrow> f \<in> set fs \<Longrightarrow> \<exists>y ms. m k y = Inr ms \<and> f \<in> set ms"
  by (auto simp: plainMatcher_def onErr_def split: if_splits sum.splits fail.splits)

lemma visitMatchs_found:
  "branchingPath p \<Longrightarrow> visitMatchs p c r visit = Inr fs \<Longrightarrow> f \<in> set fs \<Longrightarrow>
     \<exists>keys x ms. visit keys x = Inr ms \<and> f \<in> set ms \<and> length keys = wildcards p"
proof (induction p arbitrary: visit fs f)
  case (Plain p)
  then show ?case
    by (auto simp: onErr_def split: if_splits sum.splits fail.splits)
next
  case (Ambiguous parent branch ending)
  obtain steps where b: "branching branch steps" using Ambiguous.prems by (auto simp: isBranching_def)
  obtain keys v ms where up: "branch c r v (plainMatcher ending c r (pathMatcher_matcher visit keys)) = Inr ms"
      "f \<in> set ms" "length keys = wildcards parent"
    using Ambiguous.IH [of "\<lambda>keys v. branch c r v (plainMatcher ending c r (pathMatcher_matcher visit keys))" fs f]
      Ambiguous.prems by auto
  from branching.sel_found [OF b up(1,2)] obtain k x ms' where
    "plainMatcher ending c r (pathMatcher_matcher visit keys) k x = Inr ms'" "f \<in> set ms'" by blast
  from plainMatcher_found [OF this] obtain y ms'' where
    "visit (keys @ [k]) y = Inr ms''" "f \<in> set ms''" by (auto simp: pathMatcher_matcher_def)
  then show ?case using up(3) by (intro exI [of _ "keys @ [k]"]) auto
qed

lemma isBranching_all:
  "isBranching starSelector" "isBranching (multiSelector g keys)" "isBranching (filterSelector g flt)"
  "isBranching mapperSelector"
  unfolding isBranching_def by (rule exI, rule isBranching_selectors)+

text \<open>Every match of a path carries one wildcard key for each of its branching selectors.\<close>

lemma wildcard_keys:
  assumes "branchingPath p" and "visitMatchs p c r record_match = Inr ms" and "(keys, x) \<in> set ms"
  shows "length keys = wildcards p"
  using visitMatchs_found [OF assms] by (auto simp: record_match_def)

end
