(* ===== verification/ParseProps.thy ===== *)
theory ParseProps imports Parse JsonPathProps begin

text \<open>
  The properties of the JSONPath parser: it ends on every input, whatever fuel beyond the length of
  the input it gets; the paths it builds are made of the package's selectors; a path of dotted
  names denotes the nested member.
\<close>

section \<open>Termination\<close>

text \<open>
  What the parser needs of gval's scanner: \<open>left\<close> counts the tokens that are still to come, a token
  put back included. Scanning consumes a token unless the input is at its end, putting the last
  token back undoes a scan, and an expression has at least one token.
\<close>

definition progress :: "'g gvalParser \<Rightarrow> ('g \<Rightarrow> nat) \<Rightarrow> bool" where
  "progress G left \<longleftrightarrow>
     (\<forall>q. left (snd (gScan G q)) \<le> left q) \<and>
     (\<forall>q. fst (gScan G q) \<noteq> scannerEOF \<longrightarrow> left (snd (gScan G q)) < left q) \<and>
     (\<forall>q unit rs. left (gCamouflage G (snd (gScan G q)) unit rs) \<le> left q) \<and>
     (\<forall>w q e w' q'. gParseExpression G w q = Inr (e, w', q') \<longrightarrow> left q' < left q)"

lemma chr_neq_EOF [simp]: "chr c \<noteq> scannerEOF" "scannerIdent \<noteq> scannerEOF"
  by (simp_all add: token_defs)

lemma chr_inject [simp]: "chr a = chr b \<longleftrightarrow> a = b"
  by (simp add: chr_def)

lemma append_Parser [simp]:
  "p_Parser (appendPlainSelector s p) = p_Parser p" "p_Parser (appendAmbiguousSelector a p) = p_Parser p"
  by (simp_all add: appendPlainSelector_def appendAmbiguousSelector_def)

lemma Scan_left: "progress G left \<Longrightarrow> Scan G p = (t, p') \<Longrightarrow> left (p_Parser p') \<le> left (p_Parser p)"
  by (auto simp: Scan_def progress_def split: prod.splits) (metis snd_conv)

lemma Scan_eats:
  "progress G left \<Longrightarrow> Scan G p = (t, p') \<Longrightarrow> t \<noteq> scannerEOF \<Longrightarrow> left (p_Parser p') < left (p_Parser p)"
  by (auto simp: Scan_def progress_def split: prod.splits) (metis fst_conv snd_conv)

lemma Camouflage_left:
  "progress G left \<Longrightarrow> Scan G p = (t, p') \<Longrightarrow> left (p_Parser (Camouflage G p' unit rs)) \<le> left (p_Parser p)"
  by (auto simp: Scan_def Camouflage_def progress_def split: prod.splits) (metis snd_conv)

lemma ParseExpression_left:
  "progress G left \<Longrightarrow> ParseExpression G p = Inr (e, p') \<Longrightarrow> left (p_Parser p') < left (p_Parser p)"
  by (auto simp: ParseExpression_def progress_def bindr_Inr_iff split: prod.splits)

text \<open>Less is left after an element of a bracket.\<close>

lemma bracketKey_left:
  assumes "progress G left" "Scan G p = (t, p1)" "bracketKey G keys sep (t, p1) = Inr (keys', t', p')"
  shows "left (p_Parser p') < left (p_Parser p)"
proof (cases "t = chr CHR ''?'' \<or> t = chr CHR '':'' \<or> t = chr CHR '']'' \<and> sep = chr CHR '':''")
  case True
  then have "t \<noteq> scannerEOF" "p' = p1"
    using assms(3) by (auto simp: bracketKey_def split: if_splits)
  then show ?thesis using Scan_eats [OF assms(1,2)] by simp
next
  case False
  then obtain key p2 where "ParseExpression G (Camouflage G p1 ''jsonpath brackets'' []) = Inr (key, p2)" "Scan G p2 = (t', p')"
    using assms(3) by (auto simp: bracketKey_def bindr_Inr_iff split: prod.splits)
  then show ?thesis
    using ParseExpression_left [OF assms(1)] Camouflage_left [OF assms(1,2)] Scan_left [OF assms(1)]
    by (meson le_less_trans less_le_trans)
qed

text \<open>A turn of the bracket loop ends it, or continues after the element.\<close>

lemma parseBracket_turn:
  "(\<exists>x. \<forall>n. parseBracket (Suc n) G keys sep p = Some x) \<or>
   (\<exists>t p1 ks t' q s. Scan G p = (t, p1) \<and> bracketKey G keys sep (t, p1) = Inr (ks, t', q) \<and>
      (\<forall>n. parseBracket (Suc n) G keys sep p = parseBracket n G ks s q))"
proof -
  obtain t p1 where sc: "Scan G p = (t, p1)" by (cases "Scan G p")
  show ?thesis
  proof (cases "t = chr CHR ''*'' \<or> (\<exists>e. bracketKey G keys sep (t, p1) = Inl e)")
    case True
    then show ?thesis using sc by (intro disjI1, cases "t = chr CHR ''*''") (auto split: prod.splits)
  next
    case False
    then obtain ks t' q where key: "bracketKey G keys sep (t, p1) = Inr (ks, t', q)"
      by (cases "bracketKey G keys sep (t, p1)") auto
    let ?s = "if sep = 0 then t' else sep"
    have turn: "parseBracket (Suc n) G keys sep p =
        (if t' = chr CHR '']'' then Some (Inr (ks, ?s, q))
         else if t' = chr CHR ''?'' \<and> ks \<noteq> [] then Some (Expected G q ''JSON filter'' [chr CHR '']''])
         else if t' \<notin> {chr CHR '':'', chr CHR '','', chr CHR ''?''} then
           Some (Expected G q ''JSON bracket separator'' [chr CHR '':'', chr CHR '',''])
         else if ?s \<noteq> t' then Some (mixedError ?s t')
         else parseBracket n G ks ?s q)" for n
      using False sc key by (simp add: Let_def)
    have tail: "(\<exists>x. \<forall>n. (if b then Some y else f n) = Some x) \<or> (\<forall>n. (if b then Some y else f n) = h n)"
      if "(\<exists>x. \<forall>n. f n = Some x) \<or> (\<forall>n. f n = h n)" for b y and f h :: "nat \<Rightarrow> 'z option"
      using that by (cases b) auto
    have "(\<exists>x. \<forall>n. parseBracket (Suc n) G keys sep p = Some x) \<or>
        (\<forall>n. parseBracket (Suc n) G keys sep p = parseBracket n G ks ?s q)"
      unfolding turn by (intro tail disjI2 allI refl)
    then show ?thesis using sc key by blast
  qed
qed

lemma parseBracket_result:
  assumes "parseBracket (Suc n) G keys sep p = Some (Inr (keys', sep', p'))" and sc: "Scan G p = (t, p1)"
  shows "t = chr CHR ''*'' \<and> (\<exists>t2. Scan G p1 = (t2, p')) \<or>
    (\<exists>ks t' q s. bracketKey G keys sep (t, p1) = Inr (ks, t', q) \<and>
       (p' = q \<or> parseBracket n G ks s q = Some (Inr (keys', sep', p'))))"
proof (cases "t = chr CHR ''*''")
  case True
  obtain t2 p2 where "Scan G p1 = (t2, p2)" by (cases "Scan G p1")
  then show ?thesis using assms True by (auto simp: Expected_def split: if_splits)
next
  case False
  then obtain ks t' q where key: "bracketKey G keys sep (t, p1) = Inr (ks, t', q)"
    using assms by (cases "bracketKey G keys sep (t, p1)") auto
  then have "p' = q \<or> (\<exists>s. parseBracket n G ks s q = Some (Inr (keys', sep', p')))"
    using assms False by (auto simp: Expected_def mixedError_def Let_def split: if_splits)
  then show ?thesis using key by blast
qed

lemma parseBracket_left:
  "progress G left \<Longrightarrow> parseBracket n G keys sep p = Some (Inr (keys', sep', p')) \<Longrightarrow>
     left (p_Parser p') < left (p_Parser p)"
proof (induction n arbitrary: keys sep p)
  case (Suc n)
  obtain t p1 where sc: "Scan G p = (t, p1)" by (cases "Scan G p")
  from parseBracket_result [OF Suc.prems(2) sc] show ?case
  proof (elim disjE exE conjE)
    fix t2 assume "t = chr CHR ''*''" "Scan G p1 = (t2, p')"
    then show ?thesis using Scan_eats [OF Suc.prems(1) sc] Scan_left [OF Suc.prems(1)] by fastforce
  next
    fix ks t' q s assume "bracketKey G keys sep (t, p1) = Inr (ks, t', q)"
      and "parseBracket n G ks s q = Some (Inr (keys', sep', p'))"
    then show ?thesis using bracketKey_left [OF Suc.prems(1) sc] Suc.IH [OF Suc.prems(1)] by (meson less_trans)
  qed (use bracketKey_left [OF Suc.prems(1) sc] in blast)
qed simp

text \<open>Enough fuel, and more of it.\<close>

lemma parseBracket_enough:
  "progress G left \<Longrightarrow> left (p_Parser p) < n \<Longrightarrow> parseBracket n G keys sep p \<noteq> None"
proof (induction n arbitrary: keys sep p)
  case (Suc n)
  from parseBracket_turn [of G keys sep p] show ?case
  proof (elim disjE exE conjE)
    fix t p1 ks t' q s
    assume a: "Scan G p = (t, p1)" "bracketKey G keys sep (t, p1) = Inr (ks, t', q)"
      and turn: "\<forall>n. parseBracket (Suc n) G keys sep p = parseBracket n G ks s q"
    have "left (p_Parser q) < n" using bracketKey_left [OF Suc.prems(1) a] Suc.prems(2) by simp
    then show ?thesis using Suc.IH [OF Suc.prems(1)] turn by simp
  qed simp
qed simp

lemma parseBracket_more:
  "parseBracket n G keys sep p = Some r \<Longrightarrow> parseBracket (n + k) G keys sep p = Some r"
proof (induction n arbitrary: keys sep p)
  case (Suc n)
  from parseBracket_turn [of G keys sep p] show ?case
    by (elim disjE exE conjE) (use Suc in \<open>auto simp del: parseBracket.simps\<close>)
qed simp

lemma thenRun_enough:
  "m \<noteq> None \<Longrightarrow> (\<And>x. m = Some (Inr x) \<Longrightarrow> f x \<noteq> None) \<Longrightarrow> thenRun m f \<noteq> None"
  by (auto simp: thenRun_def split: option.splits sum.splits)

lemma thenRun_Some:
  "thenRun m f = Some r \<longleftrightarrow> (\<exists>e. m = Some (Inl e) \<and> r = Inl e) \<or> (\<exists>x. m = Some (Inr x) \<and> f x = Some r)"
  by (auto simp: thenRun_def split: option.splits sum.splits)

lemma selector_left:
  "bracketSelector g keys sep p = Inr p' \<Longrightarrow> p_Parser p' = p_Parser p"
  "mapperBracket g keys sep p = Inr p' \<Longrightarrow> p_Parser p' = p_Parser p"
  by (auto simp: bracketSelector_def mapperBracket_def Let_def split: if_splits)

text \<open>A bracket and the path after it, as \<open>parsePath\<close> and \<open>parseMapper\<close> both have them.\<close>

lemma bracket_enough:
  assumes "progress G left" "left (p_Parser p) < n"
    and "\<And>q. left (p_Parser q) < n \<Longrightarrow> parsePath n G g q \<noteq> None"
    and "\<And>keys sep q q'. sel keys sep q = Inr q' \<Longrightarrow> p_Parser q' = p_Parser q"
  shows "thenRun (parseBracket n G [] 0 p) (\<lambda>(keys, sep, p).
      thenRun (Some (sel keys sep p)) (\<lambda>p. parsePath n G g p)) \<noteq> None"
proof (intro thenRun_enough)
  show "parseBracket n G [] 0 p \<noteq> None" by (rule parseBracket_enough [OF assms(1,2)])
  fix x assume "parseBracket n G [] 0 p = Some (Inr x)"
  then have "left (p_Parser (snd (snd x))) < n"
    using parseBracket_left [OF assms(1)] assms(2) by (cases x) fastforce
  then show "(\<lambda>(keys, sep, p). thenRun (Some (sel keys sep p)) (\<lambda>p. parsePath n G g p)) x \<noteq> None"
    unfolding split_def by (intro thenRun_enough assms(3)) (simp_all add: assms(4))
qed

lemma if_not_None: "(c \<Longrightarrow> a \<noteq> None) \<Longrightarrow> (\<not> c \<Longrightarrow> b \<noteq> None) \<Longrightarrow> (if c then a else b) \<noteq> None"
  by simp

lemma parsers_enough:
  assumes "progress G left"
  shows "left (p_Parser p) < n \<Longrightarrow>
    parsePath n G g p \<noteq> None \<and> parseSelect n G g p \<noteq> None \<and> parseMapper n G g p \<noteq> None \<and> parseScript n G g p \<noteq> None"
proof (induction n arbitrary: p)
  case (Suc n)
  note path = Suc.IH [THEN conjunct1] and select = Suc.IH [THEN conjunct2, THEN conjunct1]
    and mapper = Suc.IH [THEN conjunct2, THEN conjunct2, THEN conjunct1]
    and script = Suc.IH [THEN conjunct2, THEN conjunct2, THEN conjunct2]
  obtain t p1 where sc: "Scan G p = (t, p1)" by (cases "Scan G p")
  have left: "t = chr c \<Longrightarrow> left (p_Parser p1) < n" "t = scannerIdent \<Longrightarrow> left (p_Parser p1) < n" for c
    using Scan_eats [OF assms sc] Suc.prems by auto
  have "parsePath (Suc n) G g p \<noteq> None" unfolding parsePath.simps sc Let_def prod.case
    by (intro if_not_None select script bracket_enough [OF assms _ path] selector_left(1) left) simp_all
  moreover have "parseSelect (Suc n) G g p \<noteq> None" unfolding parseSelect.simps sc Let_def prod.case
    by (intro if_not_None path mapper) (simp_all add: left)
  moreover have "parseMapper (Suc n) G g p \<noteq> None" unfolding parseMapper.simps sc Let_def prod.case
    by (intro if_not_None path script bracket_enough [OF assms _ path] selector_left(2)) (simp_all add: left)
  moreover have "parseScript (Suc n) G g p \<noteq> None" unfolding parseScript.simps
  proof (intro thenRun_enough)
    fix x assume "Some (ParseExpression G p) = Some (Inr x)"
    moreover obtain e q where x: "x = (e, q)" by (cases x)
    ultimately have e: "left (p_Parser q) < left (p_Parser p)" using ParseExpression_left [OF assms] by simp
    obtain t2 q2 where sc2: "Scan G q = (t2, q2)" by (cases "Scan G q")
    have "left (p_Parser q2) < n" using e Scan_left [OF assms sc2] Suc.prems by simp
    then show "(case x of (script, p) \<Rightarrow> let (scan, p) = Scan G p in
        if scan \<noteq> chr CHR '')'' then Some (Expected G p ''jsonpath script'' [chr CHR '')''])
        else parsePath n G g (appendPlainSelector (newScript script) p)) \<noteq> None"
      unfolding x prod.case sc2 Let_def by (intro if_not_None path) simp_all
  qed simp
  ultimately show ?case by blast
qed simp

text \<open>The order of bounded runs: the second has a result wherever the first has one, the same.\<close>

definition runLe :: "'a option \<Rightarrow> 'a option \<Rightarrow> bool" where
  "runLe a b \<longleftrightarrow> (\<forall>r. a = Some r \<longrightarrow> b = Some r)"

lemma runLe_refl: "runLe a a"
  by (simp add: runLe_def)

lemma runLe_if: "runLe a a' \<Longrightarrow> runLe b b' \<Longrightarrow> runLe (if c then a else b) (if c then a' else b')"
  by (simp add: runLe_def)

lemma runLe_thenRun: "runLe m m' \<Longrightarrow> (\<And>x. runLe (f x) (f' x)) \<Longrightarrow> runLe (thenRun m f) (thenRun m' f')"
  by (auto simp: runLe_def thenRun_Some)

lemma runLe_bracket: "runLe (parseBracket n G keys sep p) (parseBracket (n + k) G keys sep p)"
  using parseBracket_more by (auto simp: runLe_def)

lemma parsers_more:
  "runLe (parsePath n G g p) (parsePath (n + k) G g p) \<and> runLe (parseSelect n G g p) (parseSelect (n + k) G g p) \<and>
   runLe (parseMapper n G g p) (parseMapper (n + k) G g p) \<and> runLe (parseScript n G g p) (parseScript (n + k) G g p)"
proof (induction n arbitrary: p)
  case 0
  show ?case by (simp add: runLe_def)
next
  case (Suc n)
  note IH = Suc.IH [THEN conjunct1] Suc.IH [THEN conjunct2, THEN conjunct1]
    Suc.IH [THEN conjunct2, THEN conjunct2, THEN conjunct1]
    Suc.IH [THEN conjunct2, THEN conjunct2, THEN conjunct2]
  show ?case
    unfolding add_Suc parsePath.simps parseSelect.simps parseMapper.simps parseScript.simps Let_def split_def
    by (intro conjI runLe_if runLe_thenRun runLe_bracket IH runLe_refl)
qed

section \<open>Invariants of the parser\<close>

text \<open>
  An invariant of the parser's state that scanning, parsing an expression and adding one of the
  package's selectors keep is kept by all four parsers.
\<close>

definition only :: "('a \<Rightarrow> bool) \<Rightarrow> 'a res option \<Rightarrow> bool" where
  "only Q m \<longleftrightarrow> (\<forall>x. m = Some (Inr x) \<longrightarrow> Q x)"

lemma only_intros:
  "Q x \<Longrightarrow> only Q (Some (Inr x))" "only Q None" "only Q (Some (Inl e))" "only Q (Some (Expected G p u rs))"
  "(c \<Longrightarrow> only Q a) \<Longrightarrow> (\<not> c \<Longrightarrow> only Q b) \<Longrightarrow> only Q (if c then a else b)"
  "(c \<Longrightarrow> only Q (Some d)) \<Longrightarrow> (\<not> c \<Longrightarrow> only Q (Some f)) \<Longrightarrow> only Q (Some (if c then d else f))"
  by (simp_all add: only_def Expected_def)

lemma only_thenRun: "only R m \<Longrightarrow> (\<And>x. R x \<Longrightarrow> only Q (f x)) \<Longrightarrow> only Q (thenRun m f)"
  by (auto simp: only_def thenRun_Some)

locale parser_invariant =
  fixes Q :: "'g parser \<Rightarrow> bool" and G :: "'g gvalParser"
  assumes Q_Scan: "Q p \<Longrightarrow> Scan G p = (t, p') \<Longrightarrow> Q p'"
    and Q_Camouflage: "Q p \<Longrightarrow> Scan G p = (t, p') \<Longrightarrow> Q (Camouflage G p' unit rs)"
    and Q_ParseExpression: "Q p \<Longrightarrow> ParseExpression G p = Inr (e, p') \<Longrightarrow> Q p'"
    and Q_plain: "Q p \<Longrightarrow> Q (appendPlainSelector s p)"
    and Q_ambiguous: "Q p \<Longrightarrow> isBranching a \<Longrightarrow> Q (appendAmbiguousSelector a p)"
begin

lemma bracketKey_keeps:
  assumes "Q p" and sc: "Scan G p = (t, p1)" and key: "bracketKey G keys sep (t, p1) = Inr (keys', t', p')"
  shows "Q p'"
proof (cases "\<exists>k q. ParseExpression G (Camouflage G p1 ''jsonpath brackets'' []) = Inr (k, q) \<and> Scan G q = (t', p')")
  case True
  then show ?thesis using Q_Camouflage [OF assms(1) sc] Q_ParseExpression Q_Scan by blast
next
  case False
  then have "p' = p1" using key by (auto simp: bracketKey_def bindr_Inr_iff split: if_splits prod.splits)
  then show ?thesis using Q_Scan [OF assms(1) sc] by simp
qed

lemma parseBracket_keeps: "Q p \<Longrightarrow> parseBracket n G keys sep p = Some (Inr (keys', sep', p')) \<Longrightarrow> Q p'"
proof (induction n arbitrary: keys sep p)
  case (Suc n)
  obtain t p1 where sc: "Scan G p = (t, p1)" by (cases "Scan G p")
  from parseBracket_result [OF Suc.prems(2) sc] show ?case
    using Q_Scan Suc.prems(1) sc bracketKey_keeps [OF Suc.prems(1) sc] Suc.IH by blast
qed simp

lemma selectors_keep:
  "Q p \<Longrightarrow> bracketSelector g keys sep p = Inr p' \<Longrightarrow> Q p'"
  "Q p \<Longrightarrow> mapperBracket g keys sep p = Inr p' \<Longrightarrow> Q p'"
  using Q_plain Q_ambiguous isBranching_range isBranching_all
  by (auto simp: bracketSelector_def mapperBracket_def Let_def split: if_splits)

lemma bracket_keeps:
  assumes "Q p" and "\<And>q. Q q \<Longrightarrow> only Q (parsePath n G g q)"
    and "\<And>keys sep q q'. Q q \<Longrightarrow> sel keys sep q = Inr q' \<Longrightarrow> Q q'"
  shows "only Q (thenRun (parseBracket n G [] 0 p) (\<lambda>(keys, sep, p).
      thenRun (Some (sel keys sep p)) (\<lambda>p. parsePath n G g p)))"
proof (rule only_thenRun)
  show "only (\<lambda>(keys, sep, p). Q p) (parseBracket n G [] 0 p)"
    using parseBracket_keeps [OF assms(1)] by (auto simp: only_def)
  fix x :: "evaluable list \<times> rune \<times> 'g parser" assume "case x of (keys, sep, p) \<Rightarrow> Q p"
  then show "only Q (case x of (keys, sep, p) \<Rightarrow> thenRun (Some (sel keys sep p)) (\<lambda>p. parsePath n G g p))"
    unfolding split_def
    by (intro only_thenRun [of Q, OF _ assms(2)]) (use assms(3) in \<open>auto simp: only_def\<close>)
qed

lemma parsers_keep:
  "Q p \<Longrightarrow> only Q (parsePath n G g p) \<and> only Q (parseSelect n G g p) \<and>
     only Q (parseMapper n G g p) \<and> only Q (parseScript n G g p)"
proof (induction n arbitrary: p)
  case (Suc n)
  note path = Suc.IH [THEN conjunct1] and select = Suc.IH [THEN conjunct2, THEN conjunct1]
    and mapper = Suc.IH [THEN conjunct2, THEN conjunct2, THEN conjunct1]
    and script = Suc.IH [THEN conjunct2, THEN conjunct2, THEN conjunct2]
  obtain t p1 where sc: "Scan G p = (t, p1)" by (cases "Scan G p")
  note Q1 = Q_Scan [OF Suc.prems sc]
  have "only Q (parsePath (Suc n) G g p)" unfolding parsePath.simps sc Let_def prod.case
    by (intro only_intros(1,5) select script bracket_keeps [OF Q1 path selectors_keep(1)] Q1 Q_Camouflage [OF Suc.prems sc])
  moreover have "only Q (parseSelect (Suc n) G g p)" unfolding parseSelect.simps sc Let_def prod.case
    by (intro only_intros(4,5) path mapper Q_plain Q_ambiguous isBranching_all Q1)
  moreover have "only Q (parseMapper (Suc n) G g p)" unfolding parseMapper.simps sc Let_def prod.case
    by (intro only_intros(4,5) path script bracket_keeps [OF Q1 path selectors_keep(2)] Q_plain Q_ambiguous isBranching_all Q1)
  moreover have "only Q (parseScript (Suc n) G g p)" unfolding parseScript.simps
  proof (rule only_thenRun)
    show "only (\<lambda>(e, q). Q q) (Some (ParseExpression G p))"
      using Q_ParseExpression [OF Suc.prems] by (auto simp: only_def)
    fix x :: "evaluable \<times> 'g parser" assume x: "case x of (e, q) \<Rightarrow> Q q"
    obtain t2 q2 where sc2: "Scan G (snd x) = (t2, q2)" by (cases "Scan G (snd x)")
    have "Q q2" using x Q_Scan [OF _ sc2] by (auto simp: split_def)
    then show "only Q (case x of (script, p) \<Rightarrow> let (scan, p) = Scan G p in
        if scan \<noteq> chr CHR '')'' then Some (Expected G p ''jsonpath script'' [chr CHR '')''])
        else parsePath n G g (appendPlainSelector (newScript script) p))"
      unfolding split_def sc2 Let_def by (intro only_intros(4,5) path Q_plain) simp_all
  qed
  ultimately show ?case by blast
qed (simp add: only_intros)

end

text \<open>The paths under construction consist of the package's selectors.\<close>

interpretation wildcard: parser_invariant "\<lambda>p. branchingPath (p_path p)" G for G :: "'g gvalParser"
proof
  fix p p' :: "'g parser" and t e unit rs s a
  assume b: "branchingPath (p_path p)"
  show "Scan G p = (t, p') \<Longrightarrow> branchingPath (p_path p')"
    and "Scan G p = (t, p') \<Longrightarrow> branchingPath (p_path (Camouflage G p' unit rs))"
    and "ParseExpression G p = Inr (e, p') \<Longrightarrow> branchingPath (p_path p')"
    using b by (auto simp: Scan_def Camouflage_def ParseExpression_def bindr_Inr_iff split: prod.splits)
  show "branchingPath (p_path (appendPlainSelector s p))"
    using b by (cases "p_path p") (simp_all add: appendPlainSelector_def)
  show "isBranching a \<Longrightarrow> branchingPath (p_path (appendAmbiguousSelector a p))"
    using b by (simp add: appendAmbiguousSelector_def withAmbiguousSelector_def)
qed

text \<open>No parser gives tokens back beyond its own start.\<close>

lemma left_invariant: "progress G left \<Longrightarrow> parser_invariant (\<lambda>p. left (p_Parser p) \<le> m) G"
  by unfold_locales
    (auto dest: Scan_left Camouflage_left ParseExpression_left intro: order_trans)

lemma newParser_simps [simp]:
  "p_Parser (newParser q w) = q" "p_path (newParser q w) = Plain []" "p_hasWildcard (newParser q w) = w"
  by (simp_all add: newParser_def)

lemma element_enough:
  assumes pr: "progress G left" and lt: "left (p_Parser p) < n"
  shows "parseJSONObjectElement n G g hw key p \<noteq> None \<and>
    only (\<lambda>(e, q). left (p_Parser q) \<le> left (p_Parser p)) (parseJSONObjectElement n G g hw key p)"
proof (cases hw)
  case True
  obtain t p1 where sc: "Scan G (newParser (p_Parser p) (p_hasWildcard p)) = (t, p1)" by (cases "Scan G (newParser (p_Parser p) (p_hasWildcard p))")
  define start where "start = (if t = chr CHR ''@'' then appendPlainSelector currentElementSelector p1 else p1)"
  have le: "left (p_Parser start) \<le> left (p_Parser p)"
    using Scan_left [OF pr sc] by (simp add: start_def)
  then have "parsePath n G g start \<noteq> None"
    using parsers_enough [OF pr] lt by (meson le_less_trans)
  moreover have "only (\<lambda>q. left (p_Parser q) \<le> left (p_Parser p)) (parsePath n G g start)"
    using parser_invariant.parsers_keep [OF left_invariant [OF pr]] le by blast
  ultimately show ?thesis
    using True unfolding parseJSONObjectElement_def sc Let_def prod.case start_def [symmetric]
    by (auto simp: only_def thenRun_def Expected_def split: option.splits sum.splits)
next
  case False
  then show ?thesis
    using ParseExpression_left [OF pr, of p]
    by (cases "ParseExpression G p") (auto simp: parseJSONObjectElement_def only_def thenRun_def less_imp_le)
qed

lemma element_more: "runLe (parseJSONObjectElement n G g hw key p) (parseJSONObjectElement (n + k) G g hw key p)"
  unfolding parseJSONObjectElement_def Let_def split_def
  by (intro runLe_if runLe_thenRun runLe_refl parsers_more [THEN conjunct1])

lemma parseJSONObject_enough:
  assumes pr: "progress G left"
  shows "left (p_Parser p) < n \<Longrightarrow> parseJSONObject n G g evals p \<noteq> None"
proof (induction n arbitrary: evals p)
  case (Suc n)
  obtain t p1 where sc: "Scan G p = (t, p1)" by (cases "Scan G p")
  define p2 where "p2 = (Camouflage G p1 ''object'' [chr CHR '','', chr CHR ''}''])\<lparr>p_hasWildcard := Some False\<rparr>"
  have le: "left (p_Parser p2) \<le> left (p_Parser p)"
    using Camouflage_left [OF pr sc] by (simp add: p2_def)
  have elem: "thenRun (parseJSONObjectElement n G g hw key q) (\<lambda>(e, p). parseJSONObject n G g (evals @ [e]) p) \<noteq> None"
    if "left (p_Parser q) < n" for hw key q
    using element_enough [OF pr that, of g hw key] that Suc.IH
    by (intro thenRun_enough) (auto simp: only_def)
  have "left (p_Parser q') < n" if "ParseExpression G p2 = Inr (key, q)" "Scan G (q\<lparr>p_hasWildcard := w\<rparr>) = (t', q')" for key q t' q' w
    using ParseExpression_left [OF pr that(1)] Scan_left [OF pr that(2)] le Suc.prems by simp
  then have "thenRun (Some (ParseExpression G p2)) (\<lambda>(key, p). case Scan G (p\<lparr>p_hasWildcard := p_hasWildcard p1\<rparr>) of
      (colon, p') \<Rightarrow> thenRun (parseJSONObjectElement n G g (p_hasWildcard p = Some True) key p') (\<lambda>(e, p). parseJSONObject n G g (evals @ [e]) p)) \<noteq> None"
    using elem by (intro thenRun_enough) (fastforce split: prod.splits)+
  moreover have "left (p_Parser p1) < n" if "t = chr c" for c
    using Scan_eats [OF pr sc] that Suc.prems by auto
  ultimately show ?case
    unfolding parseJSONObject.simps sc Let_def prod.case p2_def
    by (intro if_not_None Suc.IH) simp_all
qed simp

lemma parseJSONObject_more: "runLe (parseJSONObject n G g evals p) (parseJSONObject (n + k) G g evals p)"
proof (induction n arbitrary: evals p)
  case (Suc n)
  show ?case unfolding add_Suc parseJSONObject.simps Let_def split_def
    by (intro runLe_if runLe_thenRun runLe_refl element_more Suc.IH)
qed (simp add: runLe_def)

lemma runLe_total:
  assumes "\<And>n. l < n \<Longrightarrow> f n \<noteq> None" and "\<And>n k. runLe (f n) (f (n + k))"
  shows "\<exists>r. \<forall>n > l :: nat. f n = Some r"
proof -
  obtain r where r: "f (Suc l) = Some r" using assms(1) by blast
  have "f n = Some r" if "l < n" for n
    using assms(2) [of "Suc l" "n - Suc l"] that r by (simp add: runLe_def)
  then show ?thesis by blast
qed

lemma parse_total_from:
  assumes "progress G left"
  shows "\<exists>r. \<forall>n > left (p_Parser p). parse n G g p = Some r"
  unfolding parse_def
proof (rule runLe_total)
  show "thenRun (parsePath n G g p) (\<lambda>p. Some (Inr (evaluate (p_path p), p))) \<noteq> None" if "left (p_Parser p) < n" for n
    using parsers_enough [OF assms that] by (intro thenRun_enough) auto
qed (intro runLe_thenRun runLe_refl parsers_more [THEN conjunct1])

text \<open>
  C27: over a scanner that makes progress, the parsers of root paths, of current paths and of JSON
  objects end on every input. Each has one result, which every fuel beyond the number of tokens
  left gives.
\<close>

theorem parse_total:
  assumes "progress G left"
  shows "(\<exists>r. \<forall>n > left q. parseRootPath n G g w q = Some r) \<and>
    (\<exists>r. \<forall>n > left q. parseCurrentPath n G g w q = Some r) \<and>
    (\<exists>r. \<forall>n > left q. parseJSONObject n G g evals (newParser q w) = Some r)"
proof (intro conjI)
  show "\<exists>r. \<forall>n > left q. parseRootPath n G g w q = Some r"
    using parse_total_from [OF assms, of "newParser q w" g] by (simp add: parseRootPath_def)
  show "\<exists>r. \<forall>n > left q. parseCurrentPath n G g w q = Some r"
    using parse_total_from [OF assms, of "appendPlainSelector currentElementSelector (newParser q w)" g]
    by (simp add: parseCurrentPath_def)
  show "\<exists>r. \<forall>n > left q. parseJSONObject n G g evals (newParser q w) = Some r"
    using parseJSONObject_enough [OF assms, of "newParser q w"] parseJSONObject_more by (intro runLe_total) simp_all
qed

subsection \<open>A scanner over a list of tokens\<close>

text \<open>
  For evaluation: the state is the last token, the rest of the list and whether the last token was
  put back; an expression is an integer literal or a placeholder, which the package's own parser
  reads.
\<close>

type_synonym listScanner = "(rune \<times> string) \<times> (rune \<times> string) list \<times> bool"

fun listScan :: "listScanner \<Rightarrow> rune \<times> listScanner" where
  "listScan (cur, rest, True) = (fst cur, (cur, rest, False))"
| "listScan (cur, [], False) = (scannerEOF, ((scannerEOF, []), [], False))"
| "listScan (cur, t # ts, False) = (fst t, (t, ts, False))"

definition listTokens :: "listScanner gvalParser" where
  "listTokens = \<lparr>gScan = listScan, gTokenText = (\<lambda>q. snd (fst q)), gExpected = (\<lambda>q unit rs. unit),
     gCamouflage = (\<lambda>(cur, rest, _) unit rs. (cur, rest, True)), gParseExpression = (\<lambda>w q. Inl (GoErr []))\<rparr>"

definition listParser :: "listScanner gvalParser" where
  "listParser = listTokens\<lparr>gParseExpression := (\<lambda>w q. case listScan q of (t, q1) \<Rightarrow>
     if t = scannerInt then Inr (Const (VInt (fst (atoi (snd (fst q1))))), w, q1)
     else if t = chr CHR ''#'' then
       bindr (parsePlaceholder listTokens id (newParser q1 w)) (\<lambda>(e, p). Inr (e, p_hasWildcard p, p_Parser p))
     else Inl (GoErr ''unexpected token''))\<rparr>"

definition listLeft :: "listScanner \<Rightarrow> nat" where
  "listLeft q = (case q of (cur, rest, again) \<Rightarrow> length rest + (if again \<and> fst cur \<noteq> scannerEOF then 1 else 0))"

definition tokens :: "(rune \<times> string) list \<Rightarrow> listScanner" where
  "tokens ts = ((scannerEOF, []), ts, False)"

lemmas list_eval = listTokens_def listParser_def listLeft_def tokens_def

lemma listScan_left:
  "listLeft (snd (listScan q)) \<le> listLeft q"
  "fst (listScan q) \<noteq> scannerEOF \<Longrightarrow> listLeft (snd (listScan q)) < listLeft q"
  "listScan q = (t, cur, rest, again) \<Longrightarrow> listLeft (cur, rest, True) \<le> listLeft q"
  by (cases q rule: listScan.cases; auto simp: listLeft_def)+

lemma listPlaceholder_left:
  assumes "parsePlaceholder listTokens uq p = Inr (e, p')"
  shows "listLeft (p_Parser p') \<le> listLeft (p_Parser p)"
proof -
  obtain t cur rest again where sc: "listScan (p_Parser p) = (t, cur, rest, again)"
    by (cases "listScan (p_Parser p)") auto
  have "p_Parser p' = (cur, rest, again) \<or> p_Parser p' = (cur, rest, True)"
    using assms sc
    by (auto simp: parsePlaceholder_def Scan_def Camouflage_def listTokens_def Let_def
        split: option.splits if_splits prod.splits)
  then show ?thesis using listScan_left(1) [of "p_Parser p"] listScan_left(3) [OF sc] sc by auto
qed

lemma listParser_progress: "progress listParser listLeft"
proof -
  have "listLeft q' < listLeft q" if "gParseExpression listParser w q = Inr (e, w', q')" for w q e w' q'
  proof -
    obtain t q1 where sc: "listScan q = (t, q1)" by (cases "listScan q")
    have "t \<noteq> scannerEOF \<and> listLeft q' \<le> listLeft q1"
      using that sc
      by (auto simp: listParser_def bindr_Inr_iff token_defs split: if_splits dest!: listPlaceholder_left)
    then show ?thesis using listScan_left(2) [of q] sc by simp
  qed
  moreover have "listLeft (gCamouflage listParser (snd (gScan listParser q)) unit rs) \<le> listLeft q" for q unit rs
  proof -
    obtain t cur rest again where sc: "listScan q = (t, cur, rest, again)" by (cases "listScan q") auto
    show ?thesis using listScan_left(3) [OF sc] by (simp add: listParser_def listTokens_def sc)
  qed
  moreover have "gScan listParser = listScan" by (simp add: listParser_def listTokens_def)
  ultimately show ?thesis using listScan_left(1,2) unfolding progress_def by simp
qed

text \<open>gval's typed readings, on strings, integers and booleans.\<close>

definition plainEval :: gvalEval where
  "plainEval = \<lparr>
     EvalString = (\<lambda>e c r. bindr (e c r) (\<lambda>v. case v of VStr s \<Rightarrow> Inr s | _ \<Rightarrow> Inl (GoErr ''expected string''))),
     EvalInt = (\<lambda>e c r. bindr (e c r) (\<lambda>v. case v of VInt i \<Rightarrow> Inr i | _ \<Rightarrow> Inl (GoErr ''expected number''))),
     EvalBool = (\<lambda>e c r. bindr (e c r) (\<lambda>v. case v of VBool b \<Rightarrow> Inr b | _ \<Rightarrow> Inl (GoErr ''expected bool'')))\<rparr>"

lemma parse_total_witness:
  "\<exists>r. \<forall>n > 2. parseRootPath n listParser plainEval None (tokens [(chr CHR ''.'', ''.''), (scannerIdent, ''a'')]) = Some r"
  using parse_total [OF listParser_progress, of "tokens [(chr CHR ''.'', ''.''), (scannerIdent, ''a'')]" plainEval None "[]"]
  by (simp add: listLeft_def tokens_def numeral_2_eq_2)

section \<open>Parsed paths\<close>

text \<open>
  C28: every match of a parsed path carries one wildcard key for each wildcard, filter, range,
  multi-key or recursive selector of the path. So in the key of a JSON object over that path,
  \<open>#i\<close> is available for each i below their number and denotes the i-th wildcard key.
\<close>

theorem parsed_path_keys:
  assumes "parsePath n G g (newParser q w) = Some (Inr p)"
    and "visitMatchs (p_path p) c r record_match = Inr ms" and "(keys, x) \<in> set ms"
  shows "length keys = wildcards (p_path p) \<and>
    (\<forall>i < wildcards (p_path p). placeholder_evaluable uq (int i) (c\<lparr>placeholders := Some keys\<rparr>) r = Inr (keys ! i))"
proof -
  have "branchingPath (p_path p)"
    using wildcard.parsers_keep [of "newParser q w" n G g] assms(1) by (simp add: only_def)
  from wildcard_keys [OF this assms(2,3)] show ?thesis
    by (simp add: placeholder_evaluable_def allPlaceholders_def)
qed

lemma parsed_path_keys_witness:
  "\<exists>p. parsePath 3 listParser plainEval (newParser (tokens [(chr CHR ''.'', ''.''), (chr CHR ''*'', ''*'')]) None) = Some (Inr p) \<and>
     placeholder_evaluable id 0 (background\<lparr>placeholders := Some [VStr ''1'']\<rparr>) (VArr [VStr ''a'', VStr ''b'']) = Inr (VStr ''1'')"
proof -
  let ?r = "VArr [VStr ''a'', VStr ''b'']"
  obtain p where p: "parsePath 3 listParser plainEval (newParser (tokens [(chr CHR ''.'', ''.''), (chr CHR ''*'', ''*'')]) None) = Some (Inr p)"
    and path: "p_path p = Ambiguous (Plain []) starSelector []"
    by (simp add: numeral_3_eq_3 Scan_def Camouflage_def list_eval newParser_def token_defs
        appendAmbiguousSelector_def withAmbiguousSelector_def)
  have run: "visitMatchs (p_path p) background ?r record_match =
      Inr [([VStr ''0''], VStr ''a''), ([VStr ''1''], VStr ''b'')]"
    by (simp add: path starSelector_def plainMatcher_def pathMatcher_matcher_def record_match_def itoa_def dec.simps digitChar_def)
  show ?thesis
    using p parsed_path_keys [OF p run, of "[VStr ''1'']" "VStr ''b''" id] by (auto simp: path)
qed

section \<open>Dotted names\<close>

text \<open>The scanner gives these tokens, with these texts, and is then at \<open>q'\<close>.\<close>

fun feeds :: "'g gvalParser \<Rightarrow> 'g \<Rightarrow> (rune \<times> string) list \<Rightarrow> 'g \<Rightarrow> bool" where
  "feeds G q [] q' = (q = q')"
| "feeds G q (t # ts) q' =
     (fst (gScan G q) = fst t \<and> gTokenText G (snd (gScan G q)) = snd t \<and> feeds G (snd (gScan G q)) ts q')"

fun dotted :: "string list \<Rightarrow> (rune \<times> string) list" where
  "dotted [] = []"
| "dotted (k # ks) = (chr CHR ''.'', ''.'') # (scannerIdent, k) # dotted ks"

text \<open>The member of a value under a name; Undefined where there is none, no value on scalars and arrays.\<close>

fun member :: "val \<Rightarrow> string \<Rightarrow> val option" where
  "member (VObj kvs) k = Some (case map_of kvs k of Some x \<Rightarrow> x | None \<Rightarrow> VUndef)"
| "member VNil k = Some VUndef"
| "member VUndef k = Some VUndef"
| "member v k = None"

fun memberPath :: "val \<Rightarrow> string list \<Rightarrow> val option" where
  "memberPath v [] = Some v"
| "memberPath v (k # ks) = Option.bind (member v k) (\<lambda>x. memberPath x ks)"

definition memberSelectors :: "gvalEval \<Rightarrow> string list \<Rightarrow> plainPath" where
  "memberSelectors g ks = map (\<lambda>k. directSelector g (Const (VStr k))) ks"

text \<open>gval reads the constant name as itself, and not as a number.\<close>

definition readsNames :: "gvalEval \<Rightarrow> string list \<Rightarrow> bool" where
  "readsNames g ks \<longleftrightarrow> (\<forall>k \<in> set ks. \<forall>c r. EvalString g (Const (VStr k)) c r = Inr k \<and>
     (\<exists>e. EvalInt g (Const (VStr k)) c r = Inl (GoErr e)))"

definition endsPath :: "'g gvalParser \<Rightarrow> 'g \<Rightarrow> bool" where
  "endsPath G q \<longleftrightarrow> fst (gScan G q) \<notin> {chr CHR ''.'', chr CHR ''['', chr CHR ''(''}"

lemma member_selected:
  "readsNames g [k] \<Longrightarrow> case member v k of
     Some x \<Rightarrow> directSelector g (Const (VStr k)) c r v = Inr x
   | None \<Rightarrow> \<exists>m. directSelector g (Const (VStr k)) c r v = Inl (GoErr m)"
proof (cases v)
  case (VArr xs)
  assume "readsNames g [k]"
  then obtain e where "EvalInt g (Const (VStr k)) (currentContext c (VArr xs)) r = Inl (GoErr e)"
    unfolding readsNames_def by fastforce
  then show ?thesis using VArr by (simp add: directSelector_def)
qed (auto simp: directSelector_def readsNames_def split: option.splits)

lemma memberPath_selected:
  "readsNames g ks \<Longrightarrow> case memberPath v ks of
     Some x \<Rightarrow> evaluatePath c r v (memberSelectors g ks) = Inr x
   | None \<Rightarrow> \<exists>m. evaluatePath c r v (memberSelectors g ks) = Inl (GoErr m)"
proof (induction ks arbitrary: v)
  case (Cons k ks)
  have names: "readsNames g [k]" "readsNames g ks" using Cons.prems by (simp_all add: readsNames_def)
  have "evaluatePath c r v (memberSelectors g (k # ks)) =
      bindr (directSelector g (Const (VStr k)) c r v) (\<lambda>x. evaluatePath c r x (memberSelectors g ks))"
    by (simp add: memberSelectors_def)
  then show ?case
    using member_selected [OF names(1), where v = v and c = c and r = r] Cons.IH [OF names(2)]
    by (cases "member v k") (auto cong: option.case_cong)
qed (simp add: memberSelectors_def)

lemma parsePath_dotted:
  "feeds G (p_Parser p) (dotted ks) q' \<Longrightarrow> endsPath G q' \<Longrightarrow> p_path p = Plain sels \<Longrightarrow>
     \<exists>p'. parsePath (Suc (2 * length ks)) G g p = Some (Inr p') \<and> p_path p' = Plain (sels @ memberSelectors g ks)"
proof (induction ks arbitrary: p sels)
  case Nil
  obtain t q where sc: "gScan G q' = (t, q)" by (cases "gScan G q'")
  with Nil show ?case
    by (auto simp: Scan_def Camouflage_def endsPath_def memberSelectors_def)
next
  case (Cons k ks)
  obtain q1 where s1: "gScan G (p_Parser p) = (chr CHR ''.'', q1)" and f1: "feeds G q1 ((scannerIdent, k) # dotted ks) q'"
    using Cons.prems(1) by (cases "gScan G (p_Parser p)") auto
  obtain q2 where s2: "gScan G q1 = (scannerIdent, q2)" and tk: "gTokenText G q2 = k" and f2: "feeds G q2 (dotted ks) q'"
    using f1 by (cases "gScan G q1") auto
  let ?p = "appendPlainSelector (directSelector g (Const (VStr k))) (p\<lparr>p_Parser := q2\<rparr>)"
  have "parsePath (Suc (2 * length (k # ks))) G g p = parsePath (Suc (2 * length ks)) G g ?p"
    by (simp add: Scan_def s1 s2 TokenText_def tk)
  moreover have "p_path ?p = Plain (sels @ [directSelector g (Const (VStr k))])"
    using Cons.prems(3) by (simp add: appendPlainSelector_def)
  from Cons.IH [OF _ Cons.prems(2) this] f2 obtain p' where
    "parsePath (Suc (2 * length ks)) G g ?p = Some (Inr p')"
    "p_path p' = Plain ((sels @ [directSelector g (Const (VStr k))]) @ memberSelectors g ks)" by auto
  ultimately show ?case by (simp add: memberSelectors_def)
qed

text \<open>
  C37: a path of dotted names, \<open>$.k1.k2\<close> and so on, parses, and what it parses to denotes the nested member of
  the document: Undefined from the first missing member on (also below nil), and an error where a
  name is looked up in an array, a string, a number or a boolean.
\<close>

theorem dotted_path:
  assumes "feeds G q (dotted ks) q'" and "endsPath G q'" and "readsNames g ks"
  shows "\<exists>e p. (\<forall>n > 2 * length ks. parseRootPath n G g w q = Some (Inr (e, p))) \<and>
    (\<forall>c v. case memberPath v ks of Some x \<Rightarrow> e c v = Inr x | None \<Rightarrow> (\<exists>m. e c v = Inl (GoErr m)))"
proof -
  obtain p where p: "parsePath (Suc (2 * length ks)) G g (newParser q w) = Some (Inr p)"
      "p_path p = Plain (memberSelectors g ks)"
    using parsePath_dotted [of G "newParser q w" ks q' "[]" g] assms(1,2) by auto
  have "parseRootPath n G g w q = Some (Inr (evaluate (p_path p), p))" if "2 * length ks < n" for n
    using parsers_more [THEN conjunct1, of "Suc (2 * length ks)" G g "newParser q w" "n - Suc (2 * length ks)"] p(1) that
    by (simp add: runLe_def parseRootPath_def parse_def thenRun_def)
  moreover have "case memberPath v ks of Some x \<Rightarrow> evaluate (p_path p) c v = Inr x
      | None \<Rightarrow> (\<exists>m. evaluate (p_path p) c v = Inl (GoErr m))" for c v
    unfolding p(2) evaluate.simps by (rule memberPath_selected [OF assms(3)])
  ultimately show ?thesis by (intro exI [of _ "evaluate (p_path p)"] exI [of _ p]) blast
qed

lemma dotted_path_witness:
  "\<exists>e p. parseRootPath 5 listParser plainEval None (tokens (dotted [''a'', ''b''])) = Some (Inr (e, p)) \<and>
     e background (VObj [(''a'', VObj [(''b'', VInt 7)])]) = Inr (VInt 7)"
proof -
  have "feeds listParser (tokens (dotted [''a'', ''b''])) (dotted [''a'', ''b'']) ((scannerIdent, ''b''), [], False)"
    "endsPath listParser ((scannerIdent, ''b''), [], False)" "readsNames plainEval [''a'', ''b'']"
    by (simp_all add: list_eval endsPath_def readsNames_def plainEval_def Const_def token_defs)
  from dotted_path [OF this, of None] obtain e p where
    run: "\<forall>n > 2 * length [''a'', ''b'']. parseRootPath n listParser plainEval None (tokens (dotted [''a'', ''b''])) = Some (Inr (e, p))"
    and val: "\<forall>c v. case memberPath v [''a'', ''b''] of Some x \<Rightarrow> e c v = Inr x | None \<Rightarrow> (\<exists>m. e c v = Inl (GoErr m))"
    by blast
  have "e background (VObj [(''a'', VObj [(''b'', VInt 7)])]) = Inr (VInt 7)"
    using val [rule_format, of background "VObj [(''a'', VObj [(''b'', VInt 7)])]"] by simp
  with run [rule_format, of 5] show ?thesis by simp
qed

section \<open>Objects\<close>

text \<open>
  The parser of JSON objects accepts any token where the colon between a key and its value
  should be, and skips it: whatever \<open>colon\<close> is, the object is the one with this key and value.
\<close>

lemma parseJSONObject_any_colon:
  assumes "gScan G q = (first, q1)" and "first \<notin> {chr CHR '','', chr CHR ''}''}"
    and "gParseExpression G (Some False) (gCamouflage G q1 ''object'' [chr CHR '','', chr CHR ''}'']) = Inr (key, Some False, q2)"
    and "gScan G q2 = (colon, q3)" and "gParseExpression G w q3 = Inr (x, w', q4)"
    and "gScan G q4 = (chr CHR ''}'', q5)"
  shows "\<forall>n \<ge> 2. parseJSONObject n G g [] (newParser q w) =
    Some (Inr (jsonObjectSlice_evaluable g [KeyValuePair key x], newParser q5 w'))"
proof -
  have "parseJSONObject 2 G g [] (newParser q w) =
      Some (Inr (jsonObjectSlice_evaluable g [KeyValuePair key x], newParser q5 w'))"
    using assms by (simp add: numeral_2_eq_2 Scan_def Camouflage_def ParseExpression_def newParser_def
        parseJSONObjectElement_def thenRun_def Let_def)
  then show ?thesis
    using parseJSONObject_more [of 2 G g "[]" "newParser q w"] by (auto simp: runLe_def le_iff_add)
qed

lemma parseJSONObject_any_colon_witness:
  "parseJSONObject 2 listParser plainEval []
     (newParser (tokens [(scannerInt, ''1''), (chr CHR '';'', '';''), (scannerInt, ''2''), (chr CHR ''}'', ''}'')]) None) =
   Some (Inr (jsonObjectSlice_evaluable plainEval [KeyValuePair (Const (VInt 1)) (Const (VInt 2))],
     newParser ((chr CHR ''}'', ''}''), [], False) None))"
  by (rule parseJSONObject_any_colon [rule_format, where first = scannerInt and colon = "chr CHR '';''" and
        ?q1.0 = "((scannerInt, ''1''), [(chr CHR '';'', '';''), (scannerInt, ''2''), (chr CHR ''}'', ''}'')], False)" and
        ?q2.0 = "((scannerInt, ''1''), [(chr CHR '';'', '';''), (scannerInt, ''2''), (chr CHR ''}'', ''}'')], False)" and
        ?q3.0 = "((chr CHR '';'', '';''), [(scannerInt, ''2''), (chr CHR ''}'', ''}'')], False)" and
        ?q4.0 = "((scannerInt, ''2''), [(chr CHR ''}'', ''}'')], False)"])
    (simp_all add: list_eval token_defs atoi_def natOf_def digitVal_def isDigit_def)

end
