(* ===== verification/Reconciler.thy ===== *)
theory Reconciler imports StoreProps begin

text \<open>
  The controller (src/controllers/modrule_controller.go) and the system it runs in: the API
  server's ModRules, the work queue of changed keys and the store. A step of the system is a
  change of a rule by a user, which enqueues its key, or one run of \<open>Reconcile\<close> on a queued
  key, which leaves the queue unless the run reports an error.
\<close>

section \<open>One run\<close>

text \<open>What \<open>client.Get\<close> answered.\<close>

datatype getResult = Found modRule | NotFound | GetFailed string

text \<open>
  The store after the run and the error it returns, which makes the work queue retry. The
  error of \<open>Put\<close> is dropped.
\<close>

definition Reconcile :: "('p, 'o) env \<Rightarrow> modRuleStore \<Rightarrow> string \<times> string \<Rightarrow> getResult \<Rightarrow> (modRuleStore \<times> string option) res" where
  "Reconcile E s req got =
     (let storeNamespace = fst req in
      case got of
        NotFound \<Rightarrow> Inr (Delete s storeNamespace (snd req), None)
      | GetFailed err \<Rightarrow> Inr (s, Some err)
      | Found r \<Rightarrow> bindr (Put E s (r\<lparr>Namespace := storeNamespace\<rparr>)) (\<lambda>(s', _). Inr (s', None)))"

section \<open>The system\<close>

record sys =
  sys_store :: modRuleStore
  sys_cluster :: "string \<times> string \<rightharpoonup> modRule"
  sys_queue :: "(string \<times> string) set"

definition apiGet :: "sys \<Rightarrow> string \<times> string \<Rightarrow> getResult" where
  "apiGet \<sigma> k = (case sys_cluster \<sigma> k of None \<Rightarrow> NotFound | Some r \<Rightarrow> Found r)"

inductive sysStep :: "('p, 'o) env \<Rightarrow> sys \<Rightarrow> sys \<Rightarrow> bool" for E :: "('p, 'o) env" where
  userPut: "sysStep E \<sigma> (\<sigma>\<lparr>sys_cluster := (sys_cluster \<sigma>)((Namespace r, Name r) \<mapsto> r),
      sys_queue := insert (Namespace r, Name r) (sys_queue \<sigma>)\<rparr>)"
| userDelete: "sysStep E \<sigma> (\<sigma>\<lparr>sys_cluster := (sys_cluster \<sigma>)(k := None), sys_queue := insert k (sys_queue \<sigma>)\<rparr>)"
| reconciled: "k \<in> sys_queue \<sigma> \<Longrightarrow> Reconcile E (sys_store \<sigma>) k (apiGet \<sigma> k) = Inr (s', None) \<Longrightarrow>
    sysStep E \<sigma> (\<sigma>\<lparr>sys_store := s', sys_queue := sys_queue \<sigma> - {k}\<rparr>)"
| retried: "k \<in> sys_queue \<sigma> \<Longrightarrow> Reconcile E (sys_store \<sigma>) k (GetFailed e) = Inr (s', Some e) \<Longrightarrow>
    sysStep E \<sigma> (\<sigma>\<lparr>sys_store := s'\<rparr>)"

inductive reachable :: "('p, 'o) env \<Rightarrow> string \<Rightarrow> sys \<Rightarrow> bool" for E :: "('p, 'o) env" and cns :: string where
  start: "reachable E cns \<lparr>sys_store = NewModRuleStore cns, sys_cluster = Map.empty, sys_queue = {}\<rparr>"
| step: "reachable E cns \<sigma> \<Longrightarrow> sysStep E \<sigma> \<tau> \<Longrightarrow> reachable E cns \<tau>"

inductive_cases sysStepE: "sysStep E \<sigma> \<tau>"

section \<open>The client of the store\<close>

context rule_store begin

text \<open>
  A store, seen as a map, agrees with the wanted rule of a key. A rule that does not compile
  leaves what the store had before.
\<close>

definition agrees :: "'s \<Rightarrow> 'k \<Rightarrow> 'r option \<Rightarrow> bool" where
  "agrees s k want \<longleftrightarrow> (case want of
     None \<Rightarrow> look s k = None | Some r \<Rightarrow> (case build r of Inr i \<Rightarrow> look s k = Some i | Inl _ \<Rightarrow> True))"

lemma put_agrees: "inv s \<Longrightarrow> put s r = Inr (s', err) \<Longrightarrow> agrees s' (key r) (Some r)"
  using put_cases by (fastforce simp: agrees_def split: sum.splits)

lemma put_keeps: "inv s \<Longrightarrow> put s r = Inr (s', err) \<Longrightarrow> k \<noteq> key r \<Longrightarrow> agrees s' k w \<longleftrightarrow> agrees s k w"
  using put_frame [of s r s' err k] by (simp add: agrees_def cong: option.case_cong sum.case_cong)

lemma del_agrees: "inv s \<Longrightarrow> agrees (del s k) k None"
  by (simp add: agrees_def del_look)

lemma del_keeps: "inv s \<Longrightarrow> k' \<noteq> k \<Longrightarrow> agrees (del s k) k' w \<longleftrightarrow> agrees s k' w"
  by (simp add: agrees_def del_look cong: option.case_cong sum.case_cong)

end

section \<open>Agreement of the store with the cluster\<close>

definition inSync :: "('p, 'o) env \<Rightarrow> sys \<Rightarrow> string \<times> string \<Rightarrow> bool" where
  "inSync E \<sigma> k = (case sys_cluster \<sigma> k of
     None \<Rightarrow> lookupRule (sys_store \<sigma>) k = None
   | Some r \<Rightarrow> (case NewModRuleStoreItem E r of
        Inr i \<Rightarrow> lookupRule (sys_store \<sigma>) k = Some i | Inl _ \<Rightarrow> True))"

definition sysInv :: "('p, 'o) env \<Rightarrow> sys \<Rightarrow> bool" where
  "sysInv E \<sigma> \<longleftrightarrow> storeInv (sys_store \<sigma>) \<and> finite (sys_queue \<sigma>) \<and>
     (\<forall>k r. sys_cluster \<sigma> k = Some r \<longrightarrow> k = (Namespace r, Name r)) \<and>
     (\<forall>k. k \<notin> sys_queue \<sigma> \<longrightarrow> inSync E \<sigma> k)"

lemma inSync_frame:
  "sys_store \<tau> = sys_store \<sigma> \<Longrightarrow> sys_cluster \<tau> k = sys_cluster \<sigma> k \<Longrightarrow> inSync E \<tau> k \<longleftrightarrow> inSync E \<sigma> k"
  by (simp add: inSync_def cong: option.case_cong sum.case_cong)

lemma inSync_agrees:
  "sortsByTier E \<Longrightarrow> inSync E \<sigma> k \<longleftrightarrow> rule_store.agrees lookupRule (NewModRuleStoreItem E) (sys_store \<sigma>) k (sys_cluster \<sigma> k)"
  by (simp add: rule_store.agrees_def [OF rule_store_Put] inSync_def)

lemma Reconcile_sync:
  assumes E: "sortsByTier E" and inv: "sysInv E \<sigma>"
    and run: "Reconcile E (sys_store \<sigma>) k (apiGet \<sigma> k) = Inr (s', err)"
  shows "err = None" "storeInv s'"
    "inSync E (\<sigma>\<lparr>sys_store := s', sys_queue := q\<rparr>) k"
    "k' \<noteq> k \<Longrightarrow> inSync E (\<sigma>\<lparr>sys_store := s', sys_queue := q\<rparr>) k' \<longleftrightarrow> inSync E \<sigma> k'"
proof -
  note rs = rule_store_Put [OF E]
  have st: "storeInv (sys_store \<sigma>)" using inv by (simp add: sysInv_def)
  have "err = None \<and> storeInv s' \<and> inSync E (\<sigma>\<lparr>sys_store := s', sys_queue := q\<rparr>) k \<and>
    (k' \<noteq> k \<longrightarrow> inSync E (\<sigma>\<lparr>sys_store := s', sys_queue := q\<rparr>) k' = inSync E \<sigma> k')"
  proof (cases "sys_cluster \<sigma> k")
    case None
    then have "s' = Delete (sys_store \<sigma>) (fst k) (snd k)" "err = None"
      using run by (simp_all add: Reconcile_def apiGet_def Let_def)
    then show ?thesis
      using None st rule_store.del_agrees [OF rs st, of k] rule_store.del_keeps [OF rs st, of k' k]
      by (simp add: inSync_agrees [OF E] Delete_storeInv)
  next
    case (Some r)
    then have k: "k = (Namespace r, Name r)" using inv unfolding sysInv_def by blast
    then have "r\<lparr>Namespace := fst k\<rparr> = r" by simp
    then obtain e where put: "Put E (sys_store \<sigma>) r = Inr (s', e)" and err: "err = None"
      using run Some by (auto simp: Reconcile_def apiGet_def Let_def bindr_Inr_iff)
    show ?thesis
      using Some k err rule_store.put_inv [OF rs st put] rule_store.put_agrees [OF rs st put]
        rule_store.put_keeps [OF rs st put, of k']
      by (simp add: inSync_agrees [OF E])
  qed
  then show "err = None" "storeInv s'" "inSync E (\<sigma>\<lparr>sys_store := s', sys_queue := q\<rparr>) k"
    "k' \<noteq> k \<Longrightarrow> inSync E (\<sigma>\<lparr>sys_store := s', sys_queue := q\<rparr>) k' \<longleftrightarrow> inSync E \<sigma> k'" by simp_all
qed

lemma sysInv_step:
  assumes E: "sortsByTier E" and "sysStep E \<sigma> \<tau>" and inv: "sysInv E \<sigma>"
  shows "sysInv E \<tau>"
  using assms(2)
proof cases
  case (userPut r)
  have "inSync E \<tau> k" if "k \<notin> sys_queue \<tau>" for k
    using that inv inSync_frame [of \<tau> \<sigma> k E] by (auto simp: sysInv_def userPut simp del: split_paired_All)
  with inv show ?thesis by (auto simp: sysInv_def userPut split: if_splits)
next
  case (userDelete k)
  have "inSync E \<tau> k'" if "k' \<notin> sys_queue \<tau>" for k'
    using that inv inSync_frame [of \<tau> \<sigma> k' E] by (auto simp: sysInv_def userDelete simp del: split_paired_All)
  with inv show ?thesis by (auto simp: sysInv_def userDelete split: if_splits)
next
  case (reconciled k s')
  note R = Reconcile_sync [OF E inv reconciled(3)]
  have "inSync E \<tau> k'" if "k' \<notin> sys_queue \<tau>" for k'
    using that R(3) [where q = "sys_queue \<sigma> - {k}"] R(4) [where k' = k' and q = "sys_queue \<sigma> - {k}"] inv reconciled(1)
    by (cases "k' = k") (auto simp: sysInv_def simp del: split_paired_All)
  with R(2) inv show ?thesis by (auto simp: sysInv_def reconciled(1))
next
  case (retried k e s')
  then have "\<tau> = \<sigma>" by (simp add: Reconcile_def)
  with inv show ?thesis by simp
qed

lemma sysInv_start: "sysInv E \<lparr>sys_store = NewModRuleStore cns, sys_cluster = Map.empty, sys_queue = {}\<rparr>"
  by (simp add: sysInv_def storeInv_New inSync_def lookupRule_New)

lemma reachable_sysInv: "sortsByTier E \<Longrightarrow> reachable E cns \<sigma> \<Longrightarrow> sysInv E \<sigma>"
  by (rotate_tac, induction rule: reachable.induct) (auto simp: sysInv_start intro: sysInv_step)

section \<open>Draining the queue\<close>

lemma reconcile_one:
  assumes E: "sortsByTier E" and inv: "sysInv E \<sigma>" and k: "k \<in> sys_queue \<sigma>"
    and ok: "\<forall>k r. sys_cluster \<sigma> k = Some r \<longrightarrow> noPanic (NewModRuleStoreItem E r)"
  shows "\<exists>s'. sysStep E \<sigma> (\<sigma>\<lparr>sys_store := s', sys_queue := sys_queue \<sigma> - {k}\<rparr>)"
proof -
  have "\<exists>s' err. Reconcile E (sys_store \<sigma>) k (apiGet \<sigma> k) = Inr (s', err)"
  proof (cases "sys_cluster \<sigma> k")
    case None
    then show ?thesis by (simp add: Reconcile_def apiGet_def Let_def)
  next
    case (Some r)
    then have "k = (Namespace r, Name r)" using inv unfolding sysInv_def by blast
    then have "r\<lparr>Namespace := fst k\<rparr> = r" by simp
    moreover obtain s' err where "Put E (sys_store \<sigma>) r = Inr (s', err)"
      using Put_total ok Some by blast
    ultimately show ?thesis using Some by (simp add: Reconcile_def apiGet_def Let_def)
  qed
  then obtain s' err where run: "Reconcile E (sys_store \<sigma>) k (apiGet \<sigma> k) = Inr (s', err)" by blast
  with Reconcile_sync(1) [OF E inv run] sysStep.reconciled [OF k, of E s'] show ?thesis by auto
qed

lemma drain:
  assumes E: "sortsByTier E" and "finite Q"
  shows "sysInv E \<sigma> \<Longrightarrow> sys_queue \<sigma> = Q \<Longrightarrow>
    \<forall>k r. sys_cluster \<sigma> k = Some r \<longrightarrow> noPanic (NewModRuleStoreItem E r) \<Longrightarrow>
    \<exists>\<tau>. (sysStep E)\<^sup>*\<^sup>* \<sigma> \<tau> \<and> sys_queue \<tau> = {} \<and> sys_cluster \<tau> = sys_cluster \<sigma>"
  using assms(2)
proof (induction Q arbitrary: \<sigma> rule: finite_psubset_induct)
  case (psubset Q)
  show ?case
  proof (cases "Q = {}")
    case True
    then show ?thesis using psubset.prems by blast
  next
    case False
    then obtain k where k: "k \<in> sys_queue \<sigma>" using psubset.prems by blast
    obtain s' where one: "sysStep E \<sigma> (\<sigma>\<lparr>sys_store := s', sys_queue := sys_queue \<sigma> - {k}\<rparr>)" (is "sysStep E \<sigma> ?\<tau>")
      using reconcile_one [OF E psubset.prems(1) k psubset.prems(3)] by blast
    have "\<exists>\<tau>. (sysStep E)\<^sup>*\<^sup>* ?\<tau> \<tau> \<and> sys_queue \<tau> = {} \<and> sys_cluster \<tau> = sys_cluster ?\<tau>"
      using k psubset.prems sysInv_step [OF E one psubset.prems(1)]
      by (intro psubset.IH [of "Q - {k}"]) auto
    then show ?thesis using one by (auto intro: converse_rtranclp_into_rtranclp)
  qed
qed

section \<open>Convergence\<close>

text \<open>
  In every reachable state, each key that is not in the work queue is in sync: the store
  holds no rule under it if the cluster has none, and the compiled form of the cluster's rule
  if that rule compiles. When the queue is empty, this holds of every key.
\<close>

lemma store_converges:
  assumes "sortsByTier E" and "reachable E cns \<sigma>"
  shows "storeInv (sys_store \<sigma>) \<and> (\<forall>k. k \<notin> sys_queue \<sigma> \<longrightarrow> inSync E \<sigma> k)"
  using reachable_sysInv [OF assms] by (simp add: sysInv_def del: split_paired_All)

text \<open>
  From every reachable state, if no rule of the cluster makes a compiler panic, the
  queued runs can all be made: some sequence of steps empties the queue, without another
  change to the cluster, and ends with a store in sync with the cluster on every key.
\<close>

lemma queue_drains:
  assumes "sortsByTier E" and "reachable E cns \<sigma>"
    and "\<forall>k r. sys_cluster \<sigma> k = Some r \<longrightarrow> noPanic (NewModRuleStoreItem E r)"
  shows "\<exists>\<tau>. (sysStep E)\<^sup>*\<^sup>* \<sigma> \<tau> \<and> sys_queue \<tau> = {} \<and> sys_cluster \<tau> = sys_cluster \<sigma> \<and> (\<forall>k. inSync E \<tau> k)"
proof -
  have inv: "sysInv E \<sigma>" by (rule reachable_sysInv [OF assms(1,2)])
  then obtain \<tau> where run: "(sysStep E)\<^sup>*\<^sup>* \<sigma> \<tau>" and end_state: "sys_queue \<tau> = {}" "sys_cluster \<tau> = sys_cluster \<sigma>"
    using drain [OF assms(1) _ inv refl assms(3)] by (auto simp: sysInv_def)
  from run inv have "sysInv E \<tau>"
    by (induction rule: rtranclp_induct) (auto intro: sysInv_step [OF assms(1)])
  with run end_state show ?thesis by (auto simp: sysInv_def)
qed

text \<open>A user creates a rule: its key is queued.\<close>

definition createdState :: sys where
  "createdState = \<lparr>sys_store = NewModRuleStore ''km'',
     sys_cluster = [(''a'', ''r'') \<mapsto> rejectRule ''a'' ''r'' 2 [kindIs ''Pod'']], sys_queue = {(''a'', ''r'')}\<rparr>"

lemma createdState_reachable: "reachable sampleEnv ''km'' createdState"
proof -
  have "reachable sampleEnv ''km'' (\<lparr>sys_store = NewModRuleStore ''km'', sys_cluster = Map.empty, sys_queue = {}\<rparr>
      \<lparr>sys_cluster := Map.empty((''a'', ''r'') \<mapsto> rejectRule ''a'' ''r'' 2 [kindIs ''Pod'']),
       sys_queue := insert (''a'', ''r'') {}\<rparr>)"
    using reachable.step [OF reachable.start sysStep.userPut, of sampleEnv "''km''" "rejectRule ''a'' ''r'' 2 [kindIs ''Pod'']"]
    by (simp add: rejectRule_fields)
  then show ?thesis by (simp add: createdState_def)
qed

lemma store_converges_witness: "storeInv (sys_store createdState) \<and> inSync sampleEnv createdState (''a'', ''other'')"
  using store_converges [OF sortsByTier_sample createdState_reachable]
  by (auto simp: createdState_def)

lemma queue_drains_witness:
  "\<exists>\<tau>. (sysStep sampleEnv)\<^sup>*\<^sup>* createdState \<tau> \<and> sys_queue \<tau> = {} \<and>
    lookupRule (sys_store \<tau>) (''a'', ''r'') = Some (rejectItem ''a'' ''r'' 2 [kindIs ''Pod''])"
proof -
  have "\<forall>k r. sys_cluster createdState k = Some r \<longrightarrow> noPanic (NewModRuleStoreItem sampleEnv r)"
    by (simp add: createdState_def rejectItem_compiled)
  from queue_drains [OF sortsByTier_sample createdState_reachable this] obtain \<tau> where
    t: "(sysStep sampleEnv)\<^sup>*\<^sup>* createdState \<tau>" "sys_queue \<tau> = {}" "sys_cluster \<tau> = sys_cluster createdState"
      "\<forall>k. inSync sampleEnv \<tau> k" by blast
  from t(4) have "inSync sampleEnv \<tau> (''a'', ''r'')" by blast
  with t show ?thesis by (auto simp: inSync_def createdState_def rejectItem_compiled)
qed

text \<open>
  C39: a rule of the cluster that does not compile is dropped without a trace in the
  controller: the run reports success, so the key leaves the queue and is not tried again, and
  an older version of the rule stays in force in the store.
\<close>

theorem Reconcile_drops_error:
  assumes "NewModRuleStoreItem E (r\<lparr>Namespace := fst k\<rparr>) = Inl (GoErr e)"
  shows "\<exists>s'. Reconcile E s k (Found r) = Inr (s', None) \<and> lookupRule s' = lookupRule s"
proof -
  obtain s' where "Put E s (r\<lparr>Namespace := fst k\<rparr>) =
      Inr (s', Some (''failed to add ModRule to ModRuleStore: '' @ e))"
    and rules: "rulesOf s' = rulesOf s"
    using Put_err [OF assms, of s] by blast
  then show ?thesis using lookupRule_cong [OF rules] by (simp add: Reconcile_def Let_def)
qed

lemma Reconcile_drops_error_witness:
  "\<exists>s'. Reconcile sampleEnv twoRejects (''a'', ''r1'') (Found (rejectRule ''a'' ''r1'' 1 [(kindIs ''Pod'')\<lparr>Select := ''kind''\<rparr>])) =
      Inr (s', None) \<and> lookupRule s' (''a'', ''r1'') = Some (rejectItem ''a'' ''r1'' 2 [kindIsNot ''Job''])"
proof -
  have "NewModRuleStoreItem sampleEnv (rejectRule ''a'' ''r1'' 1 [(kindIs ''Pod'')\<lparr>Select := ''kind''\<rparr>]\<lparr>Namespace := fst (''a'', ''r1'')\<rparr>) =
      Inl (GoErr ''parsing error'')"
    by (simp add: NewModRuleStoreItem_def Let_def newCompiledMatchSelects_def compileTargetNamespaceRegex_def
        sample_eval hasPrefix_def)
  moreover have "lookupRule twoRejects (''a'', ''r1'') = Some (rejectItem ''a'' ''r1'' 2 [kindIsNot ''Job''])"
    by (simp add: lookupRule_def twoRejects_def reject_eval)
  ultimately show ?thesis using Reconcile_drops_error [where s = twoRejects] by metis
qed

end
