(* ===== verification/Webhooks.thy ===== *)
theory Webhooks imports ModRuleStore begin

text \<open>
  The two admission webhooks: the dragnet (src/core/dragnetwebhook.go), which patches and
  rejects, and the pod binding hook (src/core/podbindingwebhook.go), which notes a pod's node
  in an annotation. The Kubernetes client and the \<open>unstructured\<close> helpers are external: the
  record \<open>k8s\<close> holds the ones the handlers call. An \<open>Unstructured\<close> is the entries of its
  content map.
\<close>

section \<open>Interfaces\<close>

record groupVersionKind =
  gvk_Group :: string
  gvk_Version :: string
  gvk_Kind :: string

text \<open>
  \<open>NestedString\<close> returns the value, whether it was found and an error; \<open>GetAnnotations\<close>
  returns nil (\<open>None\<close>) or a map; \<open>Update\<close> returns the error, if any.
\<close>

record k8s =
  client_Get :: "groupVersionKind \<Rightarrow> string \<Rightarrow> string \<Rightarrow> entries res"
  client_Update :: "entries \<Rightarrow> string option"
  unmarshalUnstructured :: "bytes \<Rightarrow> entries res"
  marshalUnstructured :: "entries \<Rightarrow> string res"
  NestedString :: "entries \<Rightarrow> string list \<Rightarrow> string \<times> bool \<times> string option"
  GetAnnotations :: "entries \<Rightarrow> (string \<times> string) list option"
  SetAnnotations :: "entries \<Rightarrow> (string \<times> string) list option \<Rightarrow> entries"
  clearManagedFields :: "entries \<Rightarrow> entries"

record admissionRequest =
  req_Operation :: string
  req_Kind :: groupVersionKind
  req_Resource :: string
  req_SubResource :: string
  req_Namespace :: string
  req_Name :: string
  req_Object :: bytes
  req_OldObject :: bytes

datatype 'o response =
    Allowed string
  | Denied string
  | Patched string "'o list"

section \<open>Synthetic references\<close>

definition isPod :: "k8s \<Rightarrow> entries \<Rightarrow> bool" where
  "isPod K obj = (case NestedString K obj [''kind''] of (kind, ok, err) \<Rightarrow> ok \<and> err = None \<and> kind = ''Pod'')"

definition coreKind :: "string \<Rightarrow> groupVersionKind" where
  "coreKind k = \<lparr>gvk_Group = [], gvk_Version = ''v1'', gvk_Kind = k\<rparr>"

text \<open>\<open>delete\<close> on a map of strings; on the nil map it does nothing.\<close>

definition deleteKey :: "string \<Rightarrow> (string \<times> string) list option \<Rightarrow> (string \<times> string) list option" where
  "deleteKey k m = map_option (filter (\<lambda>(k', x). k' \<noteq> k)) m"

definition injectNamespaceSyntheticRef :: "k8s \<Rightarrow> string \<Rightarrow> entries \<Rightarrow> entries res" where
  "injectNamespaceSyntheticRef K namespace syntheticRefs =
     onErr (client_Get K (coreKind ''Namespace'') [] namespace)
       (\<lambda>e. Inl (GoErr (''failed to retrieve namespace '' @ [CHR 0x27] @ namespace @ [CHR 0x27] @ '' : '' @ e)))
       (\<lambda>ns.
         let ns = clearManagedFields K ns;
             annotations = deleteKey ''kubectl.kubernetes.io/last-applied-configuration'' (GetAnnotations K ns);
             ns = SetAnnotations K ns annotations
         in Inr (mapPut ''namespace'' (VObj ns) syntheticRefs))"

definition injectPodNodeSyntheticRef :: "k8s \<Rightarrow> string \<Rightarrow> entries \<Rightarrow> entries res" where
  "injectPodNodeSyntheticRef K nodeName syntheticRefs =
     onErr (client_Get K (coreKind ''Node'') [] nodeName)
       (\<lambda>e. Inl (GoErr (''failed to retrieve node '' @ [CHR 0x27] @ nodeName @ [CHR 0x27] @ '': '' @ e)))
       (\<lambda>node. Inr (mapPut ''node'' (VObj (clearManagedFields K node)) syntheticRefs))"

definition nodeRefs :: "k8s \<Rightarrow> entries \<Rightarrow> entries \<Rightarrow> entries res" where
  "nodeRefs K obj syntheticRefs =
     (if isPod K obj then
        (case NestedString K obj [''metadata'', ''annotations'', ''ref.kubemod.io/nodename''] of (nodeName, ok, err) \<Rightarrow>
           if ok \<and> err = None \<and> nodeName \<noteq> [] then
             onErr (injectPodNodeSyntheticRef K nodeName syntheticRefs)
               (\<lambda>e. Inl (GoErr (''failed to inject node synthetic ref: '' @ e))) Inr
           else Inr syntheticRefs)
      else Inr syntheticRefs)"

definition injectSyntheticRefs :: "k8s \<Rightarrow> bytes \<Rightarrow> string \<Rightarrow> string res" where
  "injectSyntheticRefs K originalJSON namespace =
     bindr (if namespace \<noteq> [] then
              onErr (injectNamespaceSyntheticRef K namespace [])
                (\<lambda>e. Inl (GoErr (''failed to inject namespace synthetic ref: '' @ e))) Inr
            else Inr []) (\<lambda>syntheticRefs.
     onErr (unmarshalUnstructured K originalJSON)
       (\<lambda>e. Inl (GoErr (''failed to decode webhook request object'' @ [CHR 0x27] @ ''s manifest into JSON: '' @ e)))
       (\<lambda>obj.
         bindr (nodeRefs K obj syntheticRefs) (\<lambda>syntheticRefs.
           let obj = mapPut ''syntheticRefs'' (VObj syntheticRefs) obj;
               obj = clearManagedFields K obj
           in marshalUnstructured K obj)))"

section \<open>The dragnet\<close>

definition requestObject :: "admissionRequest \<Rightarrow> bytes" where
  "requestObject req = (if req_Operation req \<noteq> ''DELETE'' then req_Object req else req_OldObject req)"

definition requestNamespace :: "admissionRequest \<Rightarrow> string" where
  "requestNamespace req = (if req_Kind req = coreKind ''Namespace'' then [] else req_Namespace req)"

definition dragnetVerdict :: "string list \<Rightarrow> 'o list \<Rightarrow> 'o response" where
  "dragnetVerdict rejections patch =
     (if rejections \<noteq> [] then
        Denied (''operation rejected by the following ModRule(s): '' @ strJoin rejections '','')
      else if patch \<noteq> [] then Patched ''patched ok'' patch
      else Allowed ''non-patched ok'')"

definition DragnetHandle :: "('p, 'o) env \<Rightarrow> k8s \<Rightarrow> modRuleStore \<Rightarrow> admissionRequest \<Rightarrow> 'o response res" where
  "DragnetHandle E K s req =
     (let op = req_Operation req; storeNamespace = requestNamespace req in
      onErr (injectSyntheticRefs K (requestObject req) storeNamespace)
        (\<lambda>e. Inr (Allowed ''failed to inject syntheticRefs into object manifest'')) (\<lambda>obj.
      onErr (CalculatePatch E s op storeNamespace obj)
        (\<lambda>e. Inr (Allowed ''failed to calculate patch'')) (\<lambda>(patchedJSON, patch).
      bindr (DetermineRejections s op storeNamespace patchedJSON) (\<lambda>rejections.
        Inr (dragnetVerdict rejections patch)))))"

section \<open>The pod binding hook\<close>

definition getBindingTargets :: "k8s \<Rightarrow> entries \<Rightarrow> (string \<times> string \<times> string) res" where
  "getBindingTargets K binding =
     (case NestedString K binding [''metadata'', ''namespace''] of (podNamespace, ok, err) \<Rightarrow>
      if \<not> ok then Inl (GoErr ''unable to find metadata.namespace in pod binding manifest'')
      else if err \<noteq> None then
        Inl (GoErr (''failed to obtain metadata.namespace from pod binding manifest: '' @ the err))
      else (case NestedString K binding [''metadata'', ''name''] of (podName, ok, err) \<Rightarrow>
      if \<not> ok then Inl (GoErr ''unable to find metadata.name in pod binding manifest'')
      else if err \<noteq> None then
        Inl (GoErr (''failed to obtain metadata.name from pod binding manifest: '' @ the err))
      else (case NestedString K binding [''target'', ''name''] of (nodeName, ok, err) \<Rightarrow>
      if \<not> ok then Inl (GoErr ''unable to find target.name in pod binding manifest'')
      else if err \<noteq> None then
        Inl (GoErr (''failed to obtain target.name from pod binding manifest: '' @ the err))
      else Inr (podNamespace, podName, nodeName))))"

text \<open>\<open>m[k] = x\<close> on a map of strings.\<close>

fun putKey :: "string \<Rightarrow> string \<Rightarrow> (string \<times> string) list \<Rightarrow> (string \<times> string) list" where
  "putKey k x [] = [(k, x)]"
| "putKey k x ((k', y) # m) = (if k = k' then (k, x) # m else (k', y) # putKey k x m)"

text \<open>The response, and the pods sent to \<open>Update\<close> in order.\<close>

definition PodBindingHandle :: "k8s \<Rightarrow> admissionRequest \<Rightarrow> ('o response \<times> entries list) res" where
  "PodBindingHandle K req =
     (if req_Resource req = ''pods'' \<and> req_SubResource req = ''binding'' then
        onErr (unmarshalUnstructured K (req_Object req))
          (\<lambda>e. Inr (Allowed (''failed to decode webhook request object'' @ [CHR 0x27] @ ''s manifest into JSON''), [])) (\<lambda>binding.
        onErr (getBindingTargets K binding)
          (\<lambda>e. Inr (Allowed ''failed to obtain target data from pod binding'', [])) (\<lambda>(podNamespace, podName, nodeName).
        onErr (client_Get K (coreKind ''Pod'') podNamespace podName)
          (\<lambda>e. Inr (Allowed ''failed to obtain pod'', [])) (\<lambda>pod.
          let annotations = (case GetAnnotations K pod of None \<Rightarrow> [] | Some m \<Rightarrow> m) in
          if map_of annotations ''ref.kubemod.io/inject-node-ref'' = Some ''true'' then
            (let pod = SetAnnotations K pod (Some (putKey ''ref.kubemod.io/nodename'' nodeName annotations)) in
             if client_Update K pod \<noteq> None then Inr (Allowed ''failed to obtain pod'', [pod])
             else Inr (Allowed ''ok'', [pod]))
          else Inr (Allowed ''ok'', []))))
      else Inr (Allowed ''ok'', []))"

end
