(* ===== verification/WebhookProps.thy ===== *)
theory WebhookProps imports Webhooks PatchProps begin

text \<open>
  The properties of the two admission webhooks: the dragnet's verdict in terms of the rules
  that apply, its failing open, and what the pod binding hook changes.
\<close>

section \<open>The verdict of the dragnet\<close>

text \<open>The rules for a request without a namespace.\<close>

lemma candidateRules_clusterWide:
  "x \<in> set (candidateRules s op []) \<Longrightarrow> x \<in> set (rulesOf s (clusterModRulesNamespace s)) \<and>
     (\<forall>re. si_compiledTargetNamespaceRegex x = Some re \<longrightarrow> re [])"
  by (auto simp: candidateRules_def clusterRuleApplies_def split: option.splits)

text \<open>
  C10: the verdict of the dragnet. It looks at the old object of a deletion and at the object of any other request, and
  at the rules for the request's operation and namespace; a Namespace object counts as cluster-wide. If the
  synthetic references cannot be injected or the patch cannot be calculated, the request is
  allowed as it is. Otherwise it is denied exactly when a Reject rule applies to the patched
  document, naming all such rules in ascending order of their tiers, and else the patch is sent, if there is one; a rule that denies a
  Namespace object is one of the cluster-wide namespace, with no \<open>targetNamespaceRegex\<close> or one that
  matches the empty string. (A panic of a compiled query or message aside, in a store of compiled rules.)
\<close>

theorem DragnetHandle_verdict:
  fixes E :: "('p, 'o) env" and req :: admissionRequest
  defines "ns \<equiv> if req_Kind req = \<lparr>gvk_Group = [], gvk_Version = ''v1'', gvk_Kind = ''Namespace''\<rparr> then [] else req_Namespace req"
    and "doc \<equiv> if req_Operation req = ''DELETE'' then req_OldObject req else req_Object req"
  shows "(\<forall>e. injectSyntheticRefs K doc ns = Inl (GoErr e) \<longrightarrow>
      DragnetHandle E K s req = Inr (Allowed ''failed to inject syntheticRefs into object manifest'')) \<and>
    (\<forall>obj e. injectSyntheticRefs K doc ns = Inr obj \<and> CalculatePatch E s (req_Operation req) ns obj = Inl (GoErr e) \<longrightarrow>
      DragnetHandle E K s req = Inr (Allowed ''failed to calculate patch'')) \<and>
    (\<forall>obj v ops rejecting. injectSyntheticRefs K doc ns = Inr obj \<and> CalculatePatch E s (req_Operation req) ns obj = Inr (v, ops) \<and>
      compiledStore E s \<and> (\<forall>x \<in> set (candidateRules s (req_Operation req) ns). selectsSafe E (si_modRule x) v \<and> messageSafe ns v x) \<and>
      rejecting = sort_key tier (applicableRules E s (req_Operation req) ns ModRuleTypeReject v) \<longrightarrow>
      DragnetHandle E K s req = Inr (
        if rejecting \<noteq> []
        then Denied (''operation rejected by the following ModRule(s): '' @ strJoin (map (rejectionText ns v) rejecting) '','')
        else if ops \<noteq> [] then Patched ''patched ok'' ops
        else Allowed ''non-patched ok'') \<and>
      (gvk_Kind (req_Kind req) = ''Namespace'' \<and> gvk_Group (req_Kind req) = [] \<and> gvk_Version (req_Kind req) = ''v1'' \<longrightarrow>
        (\<forall>x \<in> set rejecting. x \<in> set (rulesOf s (clusterModRulesNamespace s)) \<and>
          (\<forall>re. si_compiledTargetNamespaceRegex x = Some re \<longrightarrow> re []))))"
proof -
  have ns: "requestNamespace req = ns" and doc: "requestObject req = doc"
    by (simp_all add: requestNamespace_def coreKind_def requestObject_def ns_def doc_def)
  have clusterWide: "x \<in> set (rulesOf s (clusterModRulesNamespace s)) \<and> (\<forall>re. si_compiledTargetNamespaceRegex x = Some re \<longrightarrow> re [])"
    if "gvk_Kind (req_Kind req) = ''Namespace'' \<and> gvk_Group (req_Kind req) = [] \<and> gvk_Version (req_Kind req) = ''v1''"
      "x \<in> set (applicableRules E s (req_Operation req) ns ModRuleTypeReject v)" for x v
  proof (rule candidateRules_clusterWide)
    have "ns = []" using that(1) by (simp add: ns_def)
    then show "x \<in> set (candidateRules s (req_Operation req) [])" using that(2) by (simp add: applicableRules_def)
  qed
  show ?thesis
  proof (intro conjI allI impI)
    fix obj v ops rejecting
    assume run: "injectSyntheticRefs K doc ns = Inr obj \<and> CalculatePatch E s (req_Operation req) ns obj = Inr (v, ops) \<and>
      compiledStore E s \<and> (\<forall>x \<in> set (candidateRules s (req_Operation req) ns). selectsSafe E (si_modRule x) v \<and> messageSafe ns v x) \<and>
      rejecting = sort_key tier (applicableRules E s (req_Operation req) ns ModRuleTypeReject v)"
    then have "DetermineRejections s (req_Operation req) ns v = Inr (map (rejectionText ns v) rejecting)"
      using DetermineRejections_executed_safe by blast
    then show "DragnetHandle E K s req = Inr (
        if rejecting \<noteq> []
        then Denied (''operation rejected by the following ModRule(s): '' @ strJoin (map (rejectionText ns v) rejecting) '','')
        else if ops \<noteq> [] then Patched ''patched ok'' ops
        else Allowed ''non-patched ok'')"
      using run by (simp add: DragnetHandle_def dragnetVerdict_def Let_def ns doc)
    show "\<forall>x \<in> set rejecting. x \<in> set (rulesOf s (clusterModRulesNamespace s)) \<and> (\<forall>re. si_compiledTargetNamespaceRegex x = Some re \<longrightarrow> re [])"
      if "gvk_Kind (req_Kind req) = ''Namespace'' \<and> gvk_Group (req_Kind req) = [] \<and> gvk_Version (req_Kind req) = ''v1''"
    proof -
      have "set rejecting = set (applicableRules E s (req_Operation req) ns ModRuleTypeReject v)" using run by simp
      then show ?thesis using clusterWide [OF that] by blast
    qed
  qed (simp_all add: DragnetHandle_def Let_def ns doc)
qed

lemma sort_key_Nil_iff: "sort_key f xs = [] \<longleftrightarrow> xs = []"
  by (simp flip: length_0_conv)

text \<open>A cluster client under which every manifest is read and written as its own text.\<close>

definition sampleK8s :: k8s where
  "sampleK8s = \<lparr>
     client_Get = \<lambda>gvk ns n. if n = ''gone'' then Inl (GoErr ''not found'') else Inr [(''name'', VStr n)],
     client_Update = \<lambda>_. None,
     unmarshalUnstructured = \<lambda>b. case b of None \<Rightarrow> Inl (GoErr ''unexpected end of JSON input'') | Some t \<Rightarrow> Inr [(''kind'', VStr t)],
     marshalUnstructured = \<lambda>kvs. case map_of kvs ''kind'' of Some (VStr k) \<Rightarrow> Inr k | _ \<Rightarrow> Inl (GoErr ''no kind''),
     NestedString = \<lambda>kvs ks. case getValueAt kvs ks of VStr x \<Rightarrow> (x, True, None) | _ \<Rightarrow> ([], False, None),
     GetAnnotations = \<lambda>_. Some [(''ref.kubemod.io/inject-node-ref'', ''true'')],
     SetAnnotations = \<lambda>kvs a. (case a of None \<Rightarrow> kvs | Some m \<Rightarrow> mapPut ''annotations'' (VObj (map (\<lambda>(k, x). (k, VStr x)) m)) kvs),
     clearManagedFields = \<lambda>kvs. kvs\<rparr>"

definition createPod :: admissionRequest where
  "createPod = \<lparr>req_Operation = ''CREATE'', req_Kind = coreKind ''Pod'', req_Resource = ''pods'',
     req_SubResource = [], req_Namespace = ''a'', req_Name = ''x'', req_Object = Some ''Pod'', req_OldObject = None\<rparr>"

lemma createPod_injected:
  "injectSyntheticRefs sampleK8s (requestObject createPod) (requestNamespace createPod) = Inr ''Pod''"
  by (simp add: injectSyntheticRefs_def sampleK8s_def createPod_def requestObject_def requestNamespace_def
      coreKind_def injectNamespaceSyntheticRef_def deleteKey_def nodeRefs_def isPod_def)

lemma createPod_fields: "req_Operation createPod = ''CREATE''" "requestNamespace createPod = ''a''"
  by (simp_all add: createPod_def requestNamespace_def coreKind_def)

lemma DragnetHandle_verdict_witness:
  "\<exists>msg. DragnetHandle sampleEnv sampleK8s twoRejects createPod = Inr (Denied msg)"
proof -
  have "applicableRules sampleEnv twoRejects ''CREATE'' ''a'' ModRuleTypeReject aPod \<noteq> []"
    by (simp add: applicableRules_def twoRejects_candidates)
      (simp add: twoRejects_def reject_eval ruleHolds_def ModRuleTypeReject_def less_int16_def i16_toInt16)
  then have "sort_key tier (applicableRules sampleEnv twoRejects ''CREATE'' ''a'' ModRuleTypeReject aPod) \<noteq> []"
    by (simp only: sort_key_Nil_iff not_False_eq_True)
  moreover have "DragnetHandle sampleEnv sampleK8s twoRejects createPod = Inr (
      let rejecting = sort_key tier (applicableRules sampleEnv twoRejects ''CREATE'' ''a'' ModRuleTypeReject aPod) in
      if rejecting \<noteq> []
      then Denied (''operation rejected by the following ModRule(s): '' @ strJoin (map (rejectionText ''a'' aPod) rejecting) '','')
      else Allowed ''non-patched ok'')"
    using DragnetHandle_verdict [where req = createPod and K = sampleK8s and E = sampleEnv and s = twoRejects] createPod_injected twoRejects_compiled
      twoRejects_safe twoRejects_idle
    by (simp add: Let_def) (simp add: createPod_def coreKind_def requestObject_def requestNamespace_def)
  ultimately show ?thesis by (simp only: Let_def if_True not_False_eq_True) blast
qed

section \<open>Failing open\<close>

text \<open>
  C25: a Patch rule that applies to the object but whose patch cannot be applied disables the
  Reject rules: although a Reject rule applies to the same object, the request is allowed,
  without any patch.
\<close>

theorem DragnetHandle_fails_open:
  assumes "injectSyntheticRefs K (requestObject req) (requestNamespace req) = Inr obj"
    and "compiledStore E s" and "jsonUnmarshal E (Some obj) = Inr v"
    and "\<forall>x \<in> set (candidateRules s (req_Operation req) (requestNamespace req)).
      selectsSafe E (si_modRule x) v \<and> messageSafe (requestNamespace req) v x"
    and "applicableRules E s (req_Operation req) (requestNamespace req) ModRuleTypePatch v = [x]"
    and "applicableRules E s (req_Operation req) (requestNamespace req) ModRuleTypeReject v \<noteq> []"
    and "extractLastAppliedConfiguration v = None"
    and "calculatePatch E (requestNamespace req) x v = Inr p"
    and "ApplyWithOptions E p (Some obj) jsonPatchApplyOptions = Inr (None, Some err)"
    and "CreatePatch E (Some obj) None = Inl (GoErr e)"
  shows "(\<exists>ms. DetermineRejections s (req_Operation req) (requestNamespace req) v = Inr ms \<and> ms \<noteq> []) \<and>
    DragnetHandle E K s req = Inr (Allowed ''failed to calculate patch'')"
proof -
  have safe: "\<forall>x \<in> set (candidateRules s (req_Operation req) (requestNamespace req)). selectsSafe E (si_modRule x) v"
    using assms(4) by blast
  have "CalculatePatch E s (req_Operation req) (requestNamespace req) obj = Inl (GoErr e)"
    using CalculatePatch_nil_document [OF assms(2,3) safe assms(5,7-9)] assms(10) by simp
  then have "DragnetHandle E K s req = Inr (Allowed ''failed to calculate patch'')"
    using assms(1) by (simp add: DragnetHandle_def dragnetVerdict_def Let_def)
  moreover have "sort_key tier (applicableRules E s (req_Operation req) (requestNamespace req) ModRuleTypeReject v) \<noteq> []"
    using assms(6) by (simp add: sort_key_Nil_iff)
  ultimately show ?thesis
    using DetermineRejections_executed_safe [OF assms(2,4)] by simp
qed

lemma DragnetHandle_fails_open_witness:
  "DragnetHandle sampleEnv sampleK8s failingPatch createPod = Inr (Allowed ''failed to calculate patch'')"
  using DragnetHandle_fails_open [OF createPod_injected failingPatch_compiled sample_decodes_pod
      _ _ _ aPod_not_applied, of "patchItem ''a'' ''p'' 1 ''fail''"]
    failingPatch_safe failingPatch_applicable patchItem_patch failingPatch_apply sample_nil_patch
  by (simp add: createPod_fields)

section \<open>Pod bindings\<close>

text \<open>
  C40: the pod binding hook allows every request, and it sends at most one update: for a
  binding of pods, of the pod that the binding names, which opted in through its annotation,
  with the node's name added to its annotations.
\<close>

theorem PodBindingHandle_updates:
  assumes "PodBindingHandle K req = Inr (resp, ups)"
  shows "(\<exists>msg. resp = Allowed msg) \<and>
    (ups \<noteq> [] \<longrightarrow> req_Resource req = ''pods'' \<and> req_SubResource req = ''binding'' \<and>
      (\<exists>binding podNamespace podName nodeName pod annotations.
        unmarshalUnstructured K (req_Object req) = Inr binding \<and>
        getBindingTargets K binding = Inr (podNamespace, podName, nodeName) \<and>
        client_Get K (coreKind ''Pod'') podNamespace podName = Inr pod \<and>
        GetAnnotations K pod = Some annotations \<and>
        map_of annotations ''ref.kubemod.io/inject-node-ref'' = Some ''true'' \<and>
        ups = [SetAnnotations K pod (Some (putKey ''ref.kubemod.io/nodename'' nodeName annotations))]))"
  using assms
  by (auto simp: PodBindingHandle_def onErr_def Let_def split: if_splits sum.splits fail.splits option.splits prod.splits)

definition bindPod :: admissionRequest where
  "bindPod = createPod\<lparr>req_SubResource := ''binding''\<rparr>"

definition bindingK8s :: k8s where
  "bindingK8s = sampleK8s\<lparr>NestedString := \<lambda>kvs ks. (last ks, True, None)\<rparr>"

lemma PodBindingHandle_updates_witness:
  "\<exists>resp pod. PodBindingHandle bindingK8s bindPod = Inr (resp :: string response, [pod]) \<and> resp = Allowed ''ok''"
proof -
  obtain resp :: "string response" and ups where run: "PodBindingHandle bindingK8s bindPod = Inr (resp, ups)" and "ups \<noteq> []" "resp = Allowed ''ok''"
    by (simp add: PodBindingHandle_def bindPod_def createPod_def bindingK8s_def sampleK8s_def getBindingTargets_def)
  with PodBindingHandle_updates [OF run] show ?thesis by auto
qed

end
