(* ===== verification/EndToEnd.thy ===== *)
theory EndToEnd imports Reconciler WebhookProps begin

text \<open>
  The whole path of a rule: written to the cluster by a user, compiled into the store by the
  controller, applied to a request by the webhook. The answer to a request is stated over the rules
  of the cluster alone, without the store.
\<close>

section \<open>Which rules of the cluster a request meets\<close>

text \<open>
  A rule is for the resources of its own namespace. A rule of the cluster-wide namespace is for the
  resources whose namespace its \<open>targetNamespaceRegex\<close> matches or, without one, for those that have
  no namespace.
\<close>

definition targets :: "('p, 'o) env \<Rightarrow> modRule \<Rightarrow> string \<Rightarrow> bool" where
  "targets E r ns = (case compileTargetNamespaceRegex E (TargetNamespaceRegex (Spec r)) of
     Inr None \<Rightarrow> ns = [] | Inr (Some re) \<Rightarrow> re ns | Inl _ \<Rightarrow> False)"

definition concerns :: "('p, 'o) env \<Rightarrow> string \<Rightarrow> modRule \<Rightarrow> string \<Rightarrow> string \<Rightarrow> bool" where
  "concerns E cns r op ns \<longleftrightarrow> op \<in> set (AdmissionOperations (Spec r)) \<and>
     (Namespace r = cns \<and> targets E r ns \<or> Namespace r = ns \<and> ns \<noteq> [])"

definition rejects :: "('p, 'o) env \<Rightarrow> string \<Rightarrow> string \<Rightarrow> string \<Rightarrow> val \<Rightarrow> modRule \<Rightarrow> bool" where
  "rejects E cns op ns v r \<longleftrightarrow> concerns E cns r op ns \<and> Type (Spec r) = ModRuleTypeReject \<and> ruleHolds E r v \<and>
     MinInt16 < ExecutionTier (Spec r) \<and> ExecutionTier (Spec r) < MaxInt16"

section \<open>A store in sync holds the rules of the cluster\<close>

lemma Reconcile_cluster:
  "Reconcile E s k got = Inr (s', err) \<Longrightarrow> clusterModRulesNamespace s' = clusterModRulesNamespace s"
  by (auto simp: Reconcile_def Put_def Let_def bindr_Inr_iff onErr_def
      split: getResult.splits option.splits sum.splits fail.splits)

lemma reachable_cluster: "reachable E cns \<sigma> \<Longrightarrow> clusterModRulesNamespace (sys_store \<sigma>) = cns"
proof (induction rule: reachable.induct)
  case (step \<sigma> \<tau>)
  then show ?case by (auto elim!: sysStepE dest: Reconcile_cluster)
qed (simp add: NewModRuleStore_def)

lemma settled_rules:
  assumes inv: "sysInv E \<sigma>" and q: "sys_queue \<sigma> = {}"
    and ok: "\<forall>k r. sys_cluster \<sigma> k = Some r \<longrightarrow> isOk (NewModRuleStoreItem E r)"
  shows "x \<in> set (rulesOf (sys_store \<sigma>) ns) \<longleftrightarrow>
    (\<exists>k r. sys_cluster \<sigma> k = Some r \<and> Namespace r = ns \<and> NewModRuleStoreItem E r = Inr x)"
proof -
  have st: "storeInv (sys_store \<sigma>)" and keys: "\<And>k r. sys_cluster \<sigma> k = Some r \<Longrightarrow> k = (Namespace r, Name r)"
    and sync: "\<And>k. inSync E \<sigma> k" using inv q by (auto simp: sysInv_def)
  have look: "lookupRule (sys_store \<sigma>) k = Some x \<longleftrightarrow> (\<exists>r. sys_cluster \<sigma> k = Some r \<and> NewModRuleStoreItem E r = Inr x)" for k
    using sync [of k] ok
    by (cases "sys_cluster \<sigma> k") (auto simp: inSync_def isOk_def split: sum.splits simp del: split_paired_All)
  have "x \<in> set (rulesOf (sys_store \<sigma>) ns) \<longleftrightarrow> lookupRule (sys_store \<sigma>) (ns, ruleName x) = Some x"
    using lookupRule_Some [OF st] by simp
  also have "\<dots> \<longleftrightarrow> (\<exists>k r. sys_cluster \<sigma> k = Some r \<and> Namespace r = ns \<and> NewModRuleStoreItem E r = Inr x)"
    unfolding look using keys NewModRuleStoreItem_rule by (metis prod.inject)
  finally show ?thesis .
qed

lemma candidate_concerns:
  assumes "NewModRuleStoreItem E r = Inr x"
  shows "admits op x \<and> (Namespace r = cns \<and> clusterRuleApplies ns x \<or> Namespace r = ns \<and> ns \<noteq> []) \<longleftrightarrow> concerns E cns r op ns"
  using NewModRuleStoreItem_fields [OF assms]
  by (auto simp: concerns_def targets_def admits_def clusterRuleApplies_def split: option.splits)

lemma settled_candidates:
  assumes inv: "sysInv E \<sigma>" and q: "sys_queue \<sigma> = {}" and cns: "clusterModRulesNamespace (sys_store \<sigma>) = cns"
    and ok: "\<forall>k r. sys_cluster \<sigma> k = Some r \<longrightarrow> isOk (NewModRuleStoreItem E r)"
  shows "x \<in> set (candidateRules (sys_store \<sigma>) op ns) \<longleftrightarrow>
    (\<exists>k r. sys_cluster \<sigma> k = Some r \<and> NewModRuleStoreItem E r = Inr x \<and> concerns E cns r op ns)"
proof -
  note rules = settled_rules [OF inv q ok]
  have "x \<in> set (candidateRules (sys_store \<sigma>) op ns) \<longleftrightarrow> admits op x \<and>
      (x \<in> set (rulesOf (sys_store \<sigma>) cns) \<and> clusterRuleApplies ns x \<or> ns \<noteq> [] \<and> x \<in> set (rulesOf (sys_store \<sigma>) ns))"
    by (auto simp: candidateRules_def cns)
  also have "\<dots> \<longleftrightarrow> (\<exists>k r. sys_cluster \<sigma> k = Some r \<and> NewModRuleStoreItem E r = Inr x \<and>
      admits op x \<and> (Namespace r = cns \<and> clusterRuleApplies ns x \<or> Namespace r = ns \<and> ns \<noteq> []))"
    unfolding rules by blast
  also have "\<dots> \<longleftrightarrow> (\<exists>k r. sys_cluster \<sigma> k = Some r \<and> NewModRuleStoreItem E r = Inr x \<and> concerns E cns r op ns)"
    using candidate_concerns by blast
  finally show ?thesis .
qed

lemma settled_compiled:
  assumes "sysInv E \<sigma>" "sys_queue \<sigma> = {}" "\<forall>k r. sys_cluster \<sigma> k = Some r \<longrightarrow> isOk (NewModRuleStoreItem E r)"
  shows "compiledStore E (sys_store \<sigma>)"
  using settled_rules [OF assms] NewModRuleStoreItem_fields(1) by (fastforce simp: compiledStore_def)

section \<open>The answer to a request\<close>

lemma settled_applicable:
  assumes inv: "sysInv E \<sigma>" and q: "sys_queue \<sigma> = {}" and cns: "clusterModRulesNamespace (sys_store \<sigma>) = cns"
    and ok: "\<forall>k r. sys_cluster \<sigma> k = Some r \<longrightarrow> isOk (NewModRuleStoreItem E r)"
  shows "set (applicableRules E (sys_store \<sigma>) op ns ModRuleTypeReject v) =
    (\<lambda>r. projr (NewModRuleStoreItem E r)) ` {r. (\<exists>k. sys_cluster \<sigma> k = Some r) \<and> rejects E cns op ns v r}"
proof -
  have item: "NewModRuleStoreItem E r = Inr x \<longleftrightarrow> x = projr (NewModRuleStoreItem E r)" if "sys_cluster \<sigma> k = Some r" for k r x
  proof -
    have "isOk (NewModRuleStoreItem E r)" using ok that by blast
    then show ?thesis by (cases "NewModRuleStoreItem E r") (auto simp: isOk_def)
  qed
  have "tier x = ExecutionTier (Spec r)" "si_modRule x = r" if "NewModRuleStoreItem E r = Inr x" for x r
    using NewModRuleStoreItem_fields(1) [OF that] by simp_all
  then have "set (applicableRules E (sys_store \<sigma>) op ns ModRuleTypeReject v) =
    {x. \<exists>k r. sys_cluster \<sigma> k = Some r \<and> NewModRuleStoreItem E r = Inr x \<and> rejects E cns op ns v r}"
    unfolding applicableRules_def rejects_def set_filter settled_candidates [OF assms] by blast
  also have "\<dots> = {x. \<exists>k r. sys_cluster \<sigma> k = Some r \<and> x = projr (NewModRuleStoreItem E r) \<and> rejects E cns op ns v r}"
    using item by blast
  finally show ?thesis by blast
qed

lemma settled_safe:
  assumes "sysInv E \<sigma>" "sys_queue \<sigma> = {}" "clusterModRulesNamespace (sys_store \<sigma>) = cns"
    "\<forall>k r. sys_cluster \<sigma> k = Some r \<longrightarrow> isOk (NewModRuleStoreItem E r)"
    and safe: "\<And>k r. sys_cluster \<sigma> k = Some r \<Longrightarrow> selectsSafe E r v \<and> messageSafe ns v (projr (NewModRuleStoreItem E r))"
    and "x \<in> set (candidateRules (sys_store \<sigma>) op ns)"
  shows "selectsSafe E (si_modRule x) v \<and> messageSafe ns v x"
proof -
  obtain k r where r: "sys_cluster \<sigma> k = Some r" "NewModRuleStoreItem E r = Inr x"
    using assms(6) unfolding settled_candidates [OF assms(1-4)] by blast
  from safe [OF r(1)] show ?thesis using r(2) NewModRuleStoreItem_fields(1) [OF r(2)] by simp
qed

lemma settled_admission:
  assumes inv: "sysInv E \<sigma>" and q: "sys_queue \<sigma> = {}" and cns: "clusterModRulesNamespace (sys_store \<sigma>) = cns"
    and safe: "\<forall>k r. sys_cluster \<sigma> k = Some r \<longrightarrow> isOk (NewModRuleStoreItem E r) \<and> selectsSafe E r v \<and>
      messageSafe (requestNamespace req) v (projr (NewModRuleStoreItem E r))"
    and "injectSyntheticRefs K (requestObject req) (requestNamespace req) = Inr obj"
    and "CalculatePatch E (sys_store \<sigma>) (req_Operation req) (requestNamespace req) obj = Inr (v, ops)"
  shows "\<exists>ms. set ms = (\<lambda>r. rejectionText (requestNamespace req) v (projr (NewModRuleStoreItem E r))) `
      {r. (\<exists>k. sys_cluster \<sigma> k = Some r) \<and> rejects E cns (req_Operation req) (requestNamespace req) v r} \<and>
    DragnetHandle E K (sys_store \<sigma>) req = Inr (dragnetVerdict ms ops)"
proof -
  let ?op = "req_Operation req" and ?ns = "requestNamespace req"
  let ?app = "applicableRules E (sys_store \<sigma>) ?op ?ns ModRuleTypeReject v"
  let ?ms = "map (rejectionText ?ns v) (sort_key tier ?app)"
  have ok: "\<forall>k r. sys_cluster \<sigma> k = Some r \<longrightarrow> isOk (NewModRuleStoreItem E r)" using safe by blast
  have "\<forall>x \<in> set (candidateRules (sys_store \<sigma>) ?op ?ns). selectsSafe E (si_modRule x) v \<and> messageSafe ?ns v x"
    using settled_safe [OF inv q cns ok] safe by blast
  from DetermineRejections_executed_safe [OF settled_compiled [OF inv q ok] this]
  have "DetermineRejections (sys_store \<sigma>) ?op ?ns v = Inr ?ms" .
  then have "DragnetHandle E K (sys_store \<sigma>) req = Inr (dragnetVerdict ?ms ops)"
    using assms(5,6) by (simp add: DragnetHandle_def Let_def)
  moreover have "set ?ms = (\<lambda>r. rejectionText ?ns v (projr (NewModRuleStoreItem E r))) `
      {r. (\<exists>k. sys_cluster \<sigma> k = Some r) \<and> rejects E cns ?op ?ns v r}"
    by (simp add: settled_applicable [OF inv q cns ok] image_image)
  ultimately show ?thesis by blast
qed

text \<open>
  C5: when the controller has worked off its queue and every rule of the cluster compiles, the
  webhook's answer is determined by the rules of the cluster. A request whose object is patched to
  the document \<open>v\<close> is denied exactly when the cluster holds a Reject rule that is for the request's
  operation and namespace, is in neither of the two extreme tiers, and whose match items hold of \<open>v\<close>, and the denial carries the messages of
  just those rules; otherwise the patch is sent, if there is one. It is assumed that no query and no message template
  of a rule of the cluster panics on \<open>v\<close>.
\<close>

theorem admission_by_cluster:
  assumes "sortsByTier E" and "reachable E cns \<sigma>" and "sys_queue \<sigma> = {}"
    and "\<forall>k r. sys_cluster \<sigma> k = Some r \<longrightarrow> isOk (NewModRuleStoreItem E r) \<and> selectsSafe E r v \<and>
      messageSafe (requestNamespace req) v (projr (NewModRuleStoreItem E r))"
    and "injectSyntheticRefs K (requestObject req) (requestNamespace req) = Inr obj"
    and "CalculatePatch E (sys_store \<sigma>) (req_Operation req) (requestNamespace req) obj = Inr (v, ops)"
  shows "\<exists>ms. set ms = (\<lambda>r. rejectionText (requestNamespace req) v (projr (NewModRuleStoreItem E r))) `
      {r. (\<exists>k. sys_cluster \<sigma> k = Some r) \<and> rejects E cns (req_Operation req) (requestNamespace req) v r} \<and>
    DragnetHandle E K (sys_store \<sigma>) req = Inr (
      if ms \<noteq> [] then Denied (''operation rejected by the following ModRule(s): '' @ strJoin ms '','')
      else if ops \<noteq> [] then Patched ''patched ok'' ops else Allowed ''non-patched ok'')"
  using settled_admission [OF reachable_sysInv [OF assms(1,2)] assms(3) reachable_cluster [OF assms(2)] assms(4-6)]
  by (simp only: dragnetVerdict_def)

text \<open>The rule that a user created is stored by the controller, and a pod is denied.\<close>

definition settledState :: sys where
  "settledState = \<lparr>sys_store = sampleStore [rejectItem ''a'' ''r'' 2 [kindIs ''Pod'']],
     sys_cluster = [(''a'', ''r'') \<mapsto> rejectRule ''a'' ''r'' 2 [kindIs ''Pod'']], sys_queue = {}\<rparr>"

lemma settledState_reachable: "reachable sampleEnv ''km'' settledState"
proof -
  have same: "rejectRule ''a'' ''r'' 2 [kindIs ''Pod'']\<lparr>Namespace := ''a''\<rparr> = rejectRule ''a'' ''r'' 2 [kindIs ''Pod'']"
    by (simp add: rejectRule_def)
  have "sortSort sampleEnv [x] = [x]" for x by (simp add: sampleEnv_def insertionSort_def)
  then have "Put sampleEnv (NewModRuleStore ''km'') (rejectRule ''a'' ''r'' 2 [kindIs ''Pod'']) =
      Inr (sampleStore [rejectItem ''a'' ''r'' 2 [kindIs ''Pod'']], None)"
    by (simp add: Put_ok [OF rejectItem_compiled(1)] rejectRule_fields NewModRuleStore_def rulesOf_def placed_def sampleStore_def)
  then have "Reconcile sampleEnv (NewModRuleStore ''km'') (''a'', ''r'') (Found (rejectRule ''a'' ''r'' 2 [kindIs ''Pod''])) =
      Inr (sampleStore [rejectItem ''a'' ''r'' 2 [kindIs ''Pod'']], None)"
    by (simp add: Reconcile_def Let_def same)
  then have "sysStep sampleEnv createdState (createdState\<lparr>sys_store := sampleStore [rejectItem ''a'' ''r'' 2 [kindIs ''Pod'']],
      sys_queue := sys_queue createdState - {(''a'', ''r'')}\<rparr>)"
    by (intro sysStep.reconciled) (simp_all add: createdState_def apiGet_def)
  from reachable.step [OF createdState_reachable this] show ?thesis
    by (simp add: createdState_def settledState_def)
qed

lemma admission_by_cluster_witness:
  "\<exists>msg. DragnetHandle sampleEnv sampleK8s (sys_store settledState) createPod = Inr (Denied msg)"
proof -
  let ?r = "rejectRule ''a'' ''r'' 2 [kindIs ''Pod'']" and ?i = "rejectItem ''a'' ''r'' 2 [kindIs ''Pod'']"
  have cand: "candidateRules (sampleStore [?i]) ''CREATE'' ''a'' = [?i]"
    by (simp add: candidateRules_def reject_eval admits_def)
  have safe: "selectsSafe sampleEnv ?r aPod" "messageSafe ''a'' aPod ?i"
    by (simp_all add: selectsSafe_def messageSafe_def reject_eval)
  have "CalculatePatch sampleEnv (sampleStore [?i]) ''CREATE'' ''a'' ''Pod'' = Inr (aPod, [])"
  proof (rule pod_idle)
    show "compiledStore sampleEnv (sampleStore [?i])"
      by (simp add: compiledStore_def reject_eval rejectItem_compiled)
    show "applicableRules sampleEnv (sampleStore [?i]) ''CREATE'' ''a'' ModRuleTypePatch aPod = []"
      by (simp add: applicableRules_def cand) (simp add: reject_eval ModRuleTypePatch_def)
  qed (use safe in \<open>simp add: cand reject_eval\<close>)
  then have run: "CalculatePatch sampleEnv (sys_store settledState) (req_Operation createPod) (requestNamespace createPod) ''Pod'' =
      Inr (aPod, [])" by (simp add: settledState_def createPod_fields)
  have "\<forall>k r. sys_cluster settledState k = Some r \<longrightarrow> isOk (NewModRuleStoreItem sampleEnv r) \<and> selectsSafe sampleEnv r aPod \<and>
      messageSafe (requestNamespace createPod) aPod (projr (NewModRuleStoreItem sampleEnv r))"
    using safe by (simp add: settledState_def rejectItem_compiled isOk_def createPod_fields)
  from admission_by_cluster [OF sortsByTier_sample settledState_reachable _ this createPod_injected run]
  obtain ms where ms: "set ms = (\<lambda>r. rejectionText ''a'' aPod (projr (NewModRuleStoreItem sampleEnv r))) `
      {r. (\<exists>k. sys_cluster settledState k = Some r) \<and> rejects sampleEnv ''km'' ''CREATE'' ''a'' aPod r}"
    and verdict: "DragnetHandle sampleEnv sampleK8s (sys_store settledState) createPod = Inr (
      if ms \<noteq> [] then Denied (''operation rejected by the following ModRule(s): '' @ strJoin ms '','') else Allowed ''non-patched ok'')"
    by (auto simp: settledState_def createPod_fields)
  have "rejects sampleEnv ''km'' ''CREATE'' ''a'' aPod ?r"
    by (simp add: rejects_def concerns_def reject_eval ModRuleTypeReject_def ruleHolds_def less_int16_def i16_toInt16)
  then have "set ms \<noteq> {}" unfolding ms by (simp add: settledState_def)
  then show ?thesis using verdict by auto
qed

end
