(* ===== verification/WebApp.thy ===== *)
theory WebApp imports PatchProps begin

text \<open>
  The dry run of the web application (src/app/webapp_handlers.go): a request brings a resource
  and ModRules, which run in a store of their own. Decoding the request belongs to gin; the
  handler starts from its result. A null among the rules is a nil pointer.
\<close>

section \<open>The handler\<close>

record dryRunRequest =
  ResourceManifest :: val
  ModRules :: "modRule option list"

record 'o dryRunResponse =
  resp_Patch :: "'o list"
  resp_Diff :: string
  resp_Rejections :: "string list"

datatype 'o httpReply = StatusOK "'o dryRunResponse" | StatusBadRequest string

definition dryRunNamespace :: string where
  "dryRunNamespace = ''dryrun-namespace''"

definition dryRunOperation :: string where
  "dryRunOperation = []"

text \<open>
  The functions of other packages the handler calls: the text of an API error, the two
  conversions to YAML and the unified diff.
\<close>

record webExternals =
  invalidMessage :: "fieldError list \<Rightarrow> string"
  JSONToYAML :: "string \<Rightarrow> string res"
  yamlMarshal :: "val \<Rightarrow> string res"
  textDiff :: "string \<Rightarrow> string \<Rightarrow> string"

text \<open>
  One rule of the request: defaulted, moved to the dry-run namespace, validated and put. A
  returned error is the text of the bad request.
\<close>

definition dryRunRule :: "('p, 'o) env \<Rightarrow> webExternals \<Rightarrow> modRuleStore \<Rightarrow> modRule option \<Rightarrow> modRuleStore res" where
  "dryRunRule E X store m = (case m of
      None \<Rightarrow> Inl nilPanic
    | Some r \<Rightarrow>
        (let r = Default r; r = r\<lparr>Namespace := dryRunNamespace\<rparr> in
         bindr (ValidateCreate E r) (\<lambda>verr. case verr of
             Some errs \<Rightarrow> Inl (GoErr (invalidMessage X errs))
           | None \<Rightarrow> bindr (Put E store r) (\<lambda>(store, perr). case perr of
                 Some e \<Rightarrow> Inl (GoErr e)
               | None \<Rightarrow> Inr store))))"

text \<open>\<open>util.Diff\<close>: the two header lines of the unified diff are cut out of its text.\<close>

fun cutHeaders :: "string \<Rightarrow> string" where
  "cutHeaders [] = []"
| "cutHeaders (c # s) =
     (if hasPrefix (c # s) ''--- a'' \<and> drop 5 (c # s) \<noteq> [] \<and> hd (drop 5 (c # s)) = CHR 0x0A \<or>
         hasPrefix (c # s) ''--- b'' \<and> drop 5 (c # s) \<noteq> [] \<and> hd (drop 5 (c # s)) = CHR 0x0A \<or>
         hasPrefix (c # s) ''+++ a'' \<and> drop 5 (c # s) \<noteq> [] \<and> hd (drop 5 (c # s)) = CHR 0x0A \<or>
         hasPrefix (c # s) ''+++ b'' \<and> drop 5 (c # s) \<noteq> [] \<and> hd (drop 5 (c # s)) = CHR 0x0A
      then cutHeaders (drop 5 s) else c # cutHeaders s)"

definition Diff :: "webExternals \<Rightarrow> string \<Rightarrow> string \<Rightarrow> string res" where
  "Diff X data1 data2 = Inr (cutHeaders (textDiff X data1 data2))"

definition dryRunDiff :: "webExternals \<Rightarrow> string \<Rightarrow> val \<Rightarrow> 'o list \<Rightarrow> string res" where
  "dryRunDiff X originalJSON patched patch =
     (if patch \<noteq> [] then
        bindr (JSONToYAML X originalJSON) (\<lambda>originalYAML.
        bindr (yamlMarshal X patched) (\<lambda>patchedYAML. Diff X originalYAML patchedYAML))
      else Inr [])"

text \<open>The work of the handler; every returned error ends it as a bad request.\<close>

definition dryRun :: "('p, 'o) env \<Rightarrow> webExternals \<Rightarrow> string \<Rightarrow> dryRunRequest \<Rightarrow> 'o dryRunResponse res" where
  "dryRun E X clusterNamespace payload =
     bindr (foldM (dryRunRule E X) (NewModRuleStore clusterNamespace) (ModRules payload)) (\<lambda>store.
     bindr (jsonMarshal E (ResourceManifest payload)) (\<lambda>originalJSON.
     bindr (CalculatePatch E store dryRunOperation dryRunNamespace originalJSON) (\<lambda>(patched, patch).
     bindr (DetermineRejections store dryRunOperation dryRunNamespace patched) (\<lambda>rejections.
     bindr (dryRunDiff X originalJSON patched patch) (\<lambda>diff.
       Inr \<lparr>resp_Patch = patch, resp_Diff = diff, resp_Rejections = rejections\<rparr>)))))"

definition dryRunHandler :: "('p, 'o) env \<Rightarrow> webExternals \<Rightarrow> string \<Rightarrow> dryRunRequest res \<Rightarrow> 'o httpReply res" where
  "dryRunHandler E X clusterNamespace bound =
     onErr bound (\<lambda>e. Inr (StatusBadRequest e)) (\<lambda>payload.
     onErr (dryRun E X clusterNamespace payload) (\<lambda>e. Inr (StatusBadRequest e)) (\<lambda>r. Inr (StatusOK r)))"

section \<open>The store of a dry run\<close>

lemma dryRunRule_put:
  "dryRunRule E X store m = Inr store' \<Longrightarrow> \<exists>r. m = Some r \<and>
     Put E store ((Default r)\<lparr>Namespace := dryRunNamespace\<rparr>) = Inr (store', None)"
  by (auto simp: dryRunRule_def Let_def bindr_Inr_iff split: option.splits prod.splits)

definition dryRunInv :: "('p, 'o) env \<Rightarrow> modRule option list \<Rightarrow> modRuleStore \<Rightarrow> bool" where
  "dryRunInv E ms s \<longleftrightarrow> storeInv s \<and> compiledStore E s \<and>
     (\<forall>ns. \<forall>x \<in> set (rulesOf s ns). \<exists>r. Some r \<in> set ms \<and> si_modRule x = (Default r)\<lparr>Namespace := dryRunNamespace\<rparr>)"

lemma dryRunRule_inv:
  assumes E: "sortsByTier E" and inv: "dryRunInv E ms s" and m: "m \<in> set ms" and run: "dryRunRule E X s m = Inr s'"
  shows "dryRunInv E ms s'"
proof -
  obtain r where r: "m = Some r" and put: "Put E s ((Default r)\<lparr>Namespace := dryRunNamespace\<rparr>) = Inr (s', None)" (is "Put E s ?r = _")
    using dryRunRule_put [OF run] by blast
  have st: "storeInv s" "compiledStore E s" using inv by (simp_all add: dryRunInv_def)
  have new: "x \<in> set (rulesOf s ns) \<or> si_modRule x = ?r" if "x \<in> set (rulesOf s' ns)" for x ns
  proof (cases "NewModRuleStoreItem E ?r")
    case (Inl f)
    then show ?thesis using put that Put_err [of E ?r _ s] Put_panic [of E ?r _ s] by (cases f) auto
  next
    case (Inr item)
    have "tier_sort tier (sortSort E)" using E by (simp add: sortsByTier_def)
    then show ?thesis
      using Put_ok [OF Inr, of s] put that st(1) NewModRuleStoreItem_rule [OF Inr]
      by (auto simp: tier_sort.sort_set set_placed storeInv_def split: if_splits)
  qed
  then show ?thesis
    using inv m r specOp_Put(1) [OF E st(1) put] Put_compiled(1) [OF E st(2,1) put]
    unfolding dryRunInv_def by metis
qed

lemma dryRun_store_inv:
  "sortsByTier E \<Longrightarrow> dryRunInv E ms s \<Longrightarrow> set xs \<subseteq> set ms \<Longrightarrow> foldM (dryRunRule E X) s xs = Inr s' \<Longrightarrow> dryRunInv E ms s'"
  by (induction xs arbitrary: s) (auto simp: bindr_Inr_iff intro: dryRunRule_inv)

lemma rulesOf_New: "rulesOf (NewModRuleStore cns) ns = []"
  by (simp add: rulesOf_def NewModRuleStore_def)

lemma Default_ops:
  "[] \<notin> set (AdmissionOperations (Spec r)) \<Longrightarrow> [] \<notin> set (AdmissionOperations (Spec (Default r)))"
  by (simp add: Default_def Let_def)

lemma dryRun_no_candidates:
  assumes "dryRunInv E ms s" and "\<forall>r. Some r \<in> set ms \<longrightarrow> [] \<notin> set (AdmissionOperations (Spec r))"
  shows "candidateRules s dryRunOperation ns = []"
proof -
  have "\<not> admits [] x" if x: "x \<in> set (rulesOf s ns')" for x ns'
  proof -
    obtain r where "Some r \<in> set ms" "si_modRule x = (Default r)\<lparr>Namespace := dryRunNamespace\<rparr>"
      using assms(1) x unfolding dryRunInv_def by blast
    then show ?thesis using assms(2) Default_ops [of r] by (simp add: admits_def)
  qed
  then show ?thesis by (simp add: candidateRules_def dryRunOperation_def filter_empty_conv)
qed

lemma no_candidates_idle:
  assumes "candidateRules s op ns = []"
  shows "patchTiers E s op ns MinInt16 st = Inr st" "DetermineRejections s op ns v = Inr []"
proof -
  show "patchTiers E s op ns MinInt16 st = Inr st"
    by (rule patchTiers_idle) (simp_all add: assms executedRules_def)
  show "DetermineRejections s op ns v = Inr []"
    using DetermineRejections_executed [of s op ns v] by (simp add: assms executedRules_def)
qed

lemma CalculatePatch_no_candidates:
  assumes "candidateRules s op ns = []" and "CalculatePatch E s op ns orig = Inr (v', patch)"
  shows "\<exists>v modified. jsonUnmarshal E (Some orig) = Inr v \<and>
    (modified = Some orig \<or> (\<exists>js. jsonMarshal E v = Inr js \<and> modified = Some js)) \<and>
    CreatePatch E (Some orig) modified = Inr patch"
proof -
  obtain v where v: "jsonUnmarshal E (Some orig) = Inr v"
    using assms(2) by (auto simp: CalculatePatch_def bindr_Inr_iff)
  have "CalculatePatch E s op ns orig =
     bindr (case extractLastAppliedConfiguration v of
              None \<Rightarrow> Inr (v, Some orig)
            | Some la \<Rightarrow> bindr (stickLastApplied v la) (\<lambda>v. bindr (jsonMarshal E v) (\<lambda>js. Inr (v, Some js)))) (\<lambda>(jsonv, modified).
     bindr (CreatePatch E (Some orig) modified) (\<lambda>ops. Inr (jsonv, ops)))"
    using CalculatePatch_start [OF v no_candidates_idle(1) [OF assms(1)]]
    by (cases "extractLastAppliedConfiguration v") (simp_all add: startState_def)
  with assms(2) v show ?thesis
    by (auto simp: bindr_Inr_iff stickLastApplied_same split: option.splits)
qed

text \<open>
  C38: the operation of a dry run is the empty string, which no rule declares: a rule without
  operations gets CREATE and UPDATE by default, and the resource schema admits CREATE, UPDATE
  and DELETE only. So a dry run that answers at all reports no rejection and the difference of
  the resource with itself, whatever the rules say.
\<close>

theorem dryRun_applies_no_rule:
  assumes E: "sortsByTier E"
    and ops: "\<forall>r. Some r \<in> set (ModRules payload) \<longrightarrow> [] \<notin> set (AdmissionOperations (Spec r))"
    and run: "dryRun E X cns payload = Inr resp"
  shows "resp_Rejections resp = [] \<and>
    (\<exists>orig v modified. jsonMarshal E (ResourceManifest payload) = Inr orig \<and>
       jsonUnmarshal E (Some orig) = Inr v \<and>
       (modified = Some orig \<or> (\<exists>js. jsonMarshal E v = Inr js \<and> modified = Some js)) \<and>
       CreatePatch E (Some orig) modified = Inr (resp_Patch resp))"
proof -
  obtain store orig v patch rejections where
    store: "foldM (dryRunRule E X) (NewModRuleStore cns) (ModRules payload) = Inr store"
    and orig: "jsonMarshal E (ResourceManifest payload) = Inr orig"
    and patch: "CalculatePatch E store dryRunOperation dryRunNamespace orig = Inr (v, patch)"
    and rej: "DetermineRejections store dryRunOperation dryRunNamespace v = Inr rejections"
    and resp: "resp_Patch resp = patch" "resp_Rejections resp = rejections"
    using run by (auto simp: dryRun_def bindr_Inr_iff)
  have "dryRunInv E (ModRules payload) (NewModRuleStore cns)"
    by (simp add: dryRunInv_def storeInv_New compiledStore_def rulesOf_New)
  from dryRun_store_inv [OF E this _ store] have "dryRunInv E (ModRules payload) store" by simp
  from dryRun_no_candidates [OF this ops] have none: "candidateRules store dryRunOperation dryRunNamespace = []" .
  show ?thesis
    using no_candidates_idle(2) [OF none, of v] rej CalculatePatch_no_candidates [OF none patch] orig resp by auto
qed

definition sampleWeb :: webExternals where
  "sampleWeb = \<lparr>invalidMessage = (\<lambda>_. ''invalid''), JSONToYAML = Inr, yamlMarshal = (\<lambda>v. Inr (fmtV v)),
     textDiff = (\<lambda>a b. a @ b)\<rparr>"

text \<open>A rule that rejects every pod, tried against a pod.\<close>

definition tryReject :: dryRunRequest where
  "tryReject = \<lparr>ResourceManifest = VStr ''Pod'', ModRules = [Some (rejectRule [] ''r'' 2 [kindIs ''Pod''])]\<rparr>"

lemma tryReject_rule:
  "(Default (rejectRule [] ''r'' 2 [kindIs ''Pod'']))\<lparr>Namespace := dryRunNamespace\<rparr> =
     rejectRule dryRunNamespace ''r'' 2 [kindIs ''Pod'']"
  by (simp add: Default_def Let_def rejectRule_def defaultMatchItem_def kindIs_def)

lemma tryReject_valid: "ValidateCreate sampleEnv (rejectRule ns ''r'' 2 [kindIs ''Pod'']) = Inr None"
  by (simp add: ValidateCreate_def validateModRule_def allErrors_def Let_def validateMatchItem_def check_def
      validateType_def NewSafeTemplate_Parse_def sample_eval hasPrefix_def strContains_def
      ModRuleTypePatch_def ModRuleTypeReject_def MatchForTypeAny_def i16_toInt16 flip: i16_inject)

lemma tryReject_store:
  "\<exists>store. foldM (dryRunRule sampleEnv sampleWeb) (NewModRuleStore ''km'') (ModRules tryReject) = Inr store"
  using Put_ok [OF rejectItem_compiled(1), of "NewModRuleStore ''km''" dryRunNamespace "''r''" 2 "''Pod''"]
  by (simp add: tryReject_def dryRunRule_def tryReject_rule tryReject_valid Let_def)

lemma tryReject_runs: "\<exists>resp. dryRun sampleEnv sampleWeb ''km'' tryReject = Inr resp \<and> resp_Patch resp = []"
proof -
  obtain store where store: "foldM (dryRunRule sampleEnv sampleWeb) (NewModRuleStore ''km'') (ModRules tryReject) = Inr store"
    using tryReject_store by blast
  have "dryRunInv sampleEnv (ModRules tryReject) (NewModRuleStore ''km'')"
    by (simp add: dryRunInv_def storeInv_New compiledStore_def rulesOf_New)
  from dryRun_store_inv [OF sortsByTier_sample this _ store] have "dryRunInv sampleEnv (ModRules tryReject) store" by simp
  then have none: "candidateRules store dryRunOperation dryRunNamespace = []"
    by (rule dryRun_no_candidates) (simp add: tryReject_def rejectRule_fields)
  have "CalculatePatch sampleEnv store dryRunOperation dryRunNamespace ''Pod'' = Inr (aPod, [])"
    using CalculatePatch_start [OF sample_decodes_pod no_candidates_idle(1) [OF none]]
    by (simp add: startState_def aPod_not_applied) (simp add: sampleEnv_def sampleCreatePatch_def)
  moreover have "jsonMarshal sampleEnv (ResourceManifest tryReject) = Inr ''Pod''"
    by (simp add: sampleEnv_def tryReject_def)
  ultimately show ?thesis
    using no_candidates_idle(2) [OF none] by (simp add: dryRun_def store dryRunDiff_def)
qed

lemma dryRun_applies_no_rule_witness:
  "\<exists>resp. dryRun sampleEnv sampleWeb ''km'' tryReject = Inr resp \<and> resp_Rejections resp = [] \<and> resp_Patch resp = []"
proof -
  obtain resp where run: "dryRun sampleEnv sampleWeb ''km'' tryReject = Inr resp" "resp_Patch resp = []"
    using tryReject_runs by blast
  have "\<forall>r. Some r \<in> set (ModRules tryReject) \<longrightarrow> [] \<notin> set (AdmissionOperations (Spec r))"
    by (simp add: tryReject_def rejectRule_fields)
  from dryRun_applies_no_rule [OF sortsByTier_sample this run(1)] run show ?thesis by blast
qed

end
