(* ===== verification/Interleaving.thy ===== *)
theory Interleaving imports PatchProps begin

text \<open>
  Concurrent writes. \<open>DetermineRejections\<close> and \<open>CalculatePatch\<close> take the store's read lock for each
  query of a tier and release it in between, so the controller's writes may fall between two queries
  of one call. Here their loops run against a history of the store: \<open>h i\<close> is the store at the i-th
  query.
\<close>

section \<open>Rejections across a history\<close>

function rejectTiersAcross :: "(nat \<Rightarrow> modRuleStore) \<Rightarrow> nat \<Rightarrow> string \<Rightarrow> string \<Rightarrow> val \<Rightarrow> int16 \<Rightarrow> string list \<Rightarrow> string list res" where
  "rejectTiersAcross h i admissionOperation namespace jsonv currentExecutionTier rejectionMessages =
     bindr (getMatchingModRuleStoreItems (h i) admissionOperation namespace (inc16 currentExecutionTier)
              ModRuleTypeReject jsonv) (\<lambda>(matchingModRules, currentExecutionTier).
       if currentExecutionTier = MaxInt16 then Inr rejectionMessages
       else bindr (concatM (rejectionMessage namespace jsonv) matchingModRules) (\<lambda>ms.
              rejectTiersAcross h (Suc i) admissionOperation namespace jsonv currentExecutionTier (rejectionMessages @ ms)))"
  by pat_completeness auto
termination
  by (relation "measure (\<lambda>(h, i, op, ns, v, cur, ms). nat (32768 - i16 (inc16 cur)))")
    (auto dest: tier_progress)

declare rejectTiersAcross.simps [simp del]

definition DetermineRejectionsAcross :: "(nat \<Rightarrow> modRuleStore) \<Rightarrow> string \<Rightarrow> string \<Rightarrow> val \<Rightarrow> string list res" where
  "DetermineRejectionsAcross h admissionOperation namespace jsonv =
     rejectTiersAcross h 0 admissionOperation namespace jsonv MinInt16 []"

text \<open>Without writes this is \<open>DetermineRejections\<close>.\<close>

lemma rejectTiersAcross_const: "rejectTiersAcross (\<lambda>_. s) i op ns v cur ms = rejectTiers s op ns v cur ms"
proof (induction s op ns v cur ms arbitrary: i rule: rejectTiers.induct)
  case (1 s op ns v cur ms)
  show ?case
    by (subst rejectTiersAcross.simps, subst rejectTiers.simps)
      (auto simp: 1 intro!: bindr_cong cong: if_cong)
qed

lemma DetermineRejectionsAcross_const: "DetermineRejectionsAcross (\<lambda>_. s) op ns v = DetermineRejections s op ns v"
  by (simp add: DetermineRejectionsAcross_def DetermineRejections_def rejectTiersAcross_const)

section \<open>One query\<close>

text \<open>Matching and messages are defined for all the rules that may be met.\<close>

definition calmHistory :: "(nat \<Rightarrow> modRuleStore) \<Rightarrow> string \<Rightarrow> string \<Rightarrow> val \<Rightarrow> bool" where
  "calmHistory h op ns v \<longleftrightarrow>
     (\<forall>i. \<forall>r \<in> set (candidateRules (h i) op ns). isOk (IsMatch r v) \<and> isOk (rejectionMessage ns v r))"

definition tierMessages :: "modRuleStore \<Rightarrow> string \<Rightarrow> string \<Rightarrow> val \<Rightarrow> int16 \<Rightarrow> string list" where
  "tierMessages s op ns v t =
     map (rejectionText ns v) (filter (ruleMatches ModRuleTypeReject v) (rulesOfTier s op ns t))"

lemma rejectTiersAcross_step:
  assumes "calmHistory h op ns v"
  shows "rejectTiersAcross h i op ns v cur ms =
    (let t = snd (potentialRules (h i) op ns (inc16 cur)) in
     if t = MaxInt16 then Inr ms
     else rejectTiersAcross h (Suc i) op ns v t (ms @ tierMessages (h i) op ns v t))"
proof -
  let ?t = "snd (potentialRules (h i) op ns (inc16 cur))"
  let ?rs = "filter (ruleMatches ModRuleTypeReject v) (rulesOfTier (h i) op ns ?t)"
  have ok: "isOk (IsMatch r v) \<and> isOk (rejectionMessage ns v r)" if "r \<in> set (rulesOfTier (h i) op ns ?t)" for r
    using assms that by (auto simp: calmHistory_def rulesOfTier_def)
  have "fst (potentialRules (h i) op ns (inc16 cur)) = rulesOfTier (h i) op ns ?t"
    by (simp add: rulesOfTier_def tq.query_rules)
  then have q: "getMatchingModRuleStoreItems (h i) op ns (inc16 cur) ModRuleTypeReject v = Inr (?rs, ?t)"
    using ok by (simp add: getMatching_select selectRules_ok)
  have "concatM (rejectionMessage ns v) ?rs = Inr (concat (map (\<lambda>r. [rejectionText ns v r]) ?rs))"
    using ok by (intro concatM_Inr rejectionMessage_ok) auto
  then show ?thesis
    by (subst rejectTiersAcross.simps) (simp add: q tierMessages_def Let_def)
qed

lemma tierMessages_source:
  "m \<in> set (tierMessages s op ns v t) \<Longrightarrow>
   \<exists>y \<in> set (candidateRules s op ns). ruleMatches ModRuleTypeReject v y \<and> m = rejectionText ns v y"
  by (auto simp: tierMessages_def rulesOfTier_def)

section \<open>What a history cannot hide\<close>

lemma rejectTiersAcross_complete:
  assumes calm: "calmHistory h op ns v"
    and x: "\<And>i. x \<in> set (candidateRules (h i) op ns)" "ruleMatches ModRuleTypeReject v x" "tier x \<noteq> MaxInt16"
  shows "cur \<noteq> MaxInt16 \<Longrightarrow> \<exists>new. rejectTiersAcross h i op ns v cur ms = Inr (ms @ new) \<and>
    (cur < tier x \<longrightarrow> rejectionText ns v x \<in> set new) \<and>
    (\<forall>m \<in> set new. \<exists>j. \<exists>y \<in> set (candidateRules (h j) op ns). ruleMatches ModRuleTypeReject v y \<and> m = rejectionText ns v y)"
proof (induction "nat (32768 - i16 (inc16 cur))" arbitrary: cur i ms rule: less_induct)
  case less
  define t where "t = snd (potentialRules (h i) op ns (inc16 cur))"
  note step = rejectTiersAcross_step [OF calm, of i cur ms, folded t_def, unfolded Let_def]
  have least: "t \<le> tier x" if "cur < tier x"
    using tq.query_least [OF x(1) [of i], of "inc16 cur"] that inc16_le_iff [OF less.prems] by (simp add: t_def)
  show ?case
  proof (cases "t = MaxInt16")
    case True
    then have "\<not> cur < tier x" using least x(3) by (metis MaxInt16_top antisym)
    then show ?thesis using step True by simp
  next
    case False
    have le: "inc16 cur \<le> t"
      using potentialRules_bound [of "inc16 cur" "h i" op ns] False by (simp add: t_def tierBound_def)
    then have "nat (32768 - i16 (inc16 t)) < nat (32768 - i16 (inc16 cur))"
      using False i16_range [of "inc16 t"] by (simp add: i16_inc16 less_eq_int16_def)
    from less.hyps [OF this False, of "Suc i" "ms @ tierMessages (h i) op ns v t"] obtain new where
      new: "rejectTiersAcross h (Suc i) op ns v t (ms @ tierMessages (h i) op ns v t) = Inr ((ms @ tierMessages (h i) op ns v t) @ new)"
        "t < tier x \<Longrightarrow> rejectionText ns v x \<in> set new"
        "\<forall>m \<in> set new. \<exists>j. \<exists>y \<in> set (candidateRules (h j) op ns). ruleMatches ModRuleTypeReject v y \<and> m = rejectionText ns v y"
      by blast
    have "rejectionText ns v x \<in> set (tierMessages (h i) op ns v t)" if "tier x = t"
      using x that by (auto simp: tierMessages_def rulesOfTier_def)
    then have "cur < tier x \<longrightarrow> rejectionText ns v x \<in> set (tierMessages (h i) op ns v t @ new)"
      using least new(2) by (auto simp: order.order_iff_strict)
    moreover have "\<forall>m \<in> set (tierMessages (h i) op ns v t @ new).
        \<exists>j. \<exists>y \<in> set (candidateRules (h j) op ns). ruleMatches ModRuleTypeReject v y \<and> m = rejectionText ns v y"
      using tierMessages_source new(3) by fastforce
    ultimately show ?thesis
      using step False new(1) by (intro exI [of _ "tierMessages (h i) op ns v t @ new"]) simp
  qed
qed

text \<open>
  Writes between the queries of one call cannot hide a standing Reject rule: if a matching one
  is a candidate at every query, its message is reported, and every message reported comes
  from a matching Reject rule that was a candidate at some query. The call ends: each query
  asks for a higher tier.
\<close>

lemma rejections_under_writes:
  assumes "calmHistory h op ns v" and "\<forall>i. x \<in> set (candidateRules (h i) op ns)"
    and "ruleMatches ModRuleTypeReject v x" and "tier x \<noteq> MinInt16" and "tier x \<noteq> MaxInt16"
  shows "\<exists>ms. DetermineRejectionsAcross h op ns v = Inr ms \<and> rejectionText ns v x \<in> set ms \<and>
    (\<forall>m \<in> set ms. \<exists>j. \<exists>y \<in> set (candidateRules (h j) op ns). ruleMatches ModRuleTypeReject v y \<and> m = rejectionText ns v y)"
proof -
  have "MinInt16 < tier x" using assms(4) MinInt16_less by blast
  moreover have "MinInt16 \<noteq> MaxInt16" by (simp flip: i16_inject)
  ultimately show ?thesis
    using rejectTiersAcross_complete [of h op ns v x MinInt16 0 "[]"] assms
    by (auto simp: DetermineRejectionsAcross_def)
qed

section \<open>Patches across a history\<close>

function patchTiersAcross :: "('p, 'o) env \<Rightarrow> (nat \<Rightarrow> modRuleStore) \<Rightarrow> nat \<Rightarrow> string \<Rightarrow> string \<Rightarrow> int16 \<Rightarrow> patchState \<Rightarrow> patchState res" where
  "patchTiersAcross E h i admissionOperation namespace currentExecutionTier st =
     bindr (getMatchingModRuleStoreItems (h i) admissionOperation namespace (inc16 currentExecutionTier)
              ModRuleTypePatch (jsonDoc st)) (\<lambda>(matchingModRules, currentExecutionTier).
       if currentExecutionTier = MaxInt16 then Inr st
       else bindr (foldM (applyRule E namespace) st matchingModRules) (\<lambda>st.
              patchTiersAcross E h (Suc i) admissionOperation namespace currentExecutionTier st))"
  by pat_completeness auto
termination
  by (relation "measure (\<lambda>(E, h, i, op, ns, cur, st). nat (32768 - i16 (inc16 cur)))")
    (auto dest: tier_progress)

declare patchTiersAcross.simps [simp del]

lemma patchTiersAcross_const: "patchTiersAcross E (\<lambda>_. s) i op ns cur st = patchTiers E s op ns cur st"
proof (induction E s op ns cur st arbitrary: i rule: patchTiers.induct)
  case (1 E s op ns cur st)
  show ?case
    by (subst patchTiersAcross.simps, subst patchTiers.simps)
      (auto simp: 1 intro!: bindr_cong cong: if_cong)
qed

lemma patchTiersAcross_step:
  "patchTiersAcross E h i op ns cur st =
    (let t = snd (potentialRules (h i) op ns (inc16 cur)) in
     if t = MaxInt16 then bindr (selectRules ModRuleTypePatch (jsonDoc st) (rulesOfTier (h i) op ns t)) (\<lambda>_. Inr st)
     else bindr (patchTier E (h i) op ns st t) (patchTiersAcross E h (Suc i) op ns t))"
proof -
  have "fst (potentialRules (h i) op ns (inc16 cur)) = rulesOfTier (h i) op ns (snd (potentialRules (h i) op ns (inc16 cur)))"
    by (simp add: rulesOfTier_def tq.query_rules)
  then show ?thesis
    by (subst patchTiersAcross.simps) (simp add: getMatching_select patchTier_def bindr_assoc Let_def)
qed

text \<open>The fold over tiers, the j-th of them on the store at query \<open>i + j\<close>.\<close>

definition patchAlong :: "('p, 'o) env \<Rightarrow> (nat \<Rightarrow> modRuleStore) \<Rightarrow> nat \<Rightarrow> string \<Rightarrow> string \<Rightarrow> patchState \<Rightarrow> int16 list \<Rightarrow> patchState res" where
  "patchAlong E h i op ns st ts = foldM (\<lambda>st (j, t). patchTier E (h j) op ns st t) st (enumerate i ts)"

lemma patchTiersAcross_along:
  "cur \<noteq> MaxInt16 \<Longrightarrow> patchTiersAcross E h i op ns cur st = Inr st' \<Longrightarrow>
    \<exists>ts. sorted_wrt (<) ts \<and> (\<forall>t \<in> set ts. cur < t \<and> t < MaxInt16) \<and> patchAlong E h i op ns st ts = Inr st' \<and>
      (\<forall>x. (\<forall>k. x \<in> set (candidateRules (h k) op ns)) \<longrightarrow> cur < tier x \<longrightarrow> tier x < MaxInt16 \<longrightarrow> tier x \<in> set ts)"
proof (induction "nat (32768 - i16 (inc16 cur))" arbitrary: cur i st rule: less_induct)
  case less
  define t where "t = snd (potentialRules (h i) op ns (inc16 cur))"
  note step = patchTiersAcross_step [of E h i op ns cur st, folded t_def, unfolded Let_def]
  have least: "t \<le> tier x" if "\<forall>k. x \<in> set (candidateRules (h k) op ns)" "cur < tier x" for x
    using tq.query_least [of x "h i" op ns "inc16 cur"] that inc16_le_iff [OF less.prems(1)] by (simp add: t_def)
  show ?case
  proof (cases "t = MaxInt16")
    case True
    then have "st' = st" using less.prems(2) step by (auto simp: bindr_Inr_iff)
    moreover have "\<not> (tier x < MaxInt16)" if "\<forall>k. x \<in> set (candidateRules (h k) op ns)" "cur < tier x" for x
      using least [OF that] True by simp
    ultimately show ?thesis by (intro exI [of _ "[]"]) (auto simp: patchAlong_def)
  next
    case False
    then obtain st1 where one: "patchTier E (h i) op ns st t = Inr st1"
      and rest: "patchTiersAcross E h (Suc i) op ns t st1 = Inr st'"
      using less.prems(2) step by (auto simp: bindr_Inr_iff)
    have le: "inc16 cur \<le> t"
      using potentialRules_bound [of "inc16 cur" "h i" op ns] False by (simp add: t_def tierBound_def)
    then have "nat (32768 - i16 (inc16 t)) < nat (32768 - i16 (inc16 cur))"
      using False i16_range [of "inc16 t"] by (simp add: i16_inc16 less_eq_int16_def)
    from less.hyps [OF this False rest] obtain ts where ts: "sorted_wrt (<) ts" "\<forall>u \<in> set ts. t < u \<and> u < MaxInt16"
      "patchAlong E h (Suc i) op ns st1 ts = Inr st'"
      "\<And>x. \<forall>k. x \<in> set (candidateRules (h k) op ns) \<Longrightarrow> t < tier x \<Longrightarrow> tier x < MaxInt16 \<Longrightarrow> tier x \<in> set ts"
      by blast
    have "cur < t" using le inc16_le_iff [OF less.prems(1)] by simp
    moreover have "patchAlong E h i op ns st (t # ts) = Inr st'"
      using one ts(3) by (simp add: patchAlong_def)
    moreover have "tier x \<in> set (t # ts)" if "\<forall>k. x \<in> set (candidateRules (h k) op ns)" "cur < tier x" "tier x < MaxInt16" for x
      using least [OF that(1,2)] ts(4) [OF that(1) _ that(3)] by (cases "t = tier x") auto
    ultimately show ?thesis
      using ts(1,2) False by (intro exI [of _ "t # ts"]) (auto simp: less_MaxInt16 intro: less_trans)
  qed
qed

text \<open>
  Patching while the store changes: the rules are applied tier by tier in strictly ascending order, each tier at most once and from
  one state of the store, on the document the tiers below produced; and no write can make the loop skip the tier of a
  rule that is a candidate throughout.
\<close>

lemma patches_under_writes:
  assumes "patchTiersAcross E h 0 op ns MinInt16 st = Inr st'"
  shows "\<exists>ts. sorted_wrt (<) ts \<and> (\<forall>t \<in> set ts. MinInt16 < t \<and> t < MaxInt16) \<and>
    patchAlong E h 0 op ns st ts = Inr st' \<and>
    (\<forall>x. (\<forall>k. x \<in> set (candidateRules (h k) op ns)) \<longrightarrow> MinInt16 < tier x \<longrightarrow> tier x < MaxInt16 \<longrightarrow> tier x \<in> set ts)"
proof -
  have "MinInt16 \<noteq> MaxInt16" by (simp flip: i16_inject)
  from patchTiersAcross_along [OF this assms] show ?thesis .
qed

end
