(* ===== verification/MainRun.thy ===== *)
theory MainRun imports GoString "HOL-Library.Multiset" begin

text \<open>
  The start of the program (src/main.go): \<open>run\<close> starts the operator and the web application in
  goroutines of their own, collects their errors through an unbuffered channel in a third one and
  joins them. The scheduler is a step relation over the phases of the four goroutines; what an
  application returns is the parameter \<open>outcome\<close> (\<open>None\<close> for a nil error).
\<close>

section \<open>Goroutines\<close>

record config =
  RunOperator :: bool
  RunWebApp :: bool
  WebAppAddr :: string
  OperatorMetricsAddr :: string
  OperatorHealthProbeAddr :: string
  ClusterModRulesNamespace :: string
  EnableLeaderElection :: bool
  EnableDevModeLog :: bool

datatype app = OperatorApp | WebServer

definition enabled :: "config \<Rightarrow> app \<Rightarrow> bool" where
  "enabled cfg a = (case a of OperatorApp \<Rightarrow> RunOperator cfg | WebServer \<Rightarrow> RunWebApp cfg)"

text \<open>
  An application runs, blocks in its send, has sent, has called \<open>wg.Done\<close>. The pump waits for an
  error, has received one, has seen the channel closed, has signalled. \<open>main\<close> waits for the group, has
  closed the channel and waits for the pump, has returned.
\<close>

datatype appPhase = Running | Sending string | Sent | AppDone
datatype pumpPhase = Ranging | Holding string | Draining | Stopped
datatype mainPhase = Waiting | Closed | Returned "string option"

record runState =
  phase :: "app \<Rightarrow> appPhase"
  pump :: pumpPhase
  mainGo :: mainPhase
  errors :: "string list"

definition runStart :: runState where
  "runStart = \<lparr>phase = (\<lambda>_. Running), pump = Ranging, mainGo = Waiting, errors = []\<rparr>"

definition joined :: "string list \<Rightarrow> string option" where
  "joined es = (if es \<noteq> [] then Some (strJoin es '';'') else None)"

text \<open>\<open>main\<close> exits with 1 on an error.\<close>

definition exitCode :: "string option \<Rightarrow> int" where
  "exitCode err = (if err \<noteq> None then 1 else 0)"

inductive runStep :: "config \<Rightarrow> (app \<Rightarrow> string option) \<Rightarrow> runState \<Rightarrow> runState \<Rightarrow> bool"
  for cfg :: config and outcome :: "app \<Rightarrow> string option" where
  skips: "phase \<sigma> a = Running \<Longrightarrow> \<not> enabled cfg a \<Longrightarrow>
    runStep cfg outcome \<sigma> (\<sigma>\<lparr>phase := (phase \<sigma>)(a := AppDone)\<rparr>)"
| returns: "phase \<sigma> a = Running \<Longrightarrow> enabled cfg a \<Longrightarrow> outcome a = None \<Longrightarrow>
    runStep cfg outcome \<sigma> (\<sigma>\<lparr>phase := (phase \<sigma>)(a := AppDone)\<rparr>)"
| fails: "phase \<sigma> a = Running \<Longrightarrow> enabled cfg a \<Longrightarrow> outcome a = Some e \<Longrightarrow>
    runStep cfg outcome \<sigma> (\<sigma>\<lparr>phase := (phase \<sigma>)(a := Sending e)\<rparr>)"
| sends: "phase \<sigma> a = Sending e \<Longrightarrow> pump \<sigma> = Ranging \<Longrightarrow>
    runStep cfg outcome \<sigma> (\<sigma>\<lparr>phase := (phase \<sigma>)(a := Sent), pump := Holding e\<rparr>)"
| wgDone: "phase \<sigma> a = Sent \<Longrightarrow> runStep cfg outcome \<sigma> (\<sigma>\<lparr>phase := (phase \<sigma>)(a := AppDone)\<rparr>)"
| appends: "pump \<sigma> = Holding e \<Longrightarrow>
    runStep cfg outcome \<sigma> (\<sigma>\<lparr>pump := Ranging, errors := errors \<sigma> @ [e]\<rparr>)"
| closes: "mainGo \<sigma> = Waiting \<Longrightarrow> \<forall>a. phase \<sigma> a = AppDone \<Longrightarrow>
    runStep cfg outcome \<sigma> (\<sigma>\<lparr>mainGo := Closed\<rparr>)"
| drains: "pump \<sigma> = Ranging \<Longrightarrow> mainGo \<sigma> = Closed \<Longrightarrow>
    runStep cfg outcome \<sigma> (\<sigma>\<lparr>pump := Draining\<rparr>)"
| finishes: "pump \<sigma> = Draining \<Longrightarrow> mainGo \<sigma> = Closed \<Longrightarrow>
    runStep cfg outcome \<sigma> (\<sigma>\<lparr>pump := Stopped, mainGo := Returned (joined (errors \<sigma>))\<rparr>)"

inductive_cases runStepE: "runStep cfg outcome \<sigma> \<tau>"

abbreviation runs :: "config \<Rightarrow> (app \<Rightarrow> string option) \<Rightarrow> runState \<Rightarrow> bool" where
  "runs cfg outcome \<equiv> (runStep cfg outcome)\<^sup>*\<^sup>* runStart"

lemma app_all: "(\<forall>a. P a) \<longleftrightarrow> P OperatorApp \<and> P WebServer"
  by (metis app.exhaust)

lemma app_ex: "(\<exists>a. P a) \<longleftrightarrow> P OperatorApp \<or> P WebServer"
  by (metis app.exhaust)

section \<open>The invariant\<close>

definition pending :: "config \<Rightarrow> (app \<Rightarrow> string option) \<Rightarrow> app \<Rightarrow> appPhase \<Rightarrow> string multiset" where
  "pending cfg outcome a ph = (case ph of
      Running \<Rightarrow> (if enabled cfg a then (case outcome a of Some e \<Rightarrow> {#e#} | None \<Rightarrow> {#}) else {#})
    | Sending e \<Rightarrow> {#e#}
    | _ \<Rightarrow> {#})"

definition held :: "pumpPhase \<Rightarrow> string multiset" where
  "held p = (case p of Holding e \<Rightarrow> {#e#} | _ \<Rightarrow> {#})"

text \<open>The errors of the applications that run and fail.\<close>

definition failures :: "config \<Rightarrow> (app \<Rightarrow> string option) \<Rightarrow> string multiset" where
  "failures cfg outcome = pending cfg outcome OperatorApp Running + pending cfg outcome WebServer Running"

definition runInv :: "config \<Rightarrow> (app \<Rightarrow> string option) \<Rightarrow> runState \<Rightarrow> bool" where
  "runInv cfg outcome \<sigma> \<longleftrightarrow>
     mset (errors \<sigma>) + held (pump \<sigma>) + pending cfg outcome OperatorApp (phase \<sigma> OperatorApp)
       + pending cfg outcome WebServer (phase \<sigma> WebServer) = failures cfg outcome \<and>
     (mainGo \<sigma> \<noteq> Waiting \<longrightarrow> (\<forall>a. phase \<sigma> a = AppDone)) \<and>
     (pump \<sigma> = Draining \<longrightarrow> mainGo \<sigma> = Closed) \<and>
     (pump \<sigma> = Stopped \<longleftrightarrow> (\<exists>r. mainGo \<sigma> = Returned r)) \<and>
     (\<forall>r. mainGo \<sigma> = Returned r \<longrightarrow> r = joined (errors \<sigma>))"

lemma runInv_start: "runInv cfg outcome runStart"
  by (simp add: runInv_def runStart_def failures_def held_def)

lemma runInv_step: "runStep cfg outcome \<sigma> \<tau> \<Longrightarrow> runInv cfg outcome \<sigma> \<Longrightarrow> runInv cfg outcome \<tau>"
proof (induction rule: runStep.induct)
  case (skips \<sigma> a)
  then show ?case by (cases a) (auto simp: runInv_def pending_def)
next
  case (returns \<sigma> a)
  then show ?case by (cases a) (auto simp: runInv_def pending_def)
next
  case (fails \<sigma> a e)
  then show ?case by (cases a) (auto simp: runInv_def pending_def)
next
  case (sends \<sigma> a e)
  then show ?case by (cases a) (auto simp: runInv_def pending_def held_def)
next
  case (wgDone \<sigma> a)
  then show ?case by (cases a) (auto simp: runInv_def pending_def)
qed (auto simp: runInv_def held_def)

lemma runs_runInv: "runs cfg outcome \<sigma> \<Longrightarrow> runInv cfg outcome \<sigma>"
  by (induction rule: rtranclp_induct) (auto simp: runInv_start runInv_step)

section \<open>Termination\<close>

definition appWeight :: "appPhase \<Rightarrow> nat" where
  "appWeight ph = (case ph of Running \<Rightarrow> 6 | Sending _ \<Rightarrow> 4 | Sent \<Rightarrow> 1 | AppDone \<Rightarrow> 0)"

definition runWeight :: "runState \<Rightarrow> nat" where
  "runWeight \<sigma> = appWeight (phase \<sigma> OperatorApp) + appWeight (phase \<sigma> WebServer) +
     (case pump \<sigma> of Ranging \<Rightarrow> 2 | Holding _ \<Rightarrow> 3 | Draining \<Rightarrow> 1 | Stopped \<Rightarrow> 0) +
     (case mainGo \<sigma> of Waiting \<Rightarrow> 2 | Closed \<Rightarrow> 1 | Returned _ \<Rightarrow> 0)"

lemma runStep_weight: "runStep cfg outcome \<sigma> \<tau> \<Longrightarrow> runWeight \<tau> < runWeight \<sigma>"
proof (induction rule: runStep.induct)
  case (skips \<sigma> a)
  then show ?case by (cases a) (auto simp: runWeight_def appWeight_def)
next
  case (returns \<sigma> a)
  then show ?case by (cases a) (auto simp: runWeight_def appWeight_def)
next
  case (fails \<sigma> a e)
  then show ?case by (cases a) (auto simp: runWeight_def appWeight_def)
next
  case (sends \<sigma> a e)
  then show ?case by (cases a) (auto simp: runWeight_def appWeight_def)
next
  case (wgDone \<sigma> a)
  then show ?case by (cases a) (auto simp: runWeight_def appWeight_def)
qed (auto simp: runWeight_def)

lemma runStep_bound: "(runStep cfg outcome ^^ n) \<sigma> \<tau> \<Longrightarrow> n + runWeight \<tau> \<le> runWeight \<sigma>"
proof (induction n arbitrary: \<tau>)
  case (Suc n)
  then obtain \<rho> where "(runStep cfg outcome ^^ n) \<sigma> \<rho>" "runStep cfg outcome \<rho> \<tau>" by auto
  then show ?case using Suc.IH runStep_weight by fastforce
qed simp

lemma app_can_step: "phase \<sigma> a = Running \<Longrightarrow> \<exists>\<tau>. runStep cfg outcome \<sigma> \<tau>"
  using skips [of \<sigma> a cfg] returns [of \<sigma> a cfg] fails [of \<sigma> a cfg] by (cases "outcome a") blast+

lemma run_not_stuck:
  assumes "runInv cfg outcome \<sigma>" and "\<forall>r. mainGo \<sigma> \<noteq> Returned r"
  shows "\<exists>\<tau>. runStep cfg outcome \<sigma> \<tau>"
proof (cases "\<forall>a. phase \<sigma> a = AppDone")
  case True
  then show ?thesis
  proof (cases "mainGo \<sigma>")
    case Closed
    then show ?thesis
      using assms(1) drains [of \<sigma> cfg outcome] finishes [of \<sigma> cfg outcome] appends [of \<sigma> _ cfg outcome]
      by (cases "pump \<sigma>") (blast | simp add: runInv_def)+
  qed (use assms(2) closes [of \<sigma> cfg outcome] True in blast)+
next
  case False
  then obtain a where a: "phase \<sigma> a \<noteq> AppDone" by blast
  then have "mainGo \<sigma> = Waiting" using assms(1) by (auto simp: runInv_def)
  then have "pump \<sigma> = Ranging \<or> (\<exists>e. pump \<sigma> = Holding e)"
    using assms(1) by (cases "pump \<sigma>") (auto simp: runInv_def)
  then show ?thesis
    using a app_can_step [of \<sigma> a] sends [of \<sigma> a] wgDone [of \<sigma> a] appends [of \<sigma>]
    by (cases "phase \<sigma> a") blast+
qed

section \<open>Properties\<close>

lemma returned_errors:
  assumes "runs cfg outcome \<sigma>" and "mainGo \<sigma> = Returned r"
  shows "mset (errors \<sigma>) = failures cfg outcome" "r = joined (errors \<sigma>)"
  using runs_runInv [OF assms(1)] assms(2) by (auto simp: runInv_def pending_def held_def)

lemma failures_empty: "failures cfg outcome = {#} \<longleftrightarrow> (\<forall>a. enabled cfg a \<longrightarrow> outcome a = None)"
  by (auto simp: failures_def pending_def app_all split: option.splits)

lemma run_failures:
  assumes "runs cfg outcome \<sigma>" and "mainGo \<sigma> = Returned r"
  shows "exitCode r = 1 \<longleftrightarrow> (\<exists>a. enabled cfg a \<and> outcome a \<noteq> None)"
proof -
  have "exitCode r = 1 \<longleftrightarrow> mset (errors \<sigma>) \<noteq> {#}"
    by (simp add: returned_errors(2) [OF assms] exitCode_def joined_def)
  then show ?thesis by (simp add: returned_errors(1) [OF assms] failures_empty)
qed

text \<open>
  C31: when \<open>run\<close> returns, its error joins the errors of exactly the applications that were
  enabled and failed, each once, in some order, and it is nil exactly if there are none, so the process
  exits with 1 exactly if one of them failed. On no schedule is an error sent on the closed
  channel, which would panic.
\<close>

theorem run_collects_errors:
  assumes "runs cfg outcome \<sigma>"
  shows "(\<forall>r. mainGo \<sigma> = Returned r \<longrightarrow>
      (\<exists>es. mset es = failures cfg outcome \<and> r = joined es \<and>
        (exitCode r = 1 \<longleftrightarrow> (\<exists>a. enabled cfg a \<and> outcome a \<noteq> None)))) \<and>
    (mainGo \<sigma> \<noteq> Waiting \<longrightarrow> (\<forall>a e. phase \<sigma> a \<noteq> Sending e))"
proof (intro conjI impI allI)
  fix r assume "mainGo \<sigma> = Returned r"
  then show "\<exists>es. mset es = failures cfg outcome \<and> r = joined es \<and>
      (exitCode r = 1 \<longleftrightarrow> (\<exists>a. enabled cfg a \<and> outcome a \<noteq> None))"
    using returned_errors [OF assms] run_failures [OF assms] by blast
next
  fix a e assume "mainGo \<sigma> \<noteq> Waiting"
  then show "phase \<sigma> a \<noteq> Sending e" using runs_runInv [OF assms] by (simp add: runInv_def)
qed

text \<open>One failing application, the other disabled: the run to its end.\<close>

definition operatorOnly :: config where
  "operatorOnly = \<lparr>RunOperator = True, RunWebApp = False, WebAppAddr = '':8081'', OperatorMetricsAddr = '':8082'',
     OperatorHealthProbeAddr = '':8083'', ClusterModRulesNamespace = ''kubemod-system'',
     EnableLeaderElection = False, EnableDevModeLog = False\<rparr>"

lemma runs_step: "runs cfg outcome \<sigma> \<Longrightarrow> runStep cfg outcome \<sigma> \<tau> \<Longrightarrow> runs cfg outcome \<tau>"
  by (rule rtranclp.rtrancl_into_rtrancl)

lemma failing_run:
  assumes "outcome OperatorApp = Some ''no config''"
  shows "\<exists>\<sigma>. runs operatorOnly outcome \<sigma> \<and> mainGo \<sigma> = Returned (joined [''no config''])"
proof -
  note start = rtranclp.rtrancl_refl [of "runStep operatorOnly outcome" runStart]
  note s1 = runs_step [OF start fails [where a = OperatorApp and e = "''no config''"]]
  note s2 = runs_step [OF s1 skips [where a = WebServer]]
  note s3 = runs_step [OF s2 sends [where a = OperatorApp and e = "''no config''"]]
  note s4 = runs_step [OF s3 wgDone [where a = OperatorApp]]
  note s5 = runs_step [OF s4 appends [where e = "''no config''"]]
  note s6 = runs_step [OF s5 closes]
  note s7 = runs_step [OF s6 drains]
  note s8 = runs_step [OF s7 finishes]
  show ?thesis
    by (intro exI conjI, rule s8)
      (simp_all add: app_all runStart_def enabled_def operatorOnly_def assms)
qed

lemma run_collects_errors_witness:
  "\<exists>\<sigma>. runs operatorOnly (\<lambda>_. Some ''no config'') \<sigma> \<and> mainGo \<sigma> = Returned (Some ''no config'') \<and>
     exitCode (Some ''no config'') = 1"
proof -
  obtain \<sigma> where s: "runs operatorOnly (\<lambda>_. Some ''no config'') \<sigma>" "mainGo \<sigma> = Returned (joined [''no config''])"
    using failing_run [of "\<lambda>_. Some ''no config''"] by blast
  have "exitCode (joined [''no config'']) = 1"
    using run_collects_errors [OF s(1)] s(2) by (auto simp: enabled_def operatorOnly_def split: app.splits)
  then show ?thesis using s by (auto simp: joined_def)
qed

text \<open>
  C32: \<open>run\<close> always returns once its applications do: no schedule has more than sixteen steps, and a state in
  which no goroutine can move is one in which \<open>run\<close> has returned, so nothing deadlocks on the
  channels or the wait group.
\<close>

theorem run_returns:
  assumes "(runStep cfg outcome ^^ n) runStart \<sigma>"
  shows "n \<le> 16 \<and> ((\<exists>\<tau>. runStep cfg outcome \<sigma> \<tau>) \<or> (\<exists>r. mainGo \<sigma> = Returned r))"
proof -
  have "runWeight runStart = 16" by (simp add: runWeight_def runStart_def appWeight_def)
  moreover have "runs cfg outcome \<sigma>" using assms by (rule relpowp_imp_rtranclp)
  ultimately show ?thesis
    using runStep_bound [OF assms] run_not_stuck [OF runs_runInv] by fastforce
qed

lemma run_returns_witness:
  "\<exists>\<sigma>. (runStep operatorOnly (\<lambda>_. None) ^^ 1) runStart \<sigma> \<and>
     ((\<exists>\<tau>. runStep operatorOnly (\<lambda>_. None) \<sigma> \<tau>) \<or> (\<exists>r. mainGo \<sigma> = Returned r))"
proof -
  have "runStep operatorOnly (\<lambda>_. None) runStart (runStart\<lparr>phase := (phase runStart)(WebServer := AppDone)\<rparr>)"
    by (rule skips) (simp_all add: runStart_def enabled_def operatorOnly_def)
  then have "(runStep operatorOnly (\<lambda>_. None) ^^ 1) runStart (runStart\<lparr>phase := (phase runStart)(WebServer := AppDone)\<rparr>)"
    by (simp only: relpowp_1)
  then show ?thesis using run_returns by blast
qed

end
