(* ===== verification/Startup.thy ===== *)
theory Startup imports MainRun begin

text \<open>
  The start of the two applications (src/app/operatorapp.go, src/app/webapp.go and their
  constructors in src/app/wire_gen.go). What they do is a sequence of calls into
  controller-runtime and net/http, with an early return on an error; the model keeps the calls as a
  trace, and the parameter \<open>answer\<close> gives the error of a call, if any. \<open>GetConfigOrDie\<close>, which ends the
  process when there is no cluster configuration, is taken to have returned.
\<close>

section \<open>The operator\<close>










section \<open>The web application\<close>






section \<open>Laws\<close>
















end
