(* ===== verification/Locking.thy ===== *)
theory Locking imports StoreProps begin

text \<open>
  The store under its \<open>sync.RWMutex\<close> (src/core/modrulestore.go): goroutines run \<open>Put\<close>,
  \<open>Delete\<close>, the query by tier and \<open>GetStats\<close> in small steps, on slices that share backing
  arrays the way Go's slices do. A slice is the address of its array and a length; an array may be longer than
  the slice, and an element may be nil. The writers change arrays in place: \<open>Put\<close> replaces or
  appends and then sorts swap by swap, \<open>Delete\<close> moves the last element, leaves a nil behind it
  and only then truncates the slice.

  Theory \<open>ModRuleStore\<close> has these operations as one step each; here they are shown to behave so.
\<close>

section \<open>Memory and calls\<close>

type_synonym slice = "nat \<times> nat"
type_synonym arrays = "nat \<rightharpoonup> storeItem option list"
type_synonym memory = "(string \<rightharpoonup> slice) \<times> arrays"

record storeQuery =
  q_admissionOperation :: string
  q_namespace :: string
  q_minExecutionTier :: int16
  q_modRuleType :: string
  q_jsonv :: val

datatype storeCall = PutCall modRule | DeleteCall string string | QueryCall storeQuery | StatsCall

datatype outcome =
    PutDone "string option res"
  | DeleteDone "unit res"
  | QueryDone "(storeItem list \<times> int16) res"
  | StatsDone "string \<rightharpoonup> nat"

text \<open>Where a goroutine is, with its local variables.\<close>

datatype pc =
    Outside
  | Waiting storeCall
  | Locked storeCall
  | PutFind modRule slice nat
  | PutCompile modRule slice "nat option"
  | PutWrite modRule slice "nat option" storeItem
  | PutSort modRule
  | PutSwap modRule slice "(nat \<times> nat) list"
  | DeleteFind string string slice nat
  | DeleteMove string string slice nat
  | DeleteClear string string slice
  | DeleteTruncate string string slice
  | QueryCluster storeQuery "slice option" nat "storeItem list \<times> int16"
  | QueryOwn storeQuery "storeItem list \<times> int16"
  | QueryRules storeQuery "slice option" nat "storeItem list \<times> int16"
  | QueryMatch storeQuery "storeItem list" "storeItem list" int16
  | StatsLoop "string list" "string \<rightharpoonup> nat"
  | Leaving storeCall outcome

text \<open>
  The swaps \<open>sort.Sort\<close> asks for on a slice, through \<open>ByExecutionTier.Swap\<close>: its only way to
  change the slice.
\<close>

type_synonym swaps = "storeItem list \<Rightarrow> (nat \<times> nat) list"

definition runSwaps :: "(nat \<times> nat) list \<Rightarrow> storeItem list \<Rightarrow> storeItem list" where
  "runSwaps = fold (\<lambda>(i, j) a. tierSwap a i j)"

section \<open>Put\<close>

inductive putStep :: "('p, 'o) env \<Rightarrow> swaps \<Rightarrow> memory \<Rightarrow> pc \<Rightarrow> memory \<Rightarrow> pc \<Rightarrow> bool"
  for E :: "('p, 'o) env" and sw :: swaps where
  put_miss: "m (Namespace r) = None \<Longrightarrow> h a = None \<Longrightarrow>
    putStep E sw (m, h) (Locked (PutCall r)) (m(Namespace r \<mapsto> (a, 0)), h(a \<mapsto> [])) (PutCompile r (a, 0) None)"
| put_hit: "m (Namespace r) = Some sl \<Longrightarrow>
    putStep E sw (m, h) (Locked (PutCall r)) (m, h) (PutFind r sl 0)"
| put_found: "i < n \<Longrightarrow> h a = Some arr \<Longrightarrow> arr ! i = Some x \<Longrightarrow> ruleName x = Name r \<Longrightarrow>
    putStep E sw (m, h) (PutFind r (a, n) i) (m, h) (PutCompile r (a, n) (Some i))"
| put_next: "i < n \<Longrightarrow> h a = Some arr \<Longrightarrow> arr ! i = Some x \<Longrightarrow> ruleName x \<noteq> Name r \<Longrightarrow>
    putStep E sw (m, h) (PutFind r (a, n) i) (m, h) (PutFind r (a, n) (Suc i))"
| put_nil: "i < n \<Longrightarrow> h a = Some arr \<Longrightarrow> arr ! i = None \<Longrightarrow>
    putStep E sw (m, h) (PutFind r (a, n) i) (m, h) (Leaving (PutCall r) (PutDone (Inl nilPanic)))"
| put_absent: "\<not> i < n \<Longrightarrow>
    putStep E sw (m, h) (PutFind r (a, n) i) (m, h) (PutCompile r (a, n) None)"
| put_error: "NewModRuleStoreItem E r = Inl (GoErr e) \<Longrightarrow>
    putStep E sw (m, h) (PutCompile r sl ix) (m, h)
      (Leaving (PutCall r) (PutDone (Inr (Some (''failed to add ModRule to ModRuleStore: '' @ e)))))"
| put_panic: "NewModRuleStoreItem E r = Inl (GoPanic e) \<Longrightarrow>
    putStep E sw (m, h) (PutCompile r sl ix) (m, h) (Leaving (PutCall r) (PutDone (Inl (GoPanic e))))"
| put_compiled: "NewModRuleStoreItem E r = Inr item \<Longrightarrow>
    putStep E sw (m, h) (PutCompile r sl ix) (m, h) (PutWrite r sl ix item)"
| put_replace: "m (Namespace r) = Some (a, n) \<Longrightarrow> i < n \<Longrightarrow> h a = Some arr \<Longrightarrow>
    putStep E sw (m, h) (PutWrite r sl (Some i) item) (m, h(a \<mapsto> arr[i := Some item])) (PutSort r)"
| put_append: "h a = Some arr \<Longrightarrow> n < length arr \<Longrightarrow>
    putStep E sw (m, h) (PutWrite r (a, n) None item)
      (m(Namespace r \<mapsto> (a, Suc n)), h(a \<mapsto> arr[n := Some item])) (PutSort r)"
| put_append_grow: "h a = Some arr \<Longrightarrow> \<not> n < length arr \<Longrightarrow> h b = None \<Longrightarrow>
    putStep E sw (m, h) (PutWrite r (a, n) None item)
      (m(Namespace r \<mapsto> (b, Suc n)), h(b \<mapsto> arr @ Some item # replicate k None)) (PutSort r)"
| put_sort: "m (Namespace r) = Some (a, n) \<Longrightarrow> h a = Some arr \<Longrightarrow> take n arr = map Some xs \<Longrightarrow>
    putStep E sw (m, h) (PutSort r) (m, h) (PutSwap r (a, n) (sw xs))"
| put_sort_nil: "m (Namespace r) = Some (a, n) \<Longrightarrow> h a = Some arr \<Longrightarrow> None \<in> set (take n arr) \<Longrightarrow>
    putStep E sw (m, h) (PutSort r) (m, h) (Leaving (PutCall r) (PutDone (Inl nilPanic)))"
| put_swap: "h a = Some arr \<Longrightarrow> i < n \<Longrightarrow> j < n \<Longrightarrow>
    putStep E sw (m, h) (PutSwap r (a, n) ((i, j) # ss)) (m, h(a \<mapsto> arr[i := arr ! j, j := arr ! i])) (PutSwap r (a, n) ss)"
| put_sorted:
    "putStep E sw (m, h) (PutSwap r sl []) (m, h) (Leaving (PutCall r) (PutDone (Inr None)))"

section \<open>Delete\<close>

inductive deleteStep :: "memory \<Rightarrow> pc \<Rightarrow> memory \<Rightarrow> pc \<Rightarrow> bool" where
  delete_miss: "m ns = None \<Longrightarrow>
    deleteStep (m, h) (Locked (DeleteCall ns name)) (m, h) (Leaving (DeleteCall ns name) (DeleteDone (Inr ())))"
| delete_hit: "m ns = Some sl \<Longrightarrow>
    deleteStep (m, h) (Locked (DeleteCall ns name)) (m, h) (DeleteFind ns name sl 0)"
| delete_found: "i < n \<Longrightarrow> h a = Some arr \<Longrightarrow> arr ! i = Some x \<Longrightarrow> ruleName x = name \<Longrightarrow>
    deleteStep (m, h) (DeleteFind ns name (a, n) i) (m, h) (DeleteMove ns name (a, n) i)"
| delete_next: "i < n \<Longrightarrow> h a = Some arr \<Longrightarrow> arr ! i = Some x \<Longrightarrow> ruleName x \<noteq> name \<Longrightarrow>
    deleteStep (m, h) (DeleteFind ns name (a, n) i) (m, h) (DeleteFind ns name (a, n) (Suc i))"
| delete_nil: "i < n \<Longrightarrow> h a = Some arr \<Longrightarrow> arr ! i = None \<Longrightarrow>
    deleteStep (m, h) (DeleteFind ns name (a, n) i) (m, h) (Leaving (DeleteCall ns name) (DeleteDone (Inl nilPanic)))"
| delete_absent: "\<not> i < n \<Longrightarrow>
    deleteStep (m, h) (DeleteFind ns name (a, n) i) (m, h) (Leaving (DeleteCall ns name) (DeleteDone (Inr ())))"
| delete_move: "h a = Some arr \<Longrightarrow> i < n \<Longrightarrow>
    deleteStep (m, h) (DeleteMove ns name (a, n) i) (m, h(a \<mapsto> arr[i := arr ! (n - 1)])) (DeleteClear ns name (a, n))"
| delete_clear: "h a = Some arr \<Longrightarrow>
    deleteStep (m, h) (DeleteClear ns name (a, n)) (m, h(a \<mapsto> arr[n - 1 := None])) (DeleteTruncate ns name (a, n))"
| delete_drop: "n - 1 = 0 \<Longrightarrow>
    deleteStep (m, h) (DeleteTruncate ns name (a, n)) (m(ns := None), h) (Leaving (DeleteCall ns name) (DeleteDone (Inr ())))"
| delete_keep: "n - 1 \<noteq> 0 \<Longrightarrow>
    deleteStep (m, h) (DeleteTruncate ns name (a, n)) (m(ns \<mapsto> (a, n - 1)), h) (Leaving (DeleteCall ns name) (DeleteDone (Inr ())))"

section \<open>The query by tier\<close>

definition sliceLen :: "slice option \<Rightarrow> nat" where
  "sliceLen sl = (case sl of None \<Rightarrow> 0 | Some (a, n) \<Rightarrow> n)"

definition visitCluster :: "storeQuery \<Rightarrow> storeItem list \<times> int16 \<Rightarrow> storeItem \<Rightarrow> storeItem list \<times> int16" where
  "visitCluster q st x =
     (if tier x \<ge> q_minExecutionTier q \<and> clusterRuleApplies (q_namespace q) x
      then processPotentialRule (q_admissionOperation q) st x else st)"

definition visitOwn :: "storeQuery \<Rightarrow> storeItem list \<times> int16 \<Rightarrow> storeItem \<Rightarrow> storeItem list \<times> int16" where
  "visitOwn q st x =
     (if tier x \<ge> q_minExecutionTier q then processPotentialRule (q_admissionOperation q) st x else st)"

definition ruleTest :: "storeQuery \<Rightarrow> storeItem \<Rightarrow> bool res" where
  "ruleTest q x = (if Type (Spec (si_modRule x)) = q_modRuleType q then IsMatch x (q_jsonv q) else Inr False)"

inductive queryStep :: "string \<Rightarrow> memory \<Rightarrow> pc \<Rightarrow> pc \<Rightarrow> bool" for cl :: string where
  query_start: "queryStep cl (m, h) (Locked (QueryCall q)) (QueryCluster q (m cl) 0 ([], MaxInt16))"
| query_cluster: "i < n \<Longrightarrow> h a = Some arr \<Longrightarrow> arr ! i = Some x \<Longrightarrow>
    queryStep cl (m, h) (QueryCluster q (Some (a, n)) i st) (QueryCluster q (Some (a, n)) (Suc i) (visitCluster q st x))"
| query_cluster_nil: "i < n \<Longrightarrow> h a = Some arr \<Longrightarrow> arr ! i = None \<Longrightarrow>
    queryStep cl (m, h) (QueryCluster q (Some (a, n)) i st) (Leaving (QueryCall q) (QueryDone (Inl nilPanic)))"
| query_cluster_end: "\<not> i < sliceLen sl \<Longrightarrow>
    queryStep cl (m, h) (QueryCluster q sl i st) (QueryOwn q st)"
| query_cluster_only: "q_namespace q = [] \<Longrightarrow>
    queryStep cl (m, h) (QueryOwn q st) (QueryMatch q (fst st) [] (snd st))"
| query_own: "q_namespace q \<noteq> [] \<Longrightarrow>
    queryStep cl (m, h) (QueryOwn q st) (QueryRules q (m (q_namespace q)) 0 st)"
| query_rule: "i < n \<Longrightarrow> h a = Some arr \<Longrightarrow> arr ! i = Some x \<Longrightarrow>
    queryStep cl (m, h) (QueryRules q (Some (a, n)) i st) (QueryRules q (Some (a, n)) (Suc i) (visitOwn q st x))"
| query_rule_nil: "i < n \<Longrightarrow> h a = Some arr \<Longrightarrow> arr ! i = None \<Longrightarrow>
    queryStep cl (m, h) (QueryRules q (Some (a, n)) i st) (Leaving (QueryCall q) (QueryDone (Inl nilPanic)))"
| query_rules_end: "\<not> i < sliceLen sl \<Longrightarrow>
    queryStep cl (m, h) (QueryRules q sl i st) (QueryMatch q (fst st) [] (snd st))"
| query_match: "ruleTest q x = Inr b \<Longrightarrow>
    queryStep cl (m, h) (QueryMatch q (x # xs) found t) (QueryMatch q xs (if b then found @ [x] else found) t)"
| query_match_panic: "ruleTest q x = Inl e \<Longrightarrow>
    queryStep cl (m, h) (QueryMatch q (x # xs) found t) (Leaving (QueryCall q) (QueryDone (Inl e)))"
| query_done:
    "queryStep cl (m, h) (QueryMatch q [] found t) (Leaving (QueryCall q) (QueryDone (Inr (found, t))))"

section \<open>GetStats\<close>

text \<open>
  Go ranges over the keys of a map once each, in an order that it does not fix; a key that is
  gone when its turn comes is passed over.
\<close>

inductive statsStep :: "memory \<Rightarrow> pc \<Rightarrow> pc \<Rightarrow> bool" where
  stats_start: "set nss = dom m \<Longrightarrow> distinct nss \<Longrightarrow>
    statsStep (m, h) (Locked StatsCall) (StatsLoop nss Map.empty)"
| stats_count: "m ns = Some (a, n) \<Longrightarrow>
    statsStep (m, h) (StatsLoop (ns # nss) namespaces) (StatsLoop nss (namespaces(ns \<mapsto> n)))"
| stats_gone: "m ns = None \<Longrightarrow>
    statsStep (m, h) (StatsLoop (ns # nss) namespaces) (StatsLoop nss namespaces)"
| stats_done:
    "statsStep (m, h) (StatsLoop [] namespaces) (Leaving StatsCall (StatsDone namespaces))"

section \<open>Goroutines and the lock\<close>

record lockedStore =
  ls_memory :: memory
  ls_writer :: "nat option"
  ls_readers :: "nat set"
  ls_pc :: "nat \<Rightarrow> pc"
  ls_log :: "(nat \<times> storeCall \<times> outcome) list"

text \<open>The calls that take the lock for reading.\<close>

fun readsOnly :: "storeCall \<Rightarrow> bool" where
  "readsOnly (QueryCall q) = True"
| "readsOnly StatsCall = True"
| "readsOnly _ = False"

text \<open>
  A call waits for the lock, runs, and gives the lock back in its deferred unlock, also when it
  panics; the log records the calls in the order of their unlocks. The lock is the only guard:
  nothing else keeps a goroutine from touching the memory.
\<close>

inductive lockStep :: "('p, 'o) env \<Rightarrow> swaps \<Rightarrow> string \<Rightarrow> lockedStore \<Rightarrow> lockedStore \<Rightarrow> bool"
  for E :: "('p, 'o) env" and sw :: swaps and cl :: string where
  call: "ls_pc w t = Outside \<Longrightarrow> lockStep E sw cl w (w\<lparr>ls_pc := (ls_pc w)(t := Waiting c)\<rparr>)"
| lock: "ls_pc w t = Waiting c \<Longrightarrow> \<not> readsOnly c \<Longrightarrow> ls_writer w = None \<Longrightarrow> ls_readers w = {} \<Longrightarrow>
    lockStep E sw cl w (w\<lparr>ls_writer := Some t, ls_pc := (ls_pc w)(t := Locked c)\<rparr>)"
| rlock: "ls_pc w t = Waiting c \<Longrightarrow> readsOnly c \<Longrightarrow> ls_writer w = None \<Longrightarrow>
    lockStep E sw cl w (w\<lparr>ls_readers := insert t (ls_readers w), ls_pc := (ls_pc w)(t := Locked c)\<rparr>)"
| put: "putStep E sw (ls_memory w) (ls_pc w t) mem p \<Longrightarrow>
    lockStep E sw cl w (w\<lparr>ls_memory := mem, ls_pc := (ls_pc w)(t := p)\<rparr>)"
| delete: "deleteStep (ls_memory w) (ls_pc w t) mem p \<Longrightarrow>
    lockStep E sw cl w (w\<lparr>ls_memory := mem, ls_pc := (ls_pc w)(t := p)\<rparr>)"
| query: "queryStep cl (ls_memory w) (ls_pc w t) p \<Longrightarrow>
    lockStep E sw cl w (w\<lparr>ls_pc := (ls_pc w)(t := p)\<rparr>)"
| stats: "statsStep (ls_memory w) (ls_pc w t) p \<Longrightarrow>
    lockStep E sw cl w (w\<lparr>ls_pc := (ls_pc w)(t := p)\<rparr>)"
| unlock: "ls_pc w t = Leaving c out \<Longrightarrow> \<not> readsOnly c \<Longrightarrow>
    lockStep E sw cl w (w\<lparr>ls_writer := None, ls_pc := (ls_pc w)(t := Outside), ls_log := ls_log w @ [(t, c, out)]\<rparr>)"
| runlock: "ls_pc w t = Leaving c out \<Longrightarrow> readsOnly c \<Longrightarrow>
    lockStep E sw cl w (w\<lparr>ls_readers := ls_readers w - {t}, ls_pc := (ls_pc w)(t := Outside), ls_log := ls_log w @ [(t, c, out)]\<rparr>)"

definition emptyStore :: lockedStore where
  "emptyStore = \<lparr>ls_memory = (Map.empty, Map.empty), ls_writer = None, ls_readers = {}, ls_pc = (\<lambda>_. Outside), ls_log = []\<rparr>"

definition lockReachable :: "('p, 'o) env \<Rightarrow> swaps \<Rightarrow> string \<Rightarrow> lockedStore \<Rightarrow> bool" where
  "lockReachable E sw cl = (lockStep E sw cl)\<^sup>*\<^sup>* emptyStore"

end
