(* ===== verification/LockingProps.thy ===== *)
theory LockingProps imports Locking begin

text \<open>
  The store is linearizable: whatever goroutines do at the same time, the calls that have
  returned gave what they give one at a time, in the order of their unlocks. The proof is an
  invariant of the reachable states: who holds the lock, what the memory represents while a
  writer is half way, and what a reader has collected so far.
\<close>

section \<open>Slices and the map they represent\<close>

definition sliceIs :: "arrays \<Rightarrow> slice \<Rightarrow> storeItem list \<Rightarrow> bool" where
  "sliceIs h sl xs \<longleftrightarrow> (\<exists>arr. h (fst sl) = Some arr \<and> snd sl = length xs \<and> take (length xs) arr = map Some xs)"

definition memRep :: "memory \<Rightarrow> (string \<rightharpoonup> storeItem list) \<Rightarrow> bool" where
  "memRep mem f \<longleftrightarrow> (\<forall>ns. rel_option (sliceIs (snd mem)) (fst mem ns) (f ns)) \<and>
     (\<forall>ns ns' a n n'. fst mem ns = Some (a, n) \<longrightarrow> fst mem ns' = Some (a, n') \<longrightarrow> ns = ns')"

lemma memRep_None: "memRep (m, h) f \<Longrightarrow> m ns = None \<longleftrightarrow> f ns = None"
  unfolding memRep_def by (metis fst_conv option.rel_sel snd_conv)

lemma memRep_Some:
  assumes "memRep (m, h) f" and "m ns = Some sl"
  obtains xs where "f ns = Some xs" and "sliceIs h sl xs"
  using assms unfolding memRep_def by (metis fst_conv option_rel_Some1 snd_conv)

lemma memRep_here: "memRep (m, h) (f(ns \<mapsto> xs)) \<Longrightarrow> m ns = Some sl \<Longrightarrow> sliceIs h sl xs"
  by (erule memRep_Some) auto

lemma sliceIs_elem: "sliceIs h (a, n) xs \<Longrightarrow> h a = Some arr \<Longrightarrow> i < n \<Longrightarrow> arr ! i = Some (xs ! i)"
  unfolding sliceIs_def by (metis fst_conv nth_map nth_take option.inject snd_conv)

lemma sliceIs_len: "sliceIs h (a, n) xs \<Longrightarrow> n = length xs"
  by (auto simp: sliceIs_def)

lemma sliceIs_array: "sliceIs h (a, n) xs \<Longrightarrow> h a = Some arr \<Longrightarrow> take (length xs) arr = map Some xs \<and> length xs \<le> length arr"
  unfolding sliceIs_def by (metis fst_conv length_map length_take min.absorb_iff1 min.commute option.inject)

text \<open>A write to one array changes what one namespace has, when no other slice lies in it.\<close>

lemma memRep_write:
  assumes "memRep (m, h) f" and "\<And>ns' n. ns' \<noteq> ns \<Longrightarrow> m ns' \<noteq> Some (b, n)"
    and "take (length ys) arr = map Some ys"
  shows "memRep (m(ns \<mapsto> (b, length ys)), h(b \<mapsto> arr)) (f(ns \<mapsto> ys))"
proof -
  have "rel_option (sliceIs (h(b \<mapsto> arr))) (m ns') (f ns')" if "ns' \<noteq> ns" for ns'
  proof (cases "m ns'")
    case None
    then show ?thesis using memRep_None [OF assms(1), of ns'] by simp
  next
    case (Some sl)
    obtain xs where "f ns' = Some xs" "sliceIs h sl xs" by (rule memRep_Some [OF assms(1) Some])
    moreover have "fst sl \<noteq> b" using Some assms(2) [OF that, of "snd sl"] by (cases sl) auto
    ultimately show ?thesis using Some by (auto simp: sliceIs_def)
  qed
  moreover have "m ns' = Some (a, n) \<Longrightarrow> m ns'' = Some (a, n') \<Longrightarrow> ns' = ns''" for ns' ns'' a n n'
    using assms(1) unfolding memRep_def by auto
  ultimately show ?thesis
    using assms(2,3) unfolding memRep_def by (auto simp: sliceIs_def)
qed

lemma memRep_alloc:
  assumes "memRep (m, h) f" and "h b = None" and "take (length ys) arr = map Some ys"
  shows "memRep (m(ns \<mapsto> (b, length ys)), h(b \<mapsto> arr)) (f(ns \<mapsto> ys))"
proof (rule memRep_write [OF assms(1) _ assms(3)])
  fix ns' n
  show "m ns' \<noteq> Some (b, n)" using assms(1,2) by (auto elim!: memRep_Some simp: sliceIs_def)
qed

lemma memRep_inplace:
  assumes "memRep (m, h) (f(ns \<mapsto> xs))" and "m ns = Some (a, n)" and "take (length ys) arr = map Some ys"
  shows "memRep (m(ns \<mapsto> (a, length ys)), h(a \<mapsto> arr)) (f(ns \<mapsto> ys))"
proof -
  have "m ns' \<noteq> Some (a, k)" if "ns' \<noteq> ns" for ns' k
    using assms(1,2) that unfolding memRep_def by auto
  from memRep_write [OF assms(1) this assms(3), of ns] show ?thesis by simp
qed

text \<open>The same when the length stays: the map of slices need not be written.\<close>

lemma memRep_same:
  assumes "memRep (m, h) (f(ns \<mapsto> xs))" and "m ns = Some (a, n)" and "take (length ys) arr = map Some ys" and "length ys = n"
  shows "memRep (m, h(a \<mapsto> arr)) (f(ns \<mapsto> ys))"
  using memRep_inplace [OF assms(1,2,3)] assms(2,4) by (simp add: fun_upd_idem)

lemma memRep_remove: "memRep (m, h) f \<Longrightarrow> memRep (m(ns := None), h) (f(ns := None))"
  unfolding memRep_def by (auto split: if_splits)

section \<open>The calls as single steps\<close>

definition slotted :: "modRuleStore \<Rightarrow> string \<Rightarrow> modRuleStore" where
  "slotted s ns = (case modRuleListMap s ns of None \<Rightarrow> s\<lparr>modRuleListMap := (modRuleListMap s)(ns \<mapsto> [])\<rparr> | Some _ \<Rightarrow> s)"

text \<open>A \<open>Put\<close> that panics while it compiles the rule has entered the namespace.\<close>

definition atomicCall :: "('p, 'o) env \<Rightarrow> modRuleStore \<Rightarrow> storeCall \<Rightarrow> modRuleStore \<times> outcome" where
  "atomicCall E s c = (case c of
     PutCall r \<Rightarrow> (case Put E s r of
         Inr (s', e) \<Rightarrow> (s', PutDone (Inr e))
       | Inl f \<Rightarrow> (slotted s (Namespace r), PutDone (Inl f)))
   | DeleteCall ns name \<Rightarrow> (Delete s ns name, DeleteDone (Inr ()))
   | QueryCall q \<Rightarrow> (s, QueryDone (getMatchingModRuleStoreItems s (q_admissionOperation q) (q_namespace q)
       (q_minExecutionTier q) (q_modRuleType q) (q_jsonv q)))
   | StatsCall \<Rightarrow> (s, StatsDone (GetStats s)))"

fun afterCalls :: "('p, 'o) env \<Rightarrow> modRuleStore \<Rightarrow> (nat \<times> storeCall \<times> outcome) list \<Rightarrow> modRuleStore" where
  "afterCalls E s [] = s"
| "afterCalls E s ((t, c, out) # log) = afterCalls E (fst (atomicCall E s c)) log"

fun replays :: "('p, 'o) env \<Rightarrow> modRuleStore \<Rightarrow> (nat \<times> storeCall \<times> outcome) list \<Rightarrow> bool" where
  "replays E s [] = True"
| "replays E s ((t, c, out) # log) = (out = snd (atomicCall E s c) \<and> replays E (fst (atomicCall E s c)) log)"

lemma replays_snoc:
  "afterCalls E s (log @ [(t, c, out)]) = fst (atomicCall E (afterCalls E s log) c)"
  "replays E s (log @ [(t, c, out)]) \<longleftrightarrow> replays E s log \<and> out = snd (atomicCall E (afterCalls E s log) c)"
  by (induction log arbitrary: s) auto

definition sortingBy :: "('p, 'o) env \<Rightarrow> swaps \<Rightarrow> ('p, 'o) env" where
  "sortingBy E sw = E\<lparr>sortSort := (\<lambda>xs. runSwaps (sw xs) xs)\<rparr>"

lemma NewModRuleStoreItem_sortingBy: "NewModRuleStoreItem (sortingBy E sw) r = NewModRuleStoreItem E r"
proof -
  have "NewSafeTemplate_Parse (sortingBy E sw) = NewSafeTemplate_Parse E" "NewEvaluable (sortingBy E sw) = NewEvaluable E"
    "regexpCompile (sortingBy E sw) = regexpCompile E" "sprintfOther (sortingBy E sw) = sprintfOther E"
    by (auto simp: sortingBy_def NewSafeTemplate_Parse_def [abs_def])
  then show ?thesis
    unfolding NewModRuleStoreItem_def compileTargetNamespaceRegex_def newCompiledMatchSelects_def newCompiledRegexes_def
      newCompiledJSONPatch_def compilePatchOperation_def [abs_def] compileRejectMessage_def by (simp only:)
qed

lemma sortSort_sortingBy: "sortSort (sortingBy E sw) xs = runSwaps (sw xs) xs"
  by (simp add: sortingBy_def)

text \<open>\<open>Put\<close> taken apart at the points where the small steps stop.\<close>

definition putStart :: "modRuleStore \<Rightarrow> modRule \<Rightarrow> storeItem list \<times> nat option" where
  "putStart s r = (case modRuleListMap s (Namespace r) of None \<Rightarrow> ([], None) | Some xs \<Rightarrow> (xs, findItemIndexByName xs (Name r)))"

definition putUpdated :: "modRuleStore \<Rightarrow> modRule \<Rightarrow> storeItem \<Rightarrow> storeItem list" where
  "putUpdated s r item = (case putStart s r of (xs, Some i) \<Rightarrow> xs[i := item] | (xs, None) \<Rightarrow> xs @ [item])"

lemma atomicCall_put:
  "atomicCall (sortingBy E sw) s (PutCall r) = (case NewModRuleStoreItem E r of
     Inl (GoErr e) \<Rightarrow> (slotted s (Namespace r), PutDone (Inr (Some (''failed to add ModRule to ModRuleStore: '' @ e))))
   | Inl (GoPanic p) \<Rightarrow> (slotted s (Namespace r), PutDone (Inl (GoPanic p)))
   | Inr item \<Rightarrow> (s\<lparr>modRuleListMap := (modRuleListMap s)(Namespace r \<mapsto>
        runSwaps (sw (putUpdated s r item)) (putUpdated s r item))\<rparr>, PutDone (Inr None)))"
  by (auto simp: atomicCall_def Put_def Let_def NewModRuleStoreItem_sortingBy slotted_def putUpdated_def putStart_def
      sortSort_sortingBy onErr_def split: option.splits sum.splits fail.splits)

lemma slotted_map: "modRuleListMap (slotted s (Namespace r)) = (modRuleListMap s)(Namespace r \<mapsto> fst (putStart s r))"
  by (auto simp: slotted_def putStart_def fun_upd_idem split: option.splits)

section \<open>What a writer has done so far\<close>

fun writing :: "pc \<Rightarrow> bool" where
  "writing (Locked c) = (\<not> readsOnly c)"
| "writing (Leaving c out) = (\<not> readsOnly c)"
| "writing (PutFind r sl i) = True"
| "writing (PutCompile r sl ix) = True"
| "writing (PutWrite r sl ix item) = True"
| "writing (PutSort r) = True"
| "writing (PutSwap r sl ss) = True"
| "writing (DeleteFind ns name sl i) = True"
| "writing (DeleteMove ns name sl i) = True"
| "writing (DeleteClear ns name sl) = True"
| "writing (DeleteTruncate ns name sl) = True"
| "writing _ = False"

definition swapsWithin :: "(nat \<times> nat) list \<Rightarrow> nat \<Rightarrow> bool" where
  "swapsWithin ss n \<longleftrightarrow> (\<forall>(i, j) \<in> set ss. i < n \<and> j < n)"

definition movedLast :: "storeItem list \<Rightarrow> nat \<Rightarrow> storeItem list" where
  "movedLast xs i = xs[i := xs ! (length xs - 1)]"

text \<open>
  The memory of the store \<open>s\<close> with a writer in it: a namespace of \<open>s\<close> may have been given
  another list.
\<close>

fun writerInv :: "('p, 'o) env \<Rightarrow> swaps \<Rightarrow> modRuleStore \<Rightarrow> memory \<Rightarrow> pc \<Rightarrow> bool" where
  "writerInv E sw s mem (PutFind r sl i) \<longleftrightarrow> memRep mem (modRuleListMap s) \<and> fst mem (Namespace r) = Some sl \<and>
     i \<le> length (rulesOf s (Namespace r)) \<and> findItemIndexByName (take i (rulesOf s (Namespace r))) (Name r) = None"
| "writerInv E sw s mem (PutCompile r sl ix) \<longleftrightarrow> fst mem (Namespace r) = Some sl \<and> snd (putStart s r) = ix \<and>
     memRep mem ((modRuleListMap s)(Namespace r \<mapsto> fst (putStart s r)))"
| "writerInv E sw s mem (PutWrite r sl ix item) \<longleftrightarrow> fst mem (Namespace r) = Some sl \<and> snd (putStart s r) = ix \<and>
     memRep mem ((modRuleListMap s)(Namespace r \<mapsto> fst (putStart s r))) \<and> NewModRuleStoreItem E r = Inr item"
| "writerInv E sw s mem (PutSort r) \<longleftrightarrow> fst mem (Namespace r) \<noteq> None \<and> (\<exists>item. NewModRuleStoreItem E r = Inr item \<and>
     memRep mem ((modRuleListMap s)(Namespace r \<mapsto> putUpdated s r item)))"
| "writerInv E sw s mem (PutSwap r sl ss) \<longleftrightarrow> fst mem (Namespace r) = Some sl \<and> swapsWithin ss (snd sl) \<and>
     (\<exists>item xs. NewModRuleStoreItem E r = Inr item \<and> memRep mem ((modRuleListMap s)(Namespace r \<mapsto> xs)) \<and>
        runSwaps ss xs = runSwaps (sw (putUpdated s r item)) (putUpdated s r item))"
| "writerInv E sw s mem (DeleteFind ns name sl i) \<longleftrightarrow> memRep mem (modRuleListMap s) \<and> fst mem ns = Some sl \<and>
     i \<le> length (rulesOf s ns) \<and> findItemIndexByName (take i (rulesOf s ns)) name = None"
| "writerInv E sw s mem (DeleteMove ns name sl i) \<longleftrightarrow> memRep mem (modRuleListMap s) \<and> fst mem ns = Some sl \<and>
     findItemIndexByName (rulesOf s ns) name = Some i"
| "writerInv E sw s mem (DeleteClear ns name sl) \<longleftrightarrow> fst mem ns = Some sl \<and> modRuleListMap s ns \<noteq> None \<and>
     (\<exists>i. findItemIndexByName (rulesOf s ns) name = Some i \<and>
        memRep mem ((modRuleListMap s)(ns \<mapsto> movedLast (rulesOf s ns) i)))"
| "writerInv E sw s mem (DeleteTruncate ns name sl) \<longleftrightarrow> snd sl = length (rulesOf s ns) \<and> modRuleListMap s ns \<noteq> None \<and>
     (\<exists>i. findItemIndexByName (rulesOf s ns) name = Some i \<and>
        memRep ((fst mem)(ns \<mapsto> (fst sl, snd sl - 1)), snd mem)
          ((modRuleListMap s)(ns \<mapsto> take (length (rulesOf s ns) - 1) (movedLast (rulesOf s ns) i))))"
| "writerInv E sw s mem (Leaving c out) \<longleftrightarrow> out = snd (atomicCall (sortingBy E sw) s c) \<and>
     memRep mem (modRuleListMap (fst (atomicCall (sortingBy E sw) s c)))"
| "writerInv E sw s mem _ \<longleftrightarrow> memRep mem (modRuleListMap s)"

lemma rulesOf_Some: "modRuleListMap s ns = Some xs \<Longrightarrow> rulesOf s ns = xs"
  by (simp add: rulesOf_def)

lemma memRep_rules:
  "memRep (m, h) (modRuleListMap s) \<Longrightarrow> m ns = Some sl \<Longrightarrow> modRuleListMap s ns = Some (rulesOf s ns) \<and> sliceIs h sl (rulesOf s ns)"
  by (erule (1) memRep_Some) (auto simp: rulesOf_def)

lemma find_take_Suc:
  "i < length xs \<Longrightarrow> findItemIndexByName (take i xs) name = None \<Longrightarrow>
   findItemIndexByName (take (Suc i) xs) name = (if ruleName (xs ! i) = name then Some i else None) \<and>
   (ruleName (xs ! i) = name \<longrightarrow> findItemIndexByName xs name = Some i)"
proof (induction xs arbitrary: i)
  case (Cons x xs)
  then show ?case by (cases i) (auto split: if_splits)
qed simp

lemma runSwaps_Cons: "runSwaps ((i, j) # ss) xs = runSwaps ss (tierSwap xs i j)"
  by (simp add: runSwaps_def)

lemma take_swap:
  "take (length xs) arr = map Some xs \<Longrightarrow> i < length xs \<Longrightarrow> j < length xs \<Longrightarrow>
   take (length (tierSwap xs i j)) (arr[i := arr ! j, j := arr ! i]) = map Some (tierSwap xs i j)"
  unfolding tierSwap_def take_update_swap map_update by (metis length_list_update nth_map nth_take take_update_swap map_update)

section \<open>Writers keep their invariant\<close>

definition swapsInRange :: "swaps \<Rightarrow> bool" where
  "swapsInRange sw \<longleftrightarrow> (\<forall>xs. swapsWithin (sw xs) (length xs))"

lemma putStart_Some: "modRuleListMap s (Namespace r) = Some xs \<Longrightarrow> putStart s r = (xs, findItemIndexByName xs (Name r))"
  by (simp add: putStart_def)

text \<open>The search for a name, which \<open>Put\<close> and \<open>Delete\<close> share, at one element and at its end.\<close>

lemma find_element:
  assumes "memRep (m, h) (modRuleListMap s)" and "m ns = Some (a, n)" and "findItemIndexByName (take i (rulesOf s ns)) name = None"
    and "i < n" and "h a = Some arr"
  shows "arr ! i = Some (rulesOf s ns ! i)" "Suc i \<le> length (rulesOf s ns)" "modRuleListMap s ns = Some (rulesOf s ns)"
    "ruleName (rulesOf s ns ! i) = name \<Longrightarrow> findItemIndexByName (rulesOf s ns) name = Some i"
    "ruleName (rulesOf s ns ! i) \<noteq> name \<Longrightarrow> findItemIndexByName (take (Suc i) (rulesOf s ns)) name = None"
proof -
  have xs: "modRuleListMap s ns = Some (rulesOf s ns)" "sliceIs h (a, n) (rulesOf s ns)"
    using memRep_rules [OF assms(1,2)] by simp_all
  with sliceIs_len [OF xs(2)] sliceIs_elem [OF xs(2) assms(5,4)] find_take_Suc [OF _ assms(3)] assms(4)
  show "arr ! i = Some (rulesOf s ns ! i)" "Suc i \<le> length (rulesOf s ns)" "modRuleListMap s ns = Some (rulesOf s ns)"
    "ruleName (rulesOf s ns ! i) = name \<Longrightarrow> findItemIndexByName (rulesOf s ns) name = Some i"
    "ruleName (rulesOf s ns ! i) \<noteq> name \<Longrightarrow> findItemIndexByName (take (Suc i) (rulesOf s ns)) name = None"
    by simp_all
qed

lemma find_end:
  assumes "memRep (m, h) (modRuleListMap s)" and "m ns = Some (a, n)" and "findItemIndexByName (take i (rulesOf s ns)) name = None" and "\<not> i < n"
  shows "modRuleListMap s ns = Some (rulesOf s ns) \<and> findItemIndexByName (rulesOf s ns) name = None"
  using memRep_rules [OF assms(1,2)] sliceIs_len [of h a n "rulesOf s ns"] assms(3,4) by simp

lemma putUpdated_cases:
  "snd (putStart s r) = Some i \<Longrightarrow> putUpdated s r item = (fst (putStart s r))[i := item]"
  "snd (putStart s r) = None \<Longrightarrow> putUpdated s r item = fst (putStart s r) @ [item]"
  by (auto simp: putUpdated_def split: prod.splits)

lemma replace_rep:
  assumes "memRep (m, h) (f(ns \<mapsto> xs))" and "m ns = Some (a, n)" and "h a = Some arr"
  shows "memRep (m, h(a \<mapsto> arr[i := Some x])) (f(ns \<mapsto> xs[i := x]))"
proof -
  note sl = memRep_here [OF assms(1,2)]
  show ?thesis
    using sliceIs_array [OF sl assms(3)] sliceIs_len [OF sl]
    by (intro memRep_same [OF assms(1,2)]) (auto simp: take_update_swap map_update)
qed

lemma append_rep:
  assumes "memRep (m, h) (f(ns \<mapsto> xs))" and "m ns = Some (a, n)" and "h a = Some arr" and "n < length arr"
  shows "memRep (m(ns \<mapsto> (a, Suc n)), h(a \<mapsto> arr[n := Some x])) (f(ns \<mapsto> xs @ [x]))"
proof -
  note sl = memRep_here [OF assms(1,2)]
  have "take (length (xs @ [x])) (arr[n := Some x]) = map Some (xs @ [x])"
    using sliceIs_array [OF sl assms(3)] sliceIs_len [OF sl] assms(4) by (simp add: take_Suc_conv_app_nth)
  from memRep_inplace [OF assms(1,2) this] show ?thesis using sliceIs_len [OF sl] by simp
qed

lemma grow_rep:
  assumes "memRep (m, h) (f(ns \<mapsto> xs))" and "m ns = Some (a, n)" and "h a = Some arr" and "\<not> n < length arr" and "h b = None"
  shows "memRep (m(ns \<mapsto> (b, Suc n)), h(b \<mapsto> arr @ Some x # replicate k None)) (f(ns \<mapsto> xs @ [x]))"
proof -
  note sl = memRep_here [OF assms(1,2)]
  have "take (length (xs @ [x])) (arr @ Some x # replicate k None) = map Some (xs @ [x])"
    using sliceIs_array [OF sl assms(3)] sliceIs_len [OF sl] assms(4) by auto
  from memRep_alloc [OF assms(1,5) this, of ns] show ?thesis using sliceIs_len [OF sl] by simp
qed

lemma swap_rep:
  assumes "memRep (m, h) (f(ns \<mapsto> xs))" and "m ns = Some (a, n)" and "h a = Some arr" and "i < n" and "j < n"
  shows "memRep (m, h(a \<mapsto> arr[i := arr ! j, j := arr ! i])) (f(ns \<mapsto> tierSwap xs i j))"
proof -
  note sl = memRep_here [OF assms(1,2)]
  have "take (length (tierSwap xs i j)) (arr[i := arr ! j, j := arr ! i]) = map Some (tierSwap xs i j)"
    using take_swap sliceIs_array [OF sl assms(3)] sliceIs_len [OF sl] assms(4,5) by simp
  from memRep_same [OF assms(1,2) this] show ?thesis using sliceIs_len [OF sl] by (simp add: tierSwap_def)
qed

lemma whole_slice:
  assumes "memRep (m, h) (f(ns \<mapsto> xs))" and "m ns = Some (a, n)" and "h a = Some arr"
  shows "take n arr = map Some xs" "n = length xs"
  using sliceIs_array [OF memRep_here [OF assms(1,2)] assms(3)] sliceIs_len [OF memRep_here [OF assms(1,2)]] by simp_all

lemma putStep_inv:
  assumes "putStep E sw mem p mem' p'" and "writerInv E sw s mem p" and "swapsInRange sw"
  shows "writing p' \<and> writerInv E sw s mem' p'"
  using assms(1,2)
proof (cases rule: putStep.cases)
  case (put_miss m r h a)
  then show ?thesis
    using assms(2) memRep_None [of m h "modRuleListMap s" "Namespace r"] memRep_alloc [of m h "modRuleListMap s" a "[]" "[]" "Namespace r"]
    by (simp add: putStart_def)
next
  case (put_found i n h a arr x r m)
  then show ?thesis
    using assms(2) find_element [of m h s "Namespace r" a n i "Name r" arr] by (simp add: putStart_def fun_upd_idem)
next
  case (put_next i n h a arr x r m)
  then show ?thesis using assms(2) find_element [of m h s "Namespace r" a n i "Name r" arr] by simp
next
  case (put_nil i n h a arr m r)
  then have "arr ! i = Some (rulesOf s (Namespace r) ! i)" using assms(2) find_element(1) [of m h s "Namespace r" a n i "Name r" arr] by auto
  with put_nil show ?thesis by simp
next
  case (put_absent i n m h r a)
  then show ?thesis
    using assms(2) find_end [of m h s "Namespace r" a n i "Name r"] by (simp add: putStart_def fun_upd_idem)
next
  case (put_replace m r a n i h arr sl item)
  then show ?thesis
    using assms(2) replace_rep [of m h "modRuleListMap s" "Namespace r" _ a n arr i item] by (auto simp: putUpdated_cases)
next
  case (put_append h a arr n m r item)
  then show ?thesis using assms(2) append_rep by (simp add: putUpdated_cases)
next
  case (put_append_grow h a arr n b m r item k)
  then show ?thesis using assms(2) grow_rep by (simp add: putUpdated_cases)
next
  case (put_sort m r a n h arr xs)
  then obtain item where item: "NewModRuleStoreItem E r = Inr item" "memRep (m, h) ((modRuleListMap s)(Namespace r \<mapsto> putUpdated s r item))"
    using assms(2) by auto
  then have "xs = putUpdated s r item" using whole_slice [OF item(2)] put_sort by (simp add: inj_map_eq_map)
  then show ?thesis using put_sort item whole_slice(2) [OF item(2)] assms(3) by (auto simp: swapsInRange_def)
next
  case (put_sort_nil m r a n h arr)
  then show ?thesis using assms(2) whole_slice(1) [of m h "modRuleListMap s" "Namespace r" _ a n arr] by fastforce
next
  case (put_swap h a arr i n j m r ss)
  then show ?thesis
    using assms(2) swap_rep [of m h "modRuleListMap s" "Namespace r" _ a n arr i j]
    by (auto simp: runSwaps_Cons swapsWithin_def)
next
  case (put_sorted m h r sl)
  then show ?thesis using assms(2) by (auto simp: atomicCall_put runSwaps_def)
qed (use assms(2) in \<open>auto simp: atomicCall_put slotted_map\<close>)

lemma remove_map:
  "modRuleListMap s ns = Some xs \<Longrightarrow> findItemIndexByName xs name = Some i \<Longrightarrow>
   modRuleListMap (Delete s ns name) = (if length xs - 1 = 0 then (modRuleListMap s)(ns := None)
     else (modRuleListMap s)(ns \<mapsto> take (length xs - 1) (movedLast xs i)))"
  by (auto simp: Delete_def movedLast_def Let_def)

lemma keep_map:
  "modRuleListMap s ns = None \<or> modRuleListMap s ns = Some xs \<and> findItemIndexByName xs name = None \<Longrightarrow> Delete s ns name = s"
  by (auto simp: Delete_def)

lemma clear_rep:
  assumes "memRep (m, h) (f(ns \<mapsto> xs))" and "m ns = Some (a, n)" and "h a = Some arr"
  shows "memRep (m(ns \<mapsto> (a, n - 1)), h(a \<mapsto> arr[n - 1 := None])) (f(ns \<mapsto> take (length xs - 1) xs))"
proof -
  note sl = whole_slice [OF assms]
  have "take (length xs - 1) arr = take (length xs - 1) (take n arr)" using sl(2) by simp
  also have "\<dots> = map Some (take (length xs - 1) xs)" using sl(1) by (simp add: take_map)
  finally have "take (length (take (length xs - 1) xs)) (arr[n - 1 := None]) = map Some (take (length xs - 1) xs)"
    using sl(2) by simp
  from memRep_inplace [OF assms(1,2) this] show ?thesis using sl(2) by simp
qed

lemma deleteStep_inv:
  assumes "deleteStep mem p mem' p'" and "writerInv E sw s mem p"
  shows "writing p' \<and> writerInv E sw s mem' p'"
  using assms
proof (cases rule: deleteStep.cases)
  case (delete_miss m ns h name)
  then show ?thesis using assms(2) memRep_None [of m h "modRuleListMap s" ns] by (simp add: atomicCall_def keep_map)
next
  case (delete_found i n h a arr x name m ns)
  then show ?thesis using assms(2) find_element [of m h s ns a n i name arr] by simp
next
  case (delete_next i n h a arr x name m ns)
  then show ?thesis using assms(2) find_element [of m h s ns a n i name arr] by simp
next
  case (delete_nil i n h a arr m ns name)
  then have "arr ! i = Some (rulesOf s ns ! i)" using assms(2) find_element(1) [of m h s ns a n i name arr] by auto
  with delete_nil show ?thesis by simp
next
  case (delete_absent i n m h ns name a)
  then show ?thesis using assms(2) find_end [of m h s ns a n i name] by (auto simp: atomicCall_def keep_map)
next
  case (delete_move h a arr i n m ns name)
  then have rep: "modRuleListMap s ns = Some (rulesOf s ns)" "memRep (m, h) ((modRuleListMap s)(ns \<mapsto> rulesOf s ns))" "m ns = Some (a, n)"
    using assms(2) memRep_rules [of m h s ns "(a, n)"] by (auto simp: fun_upd_idem)
  have "arr ! (n - 1) = Some (rulesOf s ns ! (n - 1))"
    using sliceIs_elem [OF memRep_here [OF rep(2,3)] delete_move(5)] delete_move(6) by simp
  then show ?thesis
    using replace_rep [OF rep(2,3) delete_move(5), of i "rulesOf s ns ! (n - 1)"] whole_slice(2) [OF rep(2,3) delete_move(5)] rep assms(2) delete_move
    by (simp add: movedLast_def)
next
  case (delete_clear h a arr m ns name n)
  then obtain i where rep: "findItemIndexByName (rulesOf s ns) name = Some i" "memRep (m, h) ((modRuleListMap s)(ns \<mapsto> movedLast (rulesOf s ns) i))"
      "m ns = Some (a, n)" "modRuleListMap s ns \<noteq> None"
    using assms(2) by auto
  then show ?thesis
    using clear_rep [OF rep(2,3) delete_clear(5)] whole_slice(2) [OF rep(2,3) delete_clear(5)] delete_clear by (simp add: movedLast_def)
next
  case (delete_drop n m h ns name a)
  then show ?thesis
    using assms(2) memRep_remove [of "m(ns \<mapsto> (a, n - 1))" h _ ns] by (fastforce simp: atomicCall_def remove_map rulesOf_def)
next
  case (delete_keep n m h ns name a)
  then show ?thesis using assms(2) by (auto simp: atomicCall_def remove_map rulesOf_def)
qed (use assms(2) in auto)

section \<open>What a reader has seen so far\<close>

fun reading :: "pc \<Rightarrow> bool" where
  "reading (Locked c) = readsOnly c"
| "reading (Leaving c out) = readsOnly c"
| "reading (QueryCluster q sl i st) = True"
| "reading (QueryOwn q st) = True"
| "reading (QueryRules q sl i st) = True"
| "reading (QueryMatch q xs found t) = True"
| "reading (StatsLoop nss namespaces) = True"
| "reading _ = False"

definition clusterPart :: "string \<Rightarrow> modRuleStore \<Rightarrow> storeQuery \<Rightarrow> storeItem list \<times> int16" where
  "clusterPart cl s q = foldl (visitCluster q) ([], MaxInt16) (rulesOf s cl)"

definition queryResult :: "modRuleStore \<Rightarrow> storeQuery \<Rightarrow> (storeItem list \<times> int16) res" where
  "queryResult s q = getMatchingModRuleStoreItems s (q_admissionOperation q) (q_namespace q)
     (q_minExecutionTier q) (q_modRuleType q) (q_jsonv q)"

fun readerInv :: "string \<Rightarrow> modRuleStore \<Rightarrow> memory \<Rightarrow> pc \<Rightarrow> bool" where
  "readerInv cl s mem (QueryCluster q sl i st) \<longleftrightarrow> sl = fst mem cl \<and>
     st = foldl (visitCluster q) ([], MaxInt16) (take i (rulesOf s cl))"
| "readerInv cl s mem (QueryOwn q st) \<longleftrightarrow> st = clusterPart cl s q"
| "readerInv cl s mem (QueryRules q sl i st) \<longleftrightarrow> sl = fst mem (q_namespace q) \<and> q_namespace q \<noteq> [] \<and>
     st = foldl (visitOwn q) (clusterPart cl s q) (take i (rulesOf s (q_namespace q)))"
| "readerInv cl s mem (QueryMatch q xs found t) \<longleftrightarrow>
     bindr (filterM (ruleTest q) xs) (\<lambda>ys. Inr (found @ ys, t)) = queryResult s q"
| "readerInv cl s mem (StatsLoop nss namespaces) \<longleftrightarrow> set nss \<subseteq> dom (fst mem) \<and> distinct nss \<and>
     namespaces = (map_option snd \<circ> fst mem) |` (- set nss)"
| "readerInv cl s mem (Leaving c out) \<longleftrightarrow> (\<forall>q. c = QueryCall q \<longrightarrow> out = QueryDone (queryResult s q)) \<and>
     (c = StatsCall \<longrightarrow> out = StatsDone (GetStats s))"
| "readerInv cl s mem _ \<longleftrightarrow> True"

lemma visit_folds:
  "foldl (visitCluster q) st xs = foldl (\<lambda>st mrsi. if tier mrsi \<ge> q_minExecutionTier q \<and> clusterRuleApplies (q_namespace q) mrsi
     then processPotentialRule (q_admissionOperation q) st mrsi else st) st xs"
  "foldl (visitOwn q) st xs = foldl (\<lambda>st mrsi. if tier mrsi \<ge> q_minExecutionTier q
     then processPotentialRule (q_admissionOperation q) st mrsi else st) st xs"
  by (simp_all add: visitCluster_def [abs_def] visitOwn_def [abs_def])

lemma queryResult_match:
  assumes "clusterModRulesNamespace s = cl"
    and "st = (if q_namespace q \<noteq> [] then foldl (visitOwn q) (clusterPart cl s q) (rulesOf s (q_namespace q)) else clusterPart cl s q)"
  shows "bindr (filterM (ruleTest q) (fst st)) (\<lambda>ys. Inr ([] @ ys, snd st)) = queryResult s q"
proof -
  have "potentialRules s (q_admissionOperation q) (q_namespace q) (q_minExecutionTier q) = st"
    using assms by (simp add: potentialRules_def clusterPart_def visit_folds Let_def)
  then show ?thesis
    by (simp add: queryResult_def getMatchingModRuleStoreItems_def ruleTest_def [abs_def] case_prod_beta Let_def)
qed

lemma slice_elem:
  assumes "memRep (m, h) (modRuleListMap s)" and "m ns = Some (a, n)" and "i < n" and "h a = Some arr"
  shows "arr ! i = Some (rulesOf s ns ! i)" "take (Suc i) (rulesOf s ns) = take i (rulesOf s ns) @ [rulesOf s ns ! i]"
proof -
  have sl: "sliceIs h (a, n) (rulesOf s ns)" using memRep_rules [OF assms(1,2)] by simp
  show "arr ! i = Some (rulesOf s ns ! i)" by (rule sliceIs_elem [OF sl assms(4,3)])
  show "take (Suc i) (rulesOf s ns) = take i (rulesOf s ns) @ [rulesOf s ns ! i]"
    using sliceIs_len [OF sl] assms(3) by (simp add: take_Suc_conv_app_nth)
qed

lemma slice_end:
  assumes "memRep (m, h) (modRuleListMap s)" and "\<not> i < sliceLen (m ns)"
  shows "take i (rulesOf s ns) = rulesOf s ns"
proof (cases "m ns")
  case None
  then have "modRuleListMap s ns = None" using memRep_None [OF assms(1)] by simp
  then show ?thesis by (simp add: rulesOf_def)
next
  case (Some sl)
  then show ?thesis
    using memRep_rules [OF assms(1) Some] assms(2) sliceIs_len [of h "fst sl" "snd sl" "rulesOf s ns"]
    by (cases sl) (simp add: sliceLen_def)
qed

lemma queryStep_inv:
  assumes "queryStep cl mem p p'" and "readerInv cl s mem p"
    and "memRep mem (modRuleListMap s)" and "clusterModRulesNamespace s = cl"
  shows "reading p' \<and> readerInv cl s mem p'"
  using assms(1,2)
proof (cases rule: queryStep.cases)
  case (query_cluster i n h a arr x m q st)
  then show ?thesis using assms(2,3) slice_elem [of m h s cl a n i arr] by auto
next
  case (query_cluster_nil i n h a arr m q st)
  then show ?thesis using assms(2,3) slice_elem(1) [of m h s cl a n i arr] by auto
next
  case (query_cluster_end i sl m h q st)
  then show ?thesis using assms(2,3) slice_end [of m h s i cl] by (simp add: clusterPart_def)
next
  case (query_cluster_only q m h st)
  then show ?thesis using assms(2) queryResult_match [OF assms(4), of st q] by simp
next
  case (query_rule i n h a arr x m q st)
  then show ?thesis using assms(2,3) slice_elem [of m h s "q_namespace q" a n i arr] by auto
next
  case (query_rule_nil i n h a arr m q st)
  then show ?thesis using assms(2,3) slice_elem(1) [of m h s "q_namespace q" a n i arr] by auto
next
  case (query_rules_end i sl m h q st)
  then show ?thesis
    using assms(2,3) slice_end [of m h s i "q_namespace q"] queryResult_match [OF assms(4), of st q] by simp
next
  case (query_match q x b m h xs found t)
  then show ?thesis using assms(2) by (simp add: bindr_assoc split: if_splits)
next
  case (query_match_panic q x e m h xs found t)
  then show ?thesis using assms(2) by simp
next
  case (query_done m h q found t)
  then show ?thesis using assms(2) by simp
qed simp_all

lemma memRep_stats: "memRep (m, h) (modRuleListMap s) \<Longrightarrow> map_option snd \<circ> m = GetStats s"
proof
  fix ns
  assume rep: "memRep (m, h) (modRuleListMap s)"
  show "(map_option snd \<circ> m) ns = GetStats s ns"
  proof (cases "m ns")
    case None
    then show ?thesis using memRep_None [OF rep, of ns] by (simp add: GetStats_def)
  next
    case (Some sl)
    then show ?thesis
      using memRep_rules [OF rep Some] sliceIs_len [of h "fst sl" "snd sl" "rulesOf s ns"] by (simp add: GetStats_def)
  qed
qed

lemma statsStep_inv:
  assumes "statsStep mem p p'" and "readerInv cl s mem p" and "memRep mem (modRuleListMap s)"
  shows "reading p' \<and> readerInv cl s mem p'"
  using assms(1,2)
proof (cases rule: statsStep.cases)
  case (stats_start nss m h)
  have "((map_option snd \<circ> m) |` (- dom m)) ns = None" for ns
    by (cases "m ns") (auto simp: restrict_map_def)
  with stats_start show ?thesis by auto
next
  case (stats_count m ns a n h nss namespaces)
  then show ?thesis using assms(2) by (auto simp: restrict_map_def fun_eq_iff)
next
  case (stats_gone m ns h nss namespaces)
  then show ?thesis using assms(2) by auto
next
  case (stats_done m h namespaces)
  then show ?thesis using assms(2,3) memRep_stats [of m h s] by (simp add: restrict_map_def comp_def)
qed

section \<open>The invariant of the lock\<close>

definition storeNow :: "('p, 'o) env \<Rightarrow> swaps \<Rightarrow> string \<Rightarrow> lockedStore \<Rightarrow> modRuleStore" where
  "storeNow E sw cl w = afterCalls (sortingBy E sw) (NewModRuleStore cl) (ls_log w)"

lemma atomicCall_cluster: "clusterModRulesNamespace (fst (atomicCall E s c)) = clusterModRulesNamespace s"
  by (auto simp: atomicCall_def slotted_def Put_def Delete_def Let_def onErr_def
      split: storeCall.splits sum.splits fail.splits option.splits prod.splits)

lemma afterCalls_cluster: "clusterModRulesNamespace (afterCalls E s log) = clusterModRulesNamespace s"
  by (induction E s log rule: afterCalls.induct) (auto simp: atomicCall_cluster)

lemma storeNow_cluster: "clusterModRulesNamespace (storeNow E sw cl w) = cl"
  by (simp add: storeNow_def afterCalls_cluster) (simp add: NewModRuleStore_def)

definition lockHeld :: "lockedStore \<Rightarrow> bool" where
  "lockHeld w \<longleftrightarrow> (\<forall>t. writing (ls_pc w t) \<longleftrightarrow> ls_writer w = Some t) \<and> (\<forall>t. reading (ls_pc w t) \<longleftrightarrow> t \<in> ls_readers w) \<and>
     (ls_writer w \<noteq> None \<longrightarrow> ls_readers w = {})"

definition lockInv :: "('p, 'o) env \<Rightarrow> swaps \<Rightarrow> string \<Rightarrow> lockedStore \<Rightarrow> bool" where
  "lockInv E sw cl w \<longleftrightarrow> lockHeld w \<and>
     (ls_writer w = None \<longrightarrow> memRep (ls_memory w) (modRuleListMap (storeNow E sw cl w))) \<and>
     (\<forall>t. writing (ls_pc w t) \<longrightarrow> writerInv E sw (storeNow E sw cl w) (ls_memory w) (ls_pc w t)) \<and>
     (\<forall>t. reading (ls_pc w t) \<longrightarrow> readerInv cl (storeNow E sw cl w) (ls_memory w) (ls_pc w t)) \<and>
     replays (sortingBy E sw) (NewModRuleStore cl) (ls_log w)"

lemma inv_writer:
  assumes "lockInv E sw cl w" and "writing (ls_pc w t)"
  shows "ls_writer w = Some t" "ls_readers w = {}" "writerInv E sw (storeNow E sw cl w) (ls_memory w) (ls_pc w t)"
    "\<not> reading (ls_pc w t')" "t' \<noteq> t \<Longrightarrow> \<not> writing (ls_pc w t')"
proof -
  have held: "lockHeld w" using assms(1) by (simp add: lockInv_def)
  then show w: "ls_writer w = Some t" using assms(2) by (simp add: lockHeld_def)
  with held show "ls_readers w = {}" "\<not> reading (ls_pc w t')" "t' \<noteq> t \<Longrightarrow> \<not> writing (ls_pc w t')"
    by (auto simp: lockHeld_def)
  show "writerInv E sw (storeNow E sw cl w) (ls_memory w) (ls_pc w t)" using assms by (simp add: lockInv_def)
qed

lemma inv_reader:
  assumes "lockInv E sw cl w" and "reading (ls_pc w t)"
  shows "memRep (ls_memory w) (modRuleListMap (storeNow E sw cl w))"
    "readerInv cl (storeNow E sw cl w) (ls_memory w) (ls_pc w t)" "ls_writer w = None"
  using assms by (auto simp: lockInv_def lockHeld_def)

lemma inv_write:
  assumes "lockInv E sw cl w" and "writing (ls_pc w t)" and "writing p" and "writerInv E sw (storeNow E sw cl w) mem p"
  shows "lockInv E sw cl (w\<lparr>ls_memory := mem, ls_pc := (ls_pc w)(t := p)\<rparr>)"
proof -
  have "\<not> reading p" using assms(3) by (cases p) auto
  then show ?thesis
    using assms inv_writer [OF assms(1,2)] by (auto simp: lockInv_def lockHeld_def storeNow_def)
qed

lemma inv_read:
  assumes "lockInv E sw cl w" and "reading (ls_pc w t)" and "reading p" and "readerInv cl (storeNow E sw cl w) (ls_memory w) p"
  shows "lockInv E sw cl (w\<lparr>ls_pc := (ls_pc w)(t := p)\<rparr>)"
proof -
  have "\<not> writing p" using assms(3) by (cases p) auto
  moreover have "\<not> writing (ls_pc w t)" using assms(2) by (cases "ls_pc w t") auto
  ultimately show ?thesis using assms by (auto simp: lockInv_def lockHeld_def storeNow_def)
qed

lemma inv_unlock:
  assumes "lockInv E sw cl w" and "ls_pc w t = Leaving c out" and "\<not> readsOnly c"
  shows "lockInv E sw cl (w\<lparr>ls_writer := None, ls_pc := (ls_pc w)(t := Outside), ls_log := ls_log w @ [(t, c, out)]\<rparr>)"
proof -
  have "writing (ls_pc w t)" using assms(2,3) by simp
  note w = inv_writer [OF assms(1) this]
  have "replays (sortingBy E sw) (NewModRuleStore cl) (ls_log w)" using assms(1) by (simp add: lockInv_def)
  then show ?thesis
    using w(3) w(2,4,5) assms(2) by (auto simp: lockInv_def lockHeld_def storeNow_def replays_snoc)
qed

lemma inv_runlock:
  assumes "lockInv E sw cl w" and "ls_pc w t = Leaving c out" and "readsOnly c"
  shows "lockInv E sw cl (w\<lparr>ls_readers := ls_readers w - {t}, ls_pc := (ls_pc w)(t := Outside), ls_log := ls_log w @ [(t, c, out)]\<rparr>)"
proof -
  have "reading (ls_pc w t)" using assms(2,3) by simp
  then have w: "readerInv cl (storeNow E sw cl w) (ls_memory w) (Leaving c out)"
    using inv_reader(2) [OF assms(1), of t] assms(2) by simp
  have a: "out = snd (atomicCall (sortingBy E sw) (storeNow E sw cl w) c)"
    "fst (atomicCall (sortingBy E sw) (storeNow E sw cl w) c) = storeNow E sw cl w"
    using w assms(3) by (cases c; simp add: atomicCall_def queryResult_def)+
  let ?w = "w\<lparr>ls_readers := ls_readers w - {t}, ls_pc := (ls_pc w)(t := Outside), ls_log := ls_log w @ [(t, c, out)]\<rparr>"
  have "storeNow E sw cl ?w = storeNow E sw cl w" using a(2) by (simp add: storeNow_def replays_snoc)
  moreover have "replays (sortingBy E sw) (NewModRuleStore cl) (ls_log ?w)"
    using assms(1) a(1) by (simp add: lockInv_def replays_snoc storeNow_def)
  moreover have "ls_writer w = None" using inv_reader(3) [OF assms(1), of t] assms(2,3) by simp
  ultimately show ?thesis using assms(1) by (auto simp: lockInv_def lockHeld_def)
qed

lemma putStep_writing: "putStep E sw mem p mem' p' \<Longrightarrow> writing p"
  by (cases rule: putStep.cases) auto

lemma deleteStep_writing: "deleteStep mem p mem' p' \<Longrightarrow> writing p"
  by (cases rule: deleteStep.cases) auto

lemma queryStep_reading: "queryStep cl mem p p' \<Longrightarrow> reading p"
  by (cases rule: queryStep.cases) auto

lemma statsStep_reading: "statsStep mem p p' \<Longrightarrow> reading p"
  by (cases rule: statsStep.cases) auto

lemma lockStep_inv:
  assumes "lockStep E sw cl w w'" and "lockInv E sw cl w" and "swapsInRange sw"
  shows "lockInv E sw cl w'"
  using assms(1)
proof (cases rule: lockStep.cases)
  case (call t c)
  then have "ls_writer w \<noteq> Some t" "t \<notin> ls_readers w"
    using assms(2) unfolding lockInv_def lockHeld_def by (metis writing.simps(12), metis reading.simps(8))
  then show ?thesis using assms(2) call by (auto simp: lockInv_def lockHeld_def storeNow_def)
next
  case (lock t c)
  then have "\<not> writing (ls_pc w t')" "\<not> reading (ls_pc w t')" for t'
    using assms(2) by (auto simp: lockInv_def lockHeld_def)
  then show ?thesis using assms(2) lock by (cases c) (auto simp: lockInv_def lockHeld_def storeNow_def)
next
  case (rlock t c)
  then have "\<not> writing (ls_pc w t')" for t'
    using assms(2) by (auto simp: lockInv_def lockHeld_def)
  then show ?thesis using assms(2) rlock by (auto simp: lockInv_def lockHeld_def storeNow_def)
next
  case (put t mem p)
  note t = putStep_writing [OF put(2)]
  from putStep_inv [OF put(2) inv_writer(3) [OF assms(2) t] assms(3)] show ?thesis
    unfolding put(1) by (intro inv_write [OF assms(2) t]) auto
next
  case (delete t mem p)
  note t = deleteStep_writing [OF delete(2)]
  from deleteStep_inv [OF delete(2) inv_writer(3) [OF assms(2) t]] show ?thesis
    unfolding delete(1) by (intro inv_write [OF assms(2) t]) auto
next
  case (query t p)
  note t = queryStep_reading [OF query(2)]
  from queryStep_inv [OF query(2) inv_reader(2,1) [OF assms(2) t] storeNow_cluster] show ?thesis
    unfolding query(1) by (intro inv_read [OF assms(2) t]) auto
next
  case (stats t p)
  note t = statsStep_reading [OF stats(2)]
  from statsStep_inv [OF stats(2) inv_reader(2,1) [OF assms(2) t]] show ?thesis
    unfolding stats(1) by (intro inv_read [OF assms(2) t]) auto
next
  case (unlock t c out)
  then show ?thesis using inv_unlock [OF assms(2)] by simp
next
  case (runlock t c out)
  then show ?thesis using inv_runlock [OF assms(2)] by simp
qed

lemma emptyStore_inv: "lockInv E sw cl emptyStore"
  by (simp add: lockInv_def lockHeld_def emptyStore_def storeNow_def NewModRuleStore_def memRep_def)

lemma reachable_inv: "lockReachable E sw cl w \<Longrightarrow> swapsInRange sw \<Longrightarrow> lockInv E sw cl w"
  unfolding lockReachable_def
  by (induction rule: rtranclp_induct) (auto simp: emptyStore_inv intro: lockStep_inv)

text \<open>
  C4: the store is linearizable. In every state that goroutines can reach, putting, deleting
  and querying in small steps under the read-write lock, on slices that share arrays: the calls
  that have returned gave exactly the results they give as single steps of the store model, one
  after the other in the order of their unlocks, panics included; and while no writer holds the
  lock the memory represents the store those calls lead to. So no query reads the nil that
  \<open>Delete\<close> leaves behind, a half-sorted slice or a slice without its new rule. The swaps are
  those a sort asks for, of two elements of the slice.
\<close>

theorem store_linearizable:
  assumes "swapsInRange sw" and "lockReachable E sw cl w"
  shows "replays (sortingBy E sw) (NewModRuleStore cl) (ls_log w) \<and>
    (ls_writer w = None \<longrightarrow>
      memRep (ls_memory w) (modRuleListMap (afterCalls (sortingBy E sw) (NewModRuleStore cl) (ls_log w))))"
  using reachable_inv [OF assms(2,1)] by (simp add: lockInv_def storeNow_def)

text \<open>The swaps of Go's insertion sort, the one that \<open>sort.Sort\<close> runs on short slices.\<close>

fun siftSwaps :: "storeItem list \<Rightarrow> nat \<Rightarrow> (nat \<times> nat) list" where
  "siftSwaps a 0 = []"
| "siftSwaps a (Suc j) = (if tierLess a (Suc j) j then (Suc j, j) # siftSwaps (tierSwap a (Suc j) j) j else [])"

definition insertionSwaps :: swaps where
  "insertionSwaps a = snd (foldl (\<lambda>(b, ss) j. (siftDown b j, ss @ siftSwaps b j)) (a, []) [1..<length a])"

lemma siftSwaps_run: "runSwaps (siftSwaps a j) a = siftDown a j"
  by (induction a j rule: siftSwaps.induct) (auto simp: runSwaps_Cons runSwaps_def)

lemma siftSwaps_within: "j < length a \<Longrightarrow> swapsWithin (siftSwaps a j) (length a)"
  by (induction a j rule: siftSwaps.induct) (auto simp: swapsWithin_def)

lemma runSwaps_append: "runSwaps (ss @ ss') a = runSwaps ss' (runSwaps ss a)"
  by (simp add: runSwaps_def)

lemma insertionSwaps_fold:
  assumes "\<forall>j \<in> set js. j < length a" and "foldl (\<lambda>(b, ss) j. (siftDown b j, ss @ siftSwaps b j)) (a, []) js = (b, ss)"
  shows "runSwaps ss a = b \<and> b = foldl siftDown a js \<and> length b = length a \<and> swapsWithin ss (length a)"
  using assms
proof (induction js arbitrary: b ss rule: rev_induct)
  case Nil
  then show ?case by (simp add: runSwaps_def swapsWithin_def)
next
  case (snoc j js)
  obtain b' ss' where before: "foldl (\<lambda>(b, ss) j. (siftDown b j, ss @ siftSwaps b j)) (a, []) js = (b', ss')"
    by (rule prod.exhaust)
  have "\<forall>j \<in> set js. j < length a" using snoc.prems(1) by simp
  note IH = snoc.IH [OF this before]
  then have len: "length b' = length a" by blast
  have "j < length b'" using snoc.prems(1) by (simp add: len)
  from siftSwaps_within [OF this] have "swapsWithin (siftSwaps b' j) (length a)" by (simp only: len)
  moreover have "b = siftDown b' j" "ss = ss' @ siftSwaps b' j" using snoc.prems(2) before by simp_all
  moreover have "swapsWithin (ss' @ siftSwaps b' j) (length a) \<longleftrightarrow>
      swapsWithin ss' (length a) \<and> swapsWithin (siftSwaps b' j) (length a)"
    unfolding swapsWithin_def set_append by blast
  moreover have "runSwaps ss' a = b'" "b' = foldl siftDown a js" "swapsWithin ss' (length a)" using IH by blast+
  moreover have "length (siftDown b' j) = length a" by (simp only: siftDown_length len)
  ultimately show ?case by (simp only: runSwaps_append siftSwaps_run foldl_append foldl_Cons foldl_Nil simp_thms)
qed

lemma insertionSwaps_run:
  "runSwaps (insertionSwaps a) a = insertionSort a \<and> swapsWithin (insertionSwaps a) (length a)"
proof -
  obtain b ss where fold: "foldl (\<lambda>(b, ss) j. (siftDown b j, ss @ siftSwaps b j)) (a, []) [1..<length a] = (b, ss)"
    by (rule prod.exhaust)
  from insertionSwaps_fold [OF _ fold] show ?thesis
    unfolding insertionSwaps_def insertionSort_def fold by simp
qed

lemma insertionSwaps_range: "swapsInRange insertionSwaps"
  by (simp add: swapsInRange_def insertionSwaps_run)

lemma sortsByTier_insertionSwaps: "sortsByTier (sortingBy E insertionSwaps)"
  using go_sort.tier_sort_axioms by (simp add: sortsByTier_def sortingBy_def insertionSwaps_run)

definition sampleCalls :: "(nat \<times> storeCall \<times> outcome) list" where
  "sampleCalls = [(1, PutCall (patchRule ''a'' ''r'' 0 ''1''), PutDone (Inr None))]"

lemma sampleCalls_run:
  "\<exists>w. lockReachable sampleEnv insertionSwaps ''km'' w \<and> ls_log w = sampleCalls \<and> ls_writer w = None"
proof -
  let ?r = "patchRule ''a'' ''r'' 0 ''1''" and ?x = "patchItem ''a'' ''r'' 0 ''1''"
  let ?step = "lockStep sampleEnv insertionSwaps ''km''" and ?reach = "lockReachable sampleEnv insertionSwaps ''km''"
  let ?w = "\<lambda>m h ow p l. \<lparr>ls_memory = (m, h), ls_writer = ow, ls_readers = {}, ls_pc = (\<lambda>_. Outside)(1 := p), ls_log = l\<rparr>"
  have ns: "Namespace ?r = ''a''" by (simp add: patchRule_def)
  have step: "?reach w \<Longrightarrow> ?step w w' \<Longrightarrow> ?reach w'" for w w'
    unfolding lockReachable_def by (rule rtranclp.rtrancl_into_rtrancl)
  have put: "?reach (?w m h (Some 1) p l) \<Longrightarrow> putStep sampleEnv insertionSwaps (m, h) p (m', h') p' \<Longrightarrow> ?reach (?w m' h' (Some 1) p' l)"
    for m h p l m' h' p'
    using step lockStep.put [of sampleEnv insertionSwaps "?w m h (Some 1) p l" 1 "(m', h')" p' "''km''"] by simp
  have "?reach (?w Map.empty Map.empty None Outside [])" by (simp add: lockReachable_def emptyStore_def fun_upd_idem)
  then have "?reach (?w Map.empty Map.empty None (Waiting (PutCall ?r)) [])"
    by (rule step) (insert lockStep.call [of "?w Map.empty Map.empty None Outside []" 1], simp)
  then have "?reach (?w Map.empty Map.empty (Some 1) (Locked (PutCall ?r)) [])"
    by (rule step) (insert lockStep.lock [of "?w Map.empty Map.empty None (Waiting (PutCall ?r)) []" 1 "PutCall ?r"], simp)
  then have "?reach (?w [''a'' \<mapsto> (0, 0)] [0 \<mapsto> []] (Some 1) (PutCompile ?r (0, 0) None) [])"
    by (rule put) (insert put_miss [of Map.empty ?r Map.empty 0], auto simp: ns)
  then have "?reach (?w [''a'' \<mapsto> (0, 0)] [0 \<mapsto> []] (Some 1) (PutWrite ?r (0, 0) None ?x) [])"
    by (rule put) (intro put_compiled patchItem_compiled)
  then have "?reach (?w [''a'' \<mapsto> (7, 1)] [0 \<mapsto> [], 7 \<mapsto> [Some ?x]] (Some 1) (PutSort ?r) [])"
    by (rule put) (insert put_append_grow [of "[0 \<mapsto> []]" 0 "[]" 0 7 sampleEnv insertionSwaps "[''a'' \<mapsto> (0, 0)]" ?r ?x 0], auto simp: ns)
  then have "?reach (?w [''a'' \<mapsto> (7, 1)] [0 \<mapsto> [], 7 \<mapsto> [Some ?x]] (Some 1) (PutSwap ?r (7, 1) []) [])"
    by (rule put) (insert put_sort [of "[''a'' \<mapsto> (7, 1)]" ?r 7 1 "[0 \<mapsto> [], 7 \<mapsto> [Some ?x]]" "[Some ?x]" "[?x]" sampleEnv insertionSwaps], auto simp: ns insertionSwaps_def)
  then have "?reach (?w [''a'' \<mapsto> (7, 1)] [0 \<mapsto> [], 7 \<mapsto> [Some ?x]] (Some 1) (Leaving (PutCall ?r) (PutDone (Inr None))) [])"
    by (rule put) (rule put_sorted)
  then have "?reach (?w [''a'' \<mapsto> (7, 1)] [0 \<mapsto> [], 7 \<mapsto> [Some ?x]] None Outside sampleCalls)"
    by (rule step) (insert lockStep.unlock [of "?w [''a'' \<mapsto> (7, 1)] [0 \<mapsto> [], 7 \<mapsto> [Some ?x]] (Some 1) (Leaving (PutCall ?r) (PutDone (Inr None))) []" 1 "PutCall ?r" "PutDone (Inr None)"], simp add: sampleCalls_def)
  then show ?thesis by (intro exI) auto
qed

lemma store_linearizable_witness: "replays (sortingBy sampleEnv insertionSwaps) (NewModRuleStore ''km'') sampleCalls"
  using sampleCalls_run store_linearizable [OF insertionSwaps_range, of sampleEnv "''km''"] by metis

end
