(* ===== verification/LockProgress.thy ===== *)
theory LockProgress imports LockingProps begin

text \<open>
  The store never locks up: as long as a call is under way some goroutine can take a step, be it
  the holder of the lock or, when nobody holds it, one that waits for it. No step of a call is
  left without a rule, so a nil or an index out of range has nowhere to hide. Every step brings its
  call closer to the end, whatever the others do, so every schedule without new calls ends; and
  every sequence of calls can happen, which is where the examples take their logs from.
\<close>

section \<open>There is always memory\<close>

definition memFinite :: "memory \<Rightarrow> bool" where
  "memFinite mem \<longleftrightarrow> finite (dom (fst mem)) \<and> finite (dom (snd mem))"

lemma putStep_finite: "putStep E sw mem p mem' p' \<Longrightarrow> memFinite mem \<Longrightarrow> memFinite mem'"
  by (cases rule: putStep.cases) (auto simp: memFinite_def)

lemma deleteStep_finite: "deleteStep mem p mem' p' \<Longrightarrow> memFinite mem \<Longrightarrow> memFinite mem'"
  by (cases rule: deleteStep.cases) (auto simp: memFinite_def)

lemma reachable_finite: "lockReachable E sw cl w \<Longrightarrow> memFinite (ls_memory w)"
  unfolding lockReachable_def
proof (induction rule: rtranclp_induct)
  case base
  show ?case by (simp add: emptyStore_def memFinite_def)
next
  case (step w w')
  from step.hyps(2) show ?case
    using step.IH by (cases rule: lockStep.cases) (auto dest: putStep_finite deleteStep_finite)
qed

lemma fresh_address: "finite (dom h) \<Longrightarrow> \<exists>a :: nat. h a = None"
  by (metis domIff ex_new_if_finite infinite_UNIV_nat)

section \<open>Every step has a rule\<close>

lemma sliceIs_alloc: "sliceIs h (a, n) xs \<Longrightarrow> \<exists>arr. h a = Some arr"
  by (auto simp: sliceIs_def)

lemma memRep_alloc_Some: "memRep (m, h) f \<Longrightarrow> m ns = Some (a, n) \<Longrightarrow> \<exists>arr. h a = Some arr"
  using memRep_Some sliceIs_alloc by metis

definition canPut :: "('p, 'o) env \<Rightarrow> swaps \<Rightarrow> memory \<Rightarrow> pc \<Rightarrow> bool" where
  "canPut E sw mem p \<longleftrightarrow> (\<exists>mem' p'. putStep E sw mem p mem' p')"

definition canDelete :: "memory \<Rightarrow> pc \<Rightarrow> bool" where
  "canDelete mem p \<longleftrightarrow> (\<exists>mem' p'. deleteStep mem p mem' p')"

lemma canPut_start:
  assumes "finite (dom h)"
  shows "canPut E sw (m, h) (Locked (PutCall r))"
proof (cases "m (Namespace r)")
  case None
  then show ?thesis unfolding canPut_def using fresh_address [OF assms] put_miss by metis
next
  case (Some sl)
  then show ?thesis unfolding canPut_def using put_hit by metis
qed

lemma canPut_find_at:
  assumes "writerInv E sw s (m, h) (PutFind r (a, n) i)"
  shows "canPut E sw (m, h) (PutFind r (a, n) i)"
proof -
  obtain arr where arr: "h a = Some arr" using assms memRep_alloc_Some [of m h _ "Namespace r"] by auto
  consider "\<not> i < n" | "i < n" "arr ! i = None" | x where "i < n" "arr ! i = Some x" by blast
  then show ?thesis
    unfolding canPut_def using arr by cases (metis put_absent, metis put_nil, metis put_found put_next)
qed

lemma canPut_find: "writerInv E sw s (m, h) (PutFind r sl i) \<Longrightarrow> canPut E sw (m, h) (PutFind r sl i)"
  by (cases sl) (simp only: canPut_find_at)

lemma canPut_compile: "canPut E sw (m, h) (PutCompile r sl ix)"
proof (cases "NewModRuleStoreItem E r")
  case (Inl e)
  then show ?thesis unfolding canPut_def by (cases e) (metis put_error, metis put_panic)
next
  case (Inr x)
  then show ?thesis unfolding canPut_def by (metis put_compiled)
qed

lemma canPut_write_at:
  assumes "writerInv E sw s (m, h) (PutWrite r (a, n) ix x)" and "finite (dom h)"
  shows "canPut E sw (m, h) (PutWrite r (a, n) ix x)"
proof -
  have rep: "memRep (m, h) ((modRuleListMap s)(Namespace r \<mapsto> fst (putStart s r)))" "m (Namespace r) = Some (a, n)"
    "snd (putStart s r) = ix" using assms(1) by simp_all
  obtain arr where arr: "h a = Some arr" using memRep_alloc_Some [OF rep(1,2)] by blast
  show ?thesis
  proof (cases ix)
    case None
    then show ?thesis
      unfolding canPut_def using arr fresh_address [OF assms(2)]
      by (cases "n < length arr") (metis put_append, metis put_append_grow)
  next
    case (Some i)
    then have "i < n"
      using rep(3) sliceIs_len [OF memRep_here [OF rep(1,2)]] findItemIndexByName_Some
      by (auto simp: putStart_def split: option.splits)
    then show ?thesis unfolding canPut_def Some using rep(2) arr put_replace by metis
  qed
qed

lemma canPut_write: "writerInv E sw s (m, h) (PutWrite r sl ix x) \<Longrightarrow> finite (dom h) \<Longrightarrow> canPut E sw (m, h) (PutWrite r sl ix x)"
  by (cases sl) (simp only: canPut_write_at)

lemma canPut_sort:
  assumes "writerInv E sw s (m, h) (PutSort r)"
  shows "canPut E sw (m, h) (PutSort r)"
proof -
  obtain item a n where rep: "memRep (m, h) ((modRuleListMap s)(Namespace r \<mapsto> putUpdated s r item))" "m (Namespace r) = Some (a, n)"
    using assms by auto
  obtain arr where arr: "h a = Some arr" using memRep_alloc_Some [OF rep] by blast
  show ?thesis unfolding canPut_def using put_sort rep(2) arr whole_slice(1) [OF rep arr] by metis
qed

lemma canPut_swap_at:
  assumes "writerInv E sw s (m, h) (PutSwap r (a, n) ss)"
  shows "canPut E sw (m, h) (PutSwap r (a, n) ss)"
proof (cases ss)
  case Nil
  then show ?thesis unfolding canPut_def by (metis put_sorted)
next
  case (Cons ij ss')
  obtain i j where ij: "ij = (i, j)" by (cases ij)
  obtain arr where "h a = Some arr" using assms memRep_alloc_Some [of m h _ "Namespace r"] by auto
  moreover have "i < n" "j < n" using assms Cons ij by (auto simp: swapsWithin_def)
  ultimately show ?thesis unfolding canPut_def Cons ij using put_swap by metis
qed

lemma canPut_swap: "writerInv E sw s (m, h) (PutSwap r sl ss) \<Longrightarrow> canPut E sw (m, h) (PutSwap r sl ss)"
  by (cases sl) (simp only: canPut_swap_at)

lemma canDelete_start: "canDelete (m, h) (Locked (DeleteCall ns nm))"
  unfolding canDelete_def by (cases "m ns") (metis delete_miss, metis delete_hit)

lemma canDelete_find_at:
  assumes "writerInv E sw s (m, h) (DeleteFind ns nm (a, n) i)"
  shows "canDelete (m, h) (DeleteFind ns nm (a, n) i)"
proof -
  obtain arr where arr: "h a = Some arr" using assms memRep_alloc_Some [of m h _ ns] by auto
  consider "\<not> i < n" | "i < n" "arr ! i = None" | x where "i < n" "arr ! i = Some x" by blast
  then show ?thesis
    unfolding canDelete_def using arr by cases (metis delete_absent, metis delete_nil, metis delete_found delete_next)
qed

lemma canDelete_find: "writerInv E sw s (m, h) (DeleteFind ns nm sl i) \<Longrightarrow> canDelete (m, h) (DeleteFind ns nm sl i)"
  by (cases sl) (simp only: canDelete_find_at)

lemma canDelete_move_at:
  assumes "writerInv E sw s (m, h) (DeleteMove ns nm (a, n) i)"
  shows "canDelete (m, h) (DeleteMove ns nm (a, n) i)"
proof -
  have rep: "memRep (m, h) (modRuleListMap s)" "m ns = Some (a, n)" "findItemIndexByName (rulesOf s ns) nm = Some i"
    using assms by simp_all
  have "i < n" using findItemIndexByName_Some [OF rep(3)] memRep_rules [OF rep(1,2)] sliceIs_len by metis
  then show ?thesis unfolding canDelete_def using memRep_alloc_Some [OF rep(1,2)] delete_move by metis
qed

lemma canDelete_move: "writerInv E sw s (m, h) (DeleteMove ns nm sl i) \<Longrightarrow> canDelete (m, h) (DeleteMove ns nm sl i)"
  by (cases sl) (simp only: canDelete_move_at)

lemma canDelete_clear_at:
  assumes "writerInv E sw s (m, h) (DeleteClear ns nm (a, n))"
  shows "canDelete (m, h) (DeleteClear ns nm (a, n))"
proof -
  obtain f where "memRep (m, h) f" "m ns = Some (a, n)" using assms by auto
  from memRep_alloc_Some [OF this] show ?thesis unfolding canDelete_def using delete_clear by metis
qed

lemma canDelete_clear: "writerInv E sw s (m, h) (DeleteClear ns nm sl) \<Longrightarrow> canDelete (m, h) (DeleteClear ns nm sl)"
  by (cases sl) (simp only: canDelete_clear_at)

lemma canDelete_truncate: "canDelete (m, h) (DeleteTruncate ns nm sl)"
  unfolding canDelete_def by (cases sl, cases "snd sl - 1 = 0") (metis delete_drop snd_conv, metis delete_keep snd_conv)

lemmas canPut_intros = canPut_start canPut_find canPut_compile canPut_write canPut_sort canPut_swap
lemmas canDelete_intros = canDelete_start canDelete_find canDelete_move canDelete_clear canDelete_truncate

lemma writer_progress:
  assumes "writing p" and "writerInv E sw s (m, h) p" and "finite (dom h)"
  shows "(\<exists>c out. p = Leaving c out \<and> \<not> readsOnly c) \<or> canPut E sw (m, h) p \<or> canDelete (m, h) p"
proof (cases p rule: writing.cases)
  case (1 c)
  then show ?thesis using assms canPut_start canDelete_start by (cases c) auto
next
  case (2 c out)
  then show ?thesis using assms by simp
qed (use assms in \<open>metis writing.simps canPut_intros(2-) canDelete_intros(2-)\<close>)+

lemma slice_progress:
  assumes "memRep (m, h) f" and "i < sliceLen (m ns)"
  obtains a n arr where "m ns = Some (a, n)" and "i < n" and "h a = Some arr"
proof (cases "m ns")
  case (Some sl)
  then obtain a n where "m ns = Some (a, n)" by (cases sl) auto
  moreover from this obtain arr where "h a = Some arr"
    using memRep_Some [OF assms(1)] sliceIs_alloc by metis
  ultimately show thesis using assms(2) that by (simp add: sliceLen_def)
qed (use assms(2) in \<open>simp add: sliceLen_def\<close>)

lemma stats_progress:
  assumes "finite (dom m)"
  shows "\<exists>p'. statsStep (m, h) (Locked StatsCall) p'" "\<exists>p'. statsStep (m, h) (StatsLoop nss namespaces) p'"
proof -
  show "\<exists>p'. statsStep (m, h) (Locked StatsCall) p'"
    using finite_distinct_list [OF assms] stats_start by metis
  show "\<exists>p'. statsStep (m, h) (StatsLoop nss namespaces) p'"
  proof (cases nss)
    case Nil
    then show ?thesis by (metis stats_done)
  next
    case (Cons ns rest)
    then show ?thesis by (cases "m ns") (metis stats_gone, metis stats_count surj_pair)
  qed
qed

lemma reader_progress:
  assumes "readerInv cl s (m, h) p" and "memRep (m, h) f" and "reading p" and "finite (dom m)"
  shows "(\<exists>c out. p = Leaving c out) \<or> (\<exists>p'. queryStep cl (m, h) p p') \<or> (\<exists>p'. statsStep (m, h) p p')"
  using assms(3)
proof (cases p rule: reading.cases)
  case (1 c)
  then show ?thesis using assms(3) stats_progress(1) [OF assms(4)] by (cases c) (auto intro: query_start)
next
  case (3 q sl i st)
  show ?thesis
  proof (cases "i < sliceLen sl")
    case True
    then obtain a n arr where "sl = Some (a, n)" "i < n" "h a = Some arr"
      using slice_progress [OF assms(2)] assms(1) 3 by (metis fst_conv readerInv.simps(1))
    then show ?thesis unfolding 3 by (cases "arr ! i") (metis query_cluster_nil, metis query_cluster)
  next
    case False
    then show ?thesis using 3 query_cluster_end by blast
  qed
next
  case (4 q st)
  then show ?thesis by (cases "q_namespace q = []") (metis query_cluster_only, metis query_own)
next
  case (5 q sl i st)
  show ?thesis
  proof (cases "i < sliceLen sl")
    case True
    then obtain a n arr where "sl = Some (a, n)" "i < n" "h a = Some arr"
      using slice_progress [OF assms(2)] assms(1) 5 by (metis fst_conv readerInv.simps(3))
    then show ?thesis unfolding 5 by (cases "arr ! i") (metis query_rule_nil, metis query_rule)
  next
    case False
    then show ?thesis using 5 query_rules_end by blast
  qed
next
  case (6 q xs found t)
  show ?thesis
  proof (cases xs)
    case Nil
    then show ?thesis unfolding 6 by (metis query_done)
  next
    case (Cons x ys)
    then show ?thesis unfolding 6 by (cases "ruleTest q x") (metis query_match_panic, metis query_match)
  qed
qed (use assms(3) stats_progress(2) [OF assms(4)] in auto)

section \<open>The store never locks up\<close>

lemma step_put: "canPut E sw (ls_memory w) (ls_pc w t) \<Longrightarrow> \<exists>w'. lockStep E sw cl w w' \<and> ls_pc w' t \<noteq> ls_pc w t"
proof -
  assume "canPut E sw (ls_memory w) (ls_pc w t)"
  then obtain mem p where step: "putStep E sw (ls_memory w) (ls_pc w t) mem p" unfolding canPut_def by blast
  then have "p \<noteq> ls_pc w t" by (cases rule: putStep.cases) auto
  with lockStep.put [OF step] show ?thesis by (intro exI conjI) auto
qed

lemma step_delete: "canDelete (ls_memory w) (ls_pc w t) \<Longrightarrow> \<exists>w'. lockStep E sw cl w w' \<and> ls_pc w' t \<noteq> ls_pc w t"
proof -
  assume "canDelete (ls_memory w) (ls_pc w t)"
  then obtain mem p where step: "deleteStep (ls_memory w) (ls_pc w t) mem p" unfolding canDelete_def by blast
  then have "p \<noteq> ls_pc w t" by (cases rule: deleteStep.cases) auto
  with lockStep.delete [OF step] show ?thesis by (intro exI conjI) auto
qed

lemma step_query: "queryStep cl (ls_memory w) (ls_pc w t) p \<Longrightarrow> \<exists>w'. lockStep E sw cl w w' \<and> ls_pc w' t \<noteq> ls_pc w t"
proof -
  assume step: "queryStep cl (ls_memory w) (ls_pc w t) p"
  then have "p \<noteq> ls_pc w t" by (cases rule: queryStep.cases) auto
  with lockStep.query [OF step] show ?thesis by (intro exI conjI) auto
qed

lemma step_stats: "statsStep (ls_memory w) (ls_pc w t) p \<Longrightarrow> \<exists>w'. lockStep E sw cl w w' \<and> ls_pc w' t \<noteq> ls_pc w t"
proof -
  assume step: "statsStep (ls_memory w) (ls_pc w t) p"
  then have "p \<noteq> ls_pc w t" by (cases rule: statsStep.cases) auto
  with lockStep.stats [OF step] show ?thesis by (intro exI conjI) auto
qed

lemma step_leave:
  assumes "ls_pc w t = Leaving c out"
  shows "\<exists>w'. lockStep E sw cl w w' \<and> ls_pc w' t \<noteq> ls_pc w t"
proof (cases "readsOnly c")
  case True
  show ?thesis by (rule exI, rule conjI [OF lockStep.runlock [OF assms True]]) (simp add: assms)
next
  case False
  show ?thesis by (rule exI, rule conjI [OF lockStep.unlock [OF assms False]]) (simp add: assms)
qed

lemma step_wait:
  assumes "ls_pc w t = Waiting c" and "ls_writer w = None" and "ls_readers w = {}"
  shows "\<exists>w'. lockStep E sw cl w w' \<and> ls_pc w' t \<noteq> ls_pc w t"
proof (cases "readsOnly c")
  case True
  show ?thesis by (rule exI, rule conjI [OF lockStep.rlock [OF assms(1) True assms(2)]]) (simp add: assms)
next
  case False
  show ?thesis by (rule exI, rule conjI [OF lockStep.lock [OF assms(1) False assms(2,3)]]) (simp add: assms)
qed

lemma lockStep_stays:
  assumes "lockStep E sw cl w w'" and "ls_pc w t \<noteq> Outside" and "ls_pc w' t \<noteq> ls_pc w t"
  shows "u \<noteq> t \<Longrightarrow> ls_pc w' u = ls_pc w u"
  using assms by (cases rule: lockStep.cases) (auto split: if_splits)

text \<open>A step in which no goroutine starts a call.\<close>

definition quietStep :: "('p, 'o) env \<Rightarrow> swaps \<Rightarrow> string \<Rightarrow> lockedStore \<Rightarrow> lockedStore \<Rightarrow> bool" where
  "quietStep E sw cl w w' \<longleftrightarrow> lockStep E sw cl w w' \<and> (\<forall>t. ls_pc w t = Outside \<longrightarrow> ls_pc w' t = Outside)"

lemma quietStepI:
  "lockStep E sw cl w w' \<Longrightarrow> ls_pc w t \<noteq> Outside \<Longrightarrow> ls_pc w' t \<noteq> ls_pc w t \<Longrightarrow> quietStep E sw cl w w'"
  unfolding quietStep_def using lockStep_stays by metis

lemma quiet_progress:
  assumes "swapsInRange sw" and "lockReachable E sw cl w" and "ls_pc w t \<noteq> Outside"
  shows "\<exists>w'. quietStep E sw cl w w'"
proof -
  have inv: "lockInv E sw cl w" by (rule reachable_inv [OF assms(2,1)])
  obtain m h where mem: "ls_memory w = (m, h)" by (cases "ls_memory w")
  have fin: "finite (dom m)" "finite (dom h)" using reachable_finite [OF assms(2)] mem by (simp_all add: memFinite_def)
  have "\<exists>t' w'. ls_pc w t' \<noteq> Outside \<and> lockStep E sw cl w w' \<and> ls_pc w' t' \<noteq> ls_pc w t'"
  proof (cases "\<exists>t. writing (ls_pc w t)")
    case True
    then obtain u where u: "writing (ls_pc w u)" by blast
    then have "ls_pc w u \<noteq> Outside" by auto
    then show ?thesis
      using writer_progress [OF u inv_writer(3) [OF inv u, unfolded mem] fin(2)]
        step_leave step_put [of E sw w u cl] step_delete [of w u E sw cl] mem by metis
  next
    case writers: False
    show ?thesis
    proof (cases "\<exists>t. reading (ls_pc w t)")
      case True
      then obtain u where u: "reading (ls_pc w u)" by blast
      then have "ls_pc w u \<noteq> Outside" by auto
      then show ?thesis
        using reader_progress [OF inv_reader(2,1) [OF inv u, unfolded mem] u fin(1)] step_leave step_query [of cl w u]
          step_stats [of w u] mem
        by metis
    next
      case False
      have held: "lockHeld w" using inv by (simp add: lockInv_def)
      then have "ls_writer w = None" "ls_readers w = {}"
        using writers False unfolding lockHeld_def by (meson not_Some_eq, blast)
      moreover have "\<exists>c. ls_pc w t = Waiting c"
        using writers False assms(3) by (cases "ls_pc w t") (metis writing.simps reading.simps)+
      ultimately show ?thesis using step_wait assms(3) by metis
    qed
  qed
  then show ?thesis using quietStepI by metis
qed

section \<open>Every schedule ends\<close>

text \<open>How far a call has to go: its stage, and the rest of the loop it is in.\<close>

fun pcRank :: "pc \<Rightarrow> nat \<times> nat" where
  "pcRank Outside = (0, 0)"
| "pcRank (Waiting c) = (10, 0)"
| "pcRank (Locked c) = (9, 0)"
| "pcRank (PutFind r sl i) = (8, snd sl - i)"
| "pcRank (PutCompile r sl ix) = (7, 0)"
| "pcRank (PutWrite r sl ix item) = (6, 0)"
| "pcRank (PutSort r) = (5, 0)"
| "pcRank (PutSwap r sl ss) = (4, length ss)"
| "pcRank (DeleteFind ns name sl i) = (8, snd sl - i)"
| "pcRank (DeleteMove ns name sl i) = (7, 0)"
| "pcRank (DeleteClear ns name sl) = (6, 0)"
| "pcRank (DeleteTruncate ns name sl) = (5, 0)"
| "pcRank (QueryCluster q sl i st) = (8, sliceLen sl - i)"
| "pcRank (QueryOwn q st) = (7, 0)"
| "pcRank (QueryRules q sl i st) = (6, sliceLen sl - i)"
| "pcRank (QueryMatch q xs found t) = (5, length xs)"
| "pcRank (StatsLoop nss namespaces) = (8, length nss)"
| "pcRank (Leaving c out) = (1, 0)"

definition rankLess :: "((nat \<times> nat) \<times> nat \<times> nat) set" where
  "rankLess = less_than <*lex*> less_than"

lemma putStep_rank: "putStep E sw mem p mem' p' \<Longrightarrow> (pcRank p', pcRank p) \<in> rankLess \<and> p' \<noteq> Outside"
  by (cases rule: putStep.cases) (auto simp: rankLess_def)

lemma deleteStep_rank: "deleteStep mem p mem' p' \<Longrightarrow> (pcRank p', pcRank p) \<in> rankLess \<and> p' \<noteq> Outside"
  by (cases rule: deleteStep.cases) (auto simp: rankLess_def)

lemma statsStep_rank: "statsStep mem p p' \<Longrightarrow> (pcRank p', pcRank p) \<in> rankLess \<and> p' \<noteq> Outside"
  by (cases rule: statsStep.cases) (auto simp: rankLess_def)

lemma queryStep_rank: "queryStep cl mem p p' \<Longrightarrow> (pcRank p', pcRank p) \<in> rankLess \<and> p' \<noteq> Outside"
  by (cases rule: queryStep.cases) (auto simp: rankLess_def sliceLen_def)

lemma quietStep_thread:
  assumes "quietStep E sw cl w w'"
  obtains t p where "ls_pc w t \<noteq> Outside" and "ls_pc w' = (ls_pc w)(t := p)"
    and "p = Outside \<or> (pcRank p, pcRank (ls_pc w t)) \<in> rankLess"
proof -
  have step: "lockStep E sw cl w w'" using assms by (simp add: quietStep_def)
  have "\<exists>t p. ls_pc w t \<noteq> Outside \<and> ls_pc w' = (ls_pc w)(t := p) \<and> (p = Outside \<or> (pcRank p, pcRank (ls_pc w t)) \<in> rankLess)"
    using step
  proof (cases rule: lockStep.cases)
    case (call t c)
    have "ls_pc w' t = Outside" using assms call(2) by (simp add: quietStep_def)
    then show ?thesis using call(1) by simp
  next
    case (lock t c)
    then show ?thesis by (intro exI [of _ t] exI [of _ "Locked c"]) (simp add: rankLess_def)
  next
    case (rlock t c)
    then show ?thesis by (intro exI [of _ t] exI [of _ "Locked c"]) (simp add: rankLess_def)
  next
    case (put t mem p)
    then show ?thesis
      using putStep_rank [OF put(2)] putStep_writing [OF put(2)] by (intro exI [of _ t] exI [of _ p]) auto
  next
    case (delete t mem p)
    then show ?thesis
      using deleteStep_rank [OF delete(2)] deleteStep_writing [OF delete(2)] by (intro exI [of _ t] exI [of _ p]) auto
  next
    case (query t p)
    then show ?thesis
      using queryStep_rank [OF query(2)] queryStep_reading [OF query(2)] by (intro exI [of _ t] exI [of _ p]) auto
  next
    case (stats t p)
    then show ?thesis
      using statsStep_rank [OF stats(2)] statsStep_reading [OF stats(2)] by (intro exI [of _ t] exI [of _ p]) auto
  next
    case (unlock t c out)
    then show ?thesis by (intro exI [of _ t] exI [of _ Outside]) simp
  next
    case (runlock t c out)
    then show ?thesis by (intro exI [of _ t] exI [of _ Outside]) simp
  qed
  then show thesis using that by blast
qed

definition active :: "lockedStore \<Rightarrow> nat set" where
  "active w = {t. ls_pc w t \<noteq> Outside}"

definition activeRanks :: "lockedStore \<Rightarrow> (nat \<times> nat) multiset" where
  "activeRanks w = image_mset (\<lambda>t. pcRank (ls_pc w t)) (mset_set (active w))"

lemma quietStep_ranks:
  assumes "quietStep E sw cl w w'" and "finite (active w)"
  shows "finite (active w')" "(activeRanks w', activeRanks w) \<in> mult1 rankLess"
proof -
  obtain t p where t: "ls_pc w t \<noteq> Outside" "ls_pc w' = (ls_pc w)(t := p)"
    "p = Outside \<or> (pcRank p, pcRank (ls_pc w t)) \<in> rankLess"
    by (rule quietStep_thread [OF assms(1)])
  define others where "others = active w - {t}"
  have others: "finite others" "t \<notin> others" "active w = insert t others"
    "active w' = (if p = Outside then others else insert t others)"
    using assms(2) t(1,2) by (auto simp: others_def active_def)
  define rest where "rest = image_mset (\<lambda>t. pcRank (ls_pc w t)) (mset_set others)"
  have same: "image_mset (\<lambda>u. pcRank (ls_pc w' u)) (mset_set others) = rest"
    unfolding rest_def t(2) using others(1,2) by (intro image_mset_cong) auto
  have "activeRanks w = add_mset (pcRank (ls_pc w t)) rest"
    using others(1,2,3) by (simp add: activeRanks_def rest_def)
  moreover have "activeRanks w' = rest + (if p = Outside then {#} else {#pcRank p#})"
    using others(1,2,4) same t(2) by (simp add: activeRanks_def)
  ultimately show "(activeRanks w', activeRanks w) \<in> mult1 rankLess"
    using t(3) by (intro mult1I) (auto split: if_splits)
  show "finite (active w')" using others by simp
qed

lemma reachable_active: "lockReachable E sw cl w \<Longrightarrow> finite (active w)"
  unfolding lockReachable_def
proof (induction rule: rtranclp_induct)
  case base
  show ?case by (simp add: active_def emptyStore_def)
next
  case (step w w')
  have "\<exists>t. active w' \<subseteq> insert t (active w)"
    using step.hyps(2) by (cases rule: lockStep.cases) (auto simp: active_def split: if_splits)
  then show ?case using step.IH finite_subset by blast
qed

lemma quiet_reachable:
  assumes "lockReachable E sw cl w" and "(quietStep E sw cl)\<^sup>*\<^sup>* w w'"
  shows "lockReachable E sw cl w'"
  using assms(2)
proof (induction rule: rtranclp_induct)
  case (step u v)
  then show ?case unfolding lockReachable_def quietStep_def by (meson rtranclp.rtrancl_into_rtrancl)
qed (rule assms(1))

lemma quiet_wf: "wf {(w', w). quietStep E sw cl w w' \<and> finite (active w)}"
proof (rule wf_subset)
  have "wf rankLess" unfolding rankLess_def by (intro wf_lex_prod wf_less_than)
  then show "wf (inv_image (mult1 rankLess) activeRanks)" by (intro wf_inv_image wf_mult1)
qed (auto dest: quietStep_ranks)

text \<open>
  C18: every call of the store returns. From a reachable state no schedule of the goroutines
  goes on for ever without new calls, whoever steps next and however unfair; and a schedule
  that cannot go on has brought every call to its end. So nothing deadlocks between readers and
  writers, every loop under the lock ends, and every unlock comes.
\<close>

theorem store_calls_return:
  assumes "swapsInRange sw" and "lockReachable E sw cl w"
  shows "(\<nexists>f. f 0 = w \<and> (\<forall>i. quietStep E sw cl (f i) (f (Suc i)))) \<and>
    (\<forall>w'. (quietStep E sw cl)\<^sup>*\<^sup>* w w' \<and> (\<nexists>w''. quietStep E sw cl w' w'') \<longrightarrow> (\<forall>t. ls_pc w' t = Outside))"
proof (intro conjI notI allI impI)
  assume "\<exists>f. f 0 = w \<and> (\<forall>i. quietStep E sw cl (f i) (f (Suc i)))"
  then obtain f where f: "f 0 = w" "\<And>i. quietStep E sw cl (f i) (f (Suc i))" by blast
  have "lockReachable E sw cl (f i)" for i
  proof (induction i)
    case (Suc i)
    then show ?case using quiet_reachable r_into_rtranclp f(2) by metis
  qed (simp add: f(1) assms(2))
  then have "\<forall>i. (f (Suc i), f i) \<in> {(w', w). quietStep E sw cl w w' \<and> finite (active w)}"
    using f(2) reachable_active by blast
  then show False using quiet_wf unfolding wf_iff_no_infinite_down_chain by blast
next
  fix w' t assume "(quietStep E sw cl)\<^sup>*\<^sup>* w w' \<and> (\<nexists>w''. quietStep E sw cl w' w'')"
  then show "ls_pc w' t = Outside"
    using quiet_progress [OF assms(1) quiet_reachable [OF assms(2)]] by blast
qed

lemma store_calls_return_witness:
  "\<nexists>f. f 0 = emptyStore\<lparr>ls_pc := (\<lambda>_. Outside)(1 := Waiting (DeleteCall ''a'' ''r''))\<rparr> \<and>
     (\<forall>i. quietStep sampleEnv insertionSwaps ''km'' (f i) (f (Suc i)))"
proof -
  have "lockStep sampleEnv insertionSwaps ''km'' emptyStore (emptyStore\<lparr>ls_pc := (\<lambda>_. Outside)(1 := Waiting (DeleteCall ''a'' ''r''))\<rparr>)"
    using lockStep.call [of emptyStore 1 sampleEnv insertionSwaps "''km''" "DeleteCall ''a'' ''r''"] by (simp add: emptyStore_def)
  then have "lockReachable sampleEnv insertionSwaps ''km'' (emptyStore\<lparr>ls_pc := (\<lambda>_. Outside)(1 := Waiting (DeleteCall ''a'' ''r''))\<rparr>)"
    unfolding lockReachable_def by (rule r_into_rtranclp)
  from store_calls_return [OF insertionSwaps_range this] show ?thesis by blast
qed

section \<open>Every sequence of calls can happen\<close>

fun callOf :: "pc \<Rightarrow> storeCall option" where
  "callOf Outside = None"
| "callOf (Waiting c) = Some c"
| "callOf (Locked c) = Some c"
| "callOf (PutFind r sl i) = Some (PutCall r)"
| "callOf (PutCompile r sl ix) = Some (PutCall r)"
| "callOf (PutWrite r sl ix item) = Some (PutCall r)"
| "callOf (PutSort r) = Some (PutCall r)"
| "callOf (PutSwap r sl ss) = Some (PutCall r)"
| "callOf (DeleteFind ns name sl i) = Some (DeleteCall ns name)"
| "callOf (DeleteMove ns name sl i) = Some (DeleteCall ns name)"
| "callOf (DeleteClear ns name sl) = Some (DeleteCall ns name)"
| "callOf (DeleteTruncate ns name sl) = Some (DeleteCall ns name)"
| "callOf (QueryCluster q sl i st) = Some (QueryCall q)"
| "callOf (QueryOwn q st) = Some (QueryCall q)"
| "callOf (QueryRules q sl i st) = Some (QueryCall q)"
| "callOf (QueryMatch q xs found t) = Some (QueryCall q)"
| "callOf (StatsLoop nss namespaces) = Some StatsCall"
| "callOf (Leaving c out) = Some c"

lemma callOf_Outside: "callOf p = None \<longleftrightarrow> p = Outside"
  by (cases p) auto

text \<open>One goroutine inside a call, or just out of it with its entry in the log.\<close>

definition soleCall :: "nat \<Rightarrow> storeCall \<Rightarrow> (nat \<times> storeCall \<times> outcome) list \<Rightarrow> lockedStore \<Rightarrow> bool" where
  "soleCall t c log w \<longleftrightarrow> (\<forall>u. u \<noteq> t \<longrightarrow> ls_pc w u = Outside) \<and>
     (if ls_pc w t = Outside then \<exists>out. ls_log w = log @ [(t, c, out)] else callOf (ls_pc w t) = Some c \<and> ls_log w = log)"

lemma putStep_callOf: "putStep E sw mem p mem' p' \<Longrightarrow> callOf p' = callOf p"
  by (cases rule: putStep.cases) auto

lemma deleteStep_callOf: "deleteStep mem p mem' p' \<Longrightarrow> callOf p' = callOf p"
  by (cases rule: deleteStep.cases) auto

lemma queryStep_callOf: "queryStep cl mem p p' \<Longrightarrow> callOf p' = callOf p"
  by (cases rule: queryStep.cases) auto

lemma statsStep_callOf: "statsStep mem p p' \<Longrightarrow> callOf p' = callOf p"
  by (cases rule: statsStep.cases) auto

text \<open>A quiet step moves one call on, or ends one and records it.\<close>

lemma quiet_calls:
  assumes "quietStep E sw cl w w'"
  shows "ls_log w' = ls_log w \<and> (\<forall>u. callOf (ls_pc w' u) = callOf (ls_pc w u)) \<or>
    (\<exists>t c out. callOf (ls_pc w t) = Some c \<and> ls_pc w' = (ls_pc w)(t := Outside) \<and> ls_log w' = ls_log w @ [(t, c, out)])"
proof -
  have step: "lockStep E sw cl w w'" "\<And>u. ls_pc w u = Outside \<Longrightarrow> ls_pc w' u = Outside"
    using assms by (simp_all add: quietStep_def)
  show ?thesis
    using step(1)
  proof (cases rule: lockStep.cases)
    case (call u d)
    with step(2) [of u] show ?thesis by simp
  next
    case (put u mem p)
    then show ?thesis using putStep_callOf [OF put(2)] by simp
  next
    case (delete u mem p)
    then show ?thesis using deleteStep_callOf [OF delete(2)] by simp
  next
    case (query u p)
    then show ?thesis using queryStep_callOf [OF query(2)] by simp
  next
    case (stats u p)
    then show ?thesis using statsStep_callOf [OF stats(2)] by simp
  next
    case (unlock u d out)
    then show ?thesis by (intro disjI2 exI [of _ u] exI [of _ d]) simp
  next
    case (runlock u d out)
    then show ?thesis by (intro disjI2 exI [of _ u] exI [of _ d]) simp
  qed simp_all
qed

lemma soleCall_step:
  assumes "quietStep E sw cl w w'" and "soleCall t c log w"
  shows "soleCall t c log w'"
  using quiet_calls [OF assms(1)]
proof (elim disjE exE conjE)
  assume same: "ls_log w' = ls_log w" "\<forall>u. callOf (ls_pc w' u) = callOf (ls_pc w u)"
  then have "ls_pc w' u = Outside \<longleftrightarrow> ls_pc w u = Outside" for u by (metis callOf_Outside)
  then show ?thesis using assms(2) same by (simp add: soleCall_def)
next
  fix u d out
  assume last: "callOf (ls_pc w u) = Some d" "ls_pc w' = (ls_pc w)(u := Outside)" "ls_log w' = ls_log w @ [(u, d, out)]"
  moreover have "u = t" using last(1) assms(2) by (auto simp: soleCall_def)
  ultimately show ?thesis using assms(2) by (auto simp: soleCall_def split: if_splits)
qed

lemma quiet_end:
  assumes "finite (active w)" and "lockReachable E sw cl w"
  shows "\<exists>w'. (quietStep E sw cl)\<^sup>*\<^sup>* w w' \<and> (\<nexists>w''. quietStep E sw cl w' w'')"
  using assms
proof (induction w rule: wf_induct_rule [OF quiet_wf [of E sw cl]])
  case (1 w)
  show ?case
  proof (cases "\<exists>w'. quietStep E sw cl w w'")
    case True
    then obtain w' where w': "quietStep E sw cl w w'" by blast
    then have "lockReachable E sw cl w'" using quiet_reachable 1(3) by blast
    with 1(1) [of w'] w' 1(2) reachable_active obtain v where
      "(quietStep E sw cl)\<^sup>*\<^sup>* w' v" "\<nexists>w''. quietStep E sw cl v w''" by blast
    with w' show ?thesis by (meson converse_rtranclp_into_rtranclp)
  qed blast
qed

definition idle :: "lockedStore \<Rightarrow> bool" where
  "idle w \<longleftrightarrow> (\<forall>t. ls_pc w t = Outside)"

definition begins :: "nat \<Rightarrow> storeCall \<Rightarrow> lockedStore \<Rightarrow> lockedStore" where
  "begins t c w = w\<lparr>ls_pc := (ls_pc w)(t := Waiting c)\<rparr>"

lemma begins_reachable:
  assumes "lockReachable E sw cl w" and "ls_pc w t = Outside"
  shows "lockReachable E sw cl (begins t c w)"
proof -
  have "lockStep E sw cl w (begins t c w)" unfolding begins_def by (rule lockStep.call [OF assms(2)])
  with assms(1) show ?thesis unfolding lockReachable_def by (rule rtranclp.rtrancl_into_rtrancl)
qed

lemma quiet_idle:
  assumes "swapsInRange sw" and "lockReachable E sw cl w"
  shows "\<exists>w'. (quietStep E sw cl)\<^sup>*\<^sup>* w w' \<and> idle w'"
proof -
  obtain w' where w': "(quietStep E sw cl)\<^sup>*\<^sup>* w w'" "\<nexists>w''. quietStep E sw cl w' w''"
    using quiet_end [OF reachable_active [OF assms(2)] assms(2)] by blast
  then have "idle w'"
    using quiet_progress [OF assms(1) quiet_reachable [OF assms(2) w'(1)]] unfolding idle_def by blast
  with w'(1) show ?thesis by blast
qed

lemma run_call_quiet:
  assumes "swapsInRange sw" and "lockReachable E sw cl w" and "idle w"
  shows "\<exists>w' out. (quietStep E sw cl)\<^sup>*\<^sup>* (begins t c w) w' \<and> idle w' \<and> ls_log w' = ls_log w @ [(t, c, out)]"
proof -
  have reach: "lockReachable E sw cl (begins t c w)"
    using assms(2,3) by (auto simp: idle_def intro: begins_reachable)
  obtain w' where w': "(quietStep E sw cl)\<^sup>*\<^sup>* (begins t c w) w'" "idle w'"
    using quiet_idle [OF assms(1) reach] by blast
  have "soleCall t c (ls_log w) w'"
    using w'(1)
  proof (induction rule: rtranclp_induct)
    case base
    show ?case using assms(3) by (simp add: soleCall_def idle_def begins_def)
  qed (rule soleCall_step)
  with w' show ?thesis by (auto simp: soleCall_def idle_def)
qed

lemma run_call:
  assumes "swapsInRange sw" and "lockReachable E sw cl w" and "idle w"
  shows "\<exists>w' out. lockReachable E sw cl w' \<and> idle w' \<and> ls_log w' = ls_log w @ [(t, c, out)]"
proof -
  have "lockReachable E sw cl (begins t c w)"
    using assms(2,3) by (auto simp: idle_def intro: begins_reachable)
  from quiet_reachable [OF this] run_call_quiet [OF assms] show ?thesis by metis
qed

text \<open>The log of calls made one after the other.\<close>

fun logOf :: "('p, 'o) env \<Rightarrow> modRuleStore \<Rightarrow> (nat \<times> storeCall) list \<Rightarrow> (nat \<times> storeCall \<times> outcome) list" where
  "logOf E s [] = []"
| "logOf E s ((t, c) # cs) = (case atomicCall E s c of (s', out) \<Rightarrow> (t, c, out) # logOf E s' cs)"

lemma replays_logOf: "replays E s log \<Longrightarrow> log = logOf E s (map (\<lambda>(t, c, out). (t, c)) log)"
  by (induction E s log rule: replays.induct) (auto split: prod.splits)

lemma run_calls:
  assumes "swapsInRange sw"
  shows "\<exists>w. lockReachable E sw cl w \<and> idle w \<and> ls_log w = logOf (sortingBy E sw) (NewModRuleStore cl) cs"
proof -
  have "\<exists>w. lockReachable E sw cl w \<and> idle w \<and> map (\<lambda>(t, c, out). (t, c)) (ls_log w) = cs"
  proof (induction cs rule: rev_induct)
    case Nil
    show ?case by (rule exI [of _ emptyStore]) (simp add: lockReachable_def emptyStore_def idle_def)
  next
    case (snoc tc cs)
    obtain t c where tc: "tc = (t, c)" by (cases tc)
    obtain w where w: "lockReachable E sw cl w" "idle w" "map (\<lambda>(t, c, out). (t, c)) (ls_log w) = cs"
      using snoc by blast
    from run_call [OF assms w(1,2), of t c] w(3) show ?case by (auto simp: tc)
  qed
  then obtain w where w: "lockReachable E sw cl w" "idle w" "map (\<lambda>(t, c, out). (t, c)) (ls_log w) = cs" by blast
  from replays_logOf [of "sortingBy E sw" "NewModRuleStore cl" "ls_log w"] reachable_inv [OF w(1) assms] w
  show ?thesis by (auto simp: lockInv_def)
qed

end
