(* ===== verification/SharedStore.thy ===== *)
theory SharedStore imports LockProgress Interleaving begin

text \<open>
  The webhook on the shared store: a goroutine that runs \<open>DetermineRejections\<close> is a sequence of
  query calls of theory \<open>Locking\<close>, each asking for the tier after the one the last answer gave.
  What other goroutines do in between is whatever the lock lets them. The stores its queries
  see are the history that theory \<open>Interleaving\<close> runs the loop against.
\<close>

section \<open>The queries of a goroutine\<close>

type_synonym answers = "(storeQuery \<times> (storeItem list \<times> int16) res) list"

fun answersOf :: "nat \<Rightarrow> (nat \<times> storeCall \<times> outcome) list \<Rightarrow> answers" where
  "answersOf t [] = []"
| "answersOf t ((u, QueryCall q, QueryDone a) # log) = (if u = t then (q, a) # answersOf t log else answersOf t log)"
| "answersOf t (e # log) = answersOf t log"

text \<open>The stores those queries were answered from.\<close>

fun queriesOf :: "('p, 'o) env \<Rightarrow> modRuleStore \<Rightarrow> nat \<Rightarrow> (nat \<times> storeCall \<times> outcome) list \<Rightarrow> (storeQuery \<times> modRuleStore) list" where
  "queriesOf E s t [] = []"
| "queriesOf E s t ((u, c, out) # log) =
     (case c of QueryCall q \<Rightarrow> if u = t then [(q, s)] else [] | _ \<Rightarrow> []) @
     queriesOf E (fst (atomicCall E s c)) t log"

definition answersFrom :: "(storeQuery \<times> modRuleStore) list \<Rightarrow> answers" where
  "answersFrom = map (\<lambda>(q, s). (q, queryResult s q))"

lemma answersFrom_simps [simp]:
  "answersFrom [] = []" "answersFrom ((q, s) # qs) = (q, queryResult s q) # answersFrom qs"
  by (simp_all add: answersFrom_def)

lemma answersOf_queries:
  "replays E s log \<Longrightarrow> answersOf t log = answersFrom (queriesOf E s t log)"
proof (induction E s log rule: replays.induct)
  case (2 E s u c out log)
  then show ?case by (cases c) (auto simp: atomicCall_def queryResult_def answersFrom_simps split: sum.splits prod.splits)
qed (simp add: answersFrom_def)

lemma answersOf_from:
  assumes "swapsInRange sw" and "lockReachable E sw cl w"
  shows "answersOf t (ls_log w) = answersFrom (queriesOf (sortingBy E sw) (NewModRuleStore cl) t (ls_log w))"
  using reachable_inv [OF assms(2,1)] by (auto simp: lockInv_def intro: answersOf_queries)

text \<open>A history through the queries of a goroutine.\<close>

definition historyOf :: "(storeQuery \<times> modRuleStore) list \<Rightarrow> nat \<Rightarrow> modRuleStore" where
  "historyOf qs i = snd (qs ! (if i < length qs then i else 0))"

lemma historyOf_query: "qs \<noteq> [] \<Longrightarrow> \<exists>q. (q, historyOf qs i) \<in> set qs"
  unfolding historyOf_def by (metis length_greater_0_conv nth_mem prod.collapse)

lemma historyOf_nth: "j < length qs \<Longrightarrow> historyOf qs j = snd (qs ! j)"
  by (simp add: historyOf_def)

section \<open>DetermineRejections as a client of the store\<close>

definition rejectQuery :: "string \<Rightarrow> string \<Rightarrow> int16 \<Rightarrow> val \<Rightarrow> storeQuery" where
  "rejectQuery admissionOperation namespace currentExecutionTier jsonv =
     \<lparr>q_admissionOperation = admissionOperation, q_namespace = namespace,
      q_minExecutionTier = inc16 currentExecutionTier, q_modRuleType = ModRuleTypeReject, q_jsonv = jsonv\<rparr>"

text \<open>
  The loop on the answers it gets: \<open>None\<close> when the queries are not the ones it makes, or when it
  has not come to its end with the last of them.
\<close>

fun rejectLoop :: "string \<Rightarrow> string \<Rightarrow> val \<Rightarrow> int16 \<Rightarrow> string list \<Rightarrow> answers \<Rightarrow>
    string list res option" where
  "rejectLoop op ns v cur rejectionMessages [] = None"
| "rejectLoop op ns v cur rejectionMessages ((q, answer) # answers) =
     (if q \<noteq> rejectQuery op ns cur v then None
      else (case answer of
          Inl e \<Rightarrow> if answers = [] then Some (Inl e) else None
        | Inr (matchingModRules, t) \<Rightarrow>
            if t = MaxInt16 then (if answers = [] then Some (Inr rejectionMessages) else None)
            else (case concatM (rejectionMessage ns v) matchingModRules of
                Inl e \<Rightarrow> if answers = [] then Some (Inl e) else None
              | Inr ms \<Rightarrow> rejectLoop op ns v t (rejectionMessages @ ms) answers)))"

lemma rejectLoop_across:
  assumes "rejectLoop op ns v cur ms (answersFrom qs) = Some r"
    and "\<And>j. j < length qs \<Longrightarrow> h (i + j) = snd (qs ! j)"
  shows "rejectTiersAcross h i op ns v cur ms = r"
  using assms
proof (induction qs arbitrary: cur ms i)
  case (Cons qs0 qs)
  obtain q s where qs0: "qs0 = (q, s)" by (cases qs0)
  have here: "h i = s" using Cons.prems(2) [of 0] qs0 by simp
  have rest: "h (Suc i + j) = snd (qs ! j)" if "j < length qs" for j
    using Cons.prems(2) [of "Suc j"] that by simp
  have q: "q = rejectQuery op ns cur v" using Cons.prems(1) qs0 by (simp split: if_splits)
  have query: "getMatchingModRuleStoreItems (h i) op ns (inc16 cur) ModRuleTypeReject v = queryResult s q"
    by (simp add: q here queryResult_def rejectQuery_def)
  show ?case
  proof (cases "queryResult s q")
    case (Inl e)
    then show ?thesis using Cons.prems(1) qs0 q by (subst rejectTiersAcross.simps) (simp add: query split: if_splits)
  next
    case (Inr ans)
    obtain rules t where ans: "ans = (rules, t)" by (cases ans)
    show ?thesis
    proof (cases "t = MaxInt16")
      case True
      then show ?thesis
        using Cons.prems(1) qs0 q Inr ans by (subst rejectTiersAcross.simps) (simp add: query split: if_splits)
    next
      case False
      then show ?thesis
        using Cons.prems(1) qs0 q Inr ans Cons.IH [OF _ rest, of t]
        by (subst rejectTiersAcross.simps) (auto simp: query split: sum.splits if_splits)
    qed
  qed
qed simp

lemma rejectLoop_complete:
  assumes "rejectLoop op ns v MinInt16 [] (answersFrom qs) = Some r"
    and "\<forall>(q, s) \<in> set qs. x \<in> set (candidateRules s op ns) \<and>
      (\<forall>y \<in> set (candidateRules s op ns). isOk (IsMatch y v) \<and> isOk (rejectionMessage ns v y))"
    and "ruleMatches ModRuleTypeReject v x" and "tier x \<noteq> MinInt16" and "tier x \<noteq> MaxInt16"
  shows "\<exists>ms. r = Inr ms \<and> rejectionText ns v x \<in> set ms \<and>
    (\<forall>m \<in> set ms. \<exists>(q, s) \<in> set qs. \<exists>y \<in> set (candidateRules s op ns). ruleMatches ModRuleTypeReject v y \<and> m = rejectionText ns v y)"
proof -
  let ?h = "historyOf qs"
  have ne: "qs \<noteq> []" using assms(1) by (auto simp: answersFrom_simps)
  have across: "rejectTiersAcross ?h 0 op ns v MinInt16 [] = r"
    by (rule rejectLoop_across [OF assms(1)]) (simp add: historyOf_nth)
  have each: "x \<in> set (candidateRules (?h i) op ns) \<and>
      (\<forall>y \<in> set (candidateRules (?h i) op ns). isOk (IsMatch y v) \<and> isOk (rejectionMessage ns v y))" for i
  proof -
    obtain q where "(q, ?h i) \<in> set qs" using historyOf_query [OF ne] by blast
    from bspec [OF assms(2) this] show ?thesis by simp
  qed
  then have "calmHistory ?h op ns v" "\<forall>i. x \<in> set (candidateRules (?h i) op ns)"
    by (simp_all add: calmHistory_def)
  from rejections_under_writes [OF this assms(3-5)] across obtain ms where
      "r = Inr ms" "rejectionText ns v x \<in> set ms"
      "\<forall>m \<in> set ms. \<exists>j. \<exists>y \<in> set (candidateRules (?h j) op ns). ruleMatches ModRuleTypeReject v y \<and> m = rejectionText ns v y"
    by (auto simp: DetermineRejectionsAcross_def)
  moreover have "\<exists>(q, s) \<in> set qs. \<exists>y \<in> set (candidateRules s op ns). ruleMatches ModRuleTypeReject v y \<and> m = rejectionText ns v y"
    if "y \<in> set (candidateRules (?h j) op ns)" "ruleMatches ModRuleTypeReject v y" "m = rejectionText ns v y" for m j y
  proof -
    obtain q where "(q, ?h j) \<in> set qs" using historyOf_query [OF ne] by blast
    then show ?thesis using that by (intro bexI [of _ "(q, ?h j)"]) auto
  qed
  ultimately show ?thesis by blast
qed

text \<open>
  A Reject rule cannot slip through the shared store. Goroutines put, delete and query in
  small steps under the lock; one of them runs \<open>DetermineRejections\<close> to its end. If a rule that
  matches the resource, of neither the lowest nor the highest tier, is a candidate in the
  store at each of its queries (it need not be at the same place, and other rules may come and
  go between two queries), its message is among those returned, and every message returned is
  that of a matching Reject rule the store held at one of the queries, provided no expression or
  template that is met panics.
\<close>

lemma rejections_on_shared_store:
  assumes "swapsInRange sw" and "lockReachable E sw cl w"
    and "rejectLoop op ns v MinInt16 [] (answersOf t (ls_log w)) = Some r"
    and "\<forall>(q, s) \<in> set (queriesOf (sortingBy E sw) (NewModRuleStore cl) t (ls_log w)).
      x \<in> set (candidateRules s op ns) \<and> (\<forall>y \<in> set (candidateRules s op ns). isOk (IsMatch y v) \<and> isOk (rejectionMessage ns v y))"
    and "ruleMatches ModRuleTypeReject v x" and "tier x \<noteq> MinInt16" and "tier x \<noteq> MaxInt16"
  shows "\<exists>ms. r = Inr ms \<and> rejectionText ns v x \<in> set ms \<and>
    (\<forall>m \<in> set ms. \<exists>(q, s) \<in> set (queriesOf (sortingBy E sw) (NewModRuleStore cl) t (ls_log w)).
       \<exists>y \<in> set (candidateRules s op ns). ruleMatches ModRuleTypeReject v y \<and> m = rejectionText ns v y)"
  using rejectLoop_complete [OF assms(3) [unfolded answersOf_from [OF assms(1,2)]] assms(4-7)] .

text \<open>
  A rule is put, a webhook asks twice, and between its queries another goroutine deletes a rule
  that is not there.
\<close>

definition sharedCalls :: "(nat \<times> storeCall) list" where
  "sharedCalls = [(1, PutCall (rejectRule ''a'' ''r'' 3 [kindIs ''Pod''])), (2, QueryCall (rejectQuery ''CREATE'' ''a'' MinInt16 aPod)),
     (1, DeleteCall ''b'' ''x''), (2, QueryCall (rejectQuery ''CREATE'' ''a'' (toInt16 3) aPod))]"

definition sharedStore :: modRuleStore where
  "sharedStore = sampleStore [rejectItem ''a'' ''r'' 3 [kindIs ''Pod'']]"

lemma shared_put:
  "atomicCall (sortingBy sampleEnv insertionSwaps) (NewModRuleStore ''km'') (PutCall (rejectRule ''a'' ''r'' 3 [kindIs ''Pod''])) =
     (sharedStore, PutDone (Inr None))"
  by (simp add: atomicCall_put rejectItem_compiled putUpdated_def putStart_def NewModRuleStore_def rejectRule_fields
      insertionSwaps_def runSwaps_def sharedStore_def sampleStore_def)

lemma shared_delete: "atomicCall E sharedStore (DeleteCall ''b'' ''x'') = (sharedStore, DeleteDone (Inr ()))"
  by (simp add: atomicCall_def Delete_def sharedStore_def sampleStore_def)

lemma shared_candidates: "candidateRules sharedStore ''CREATE'' ''a'' = [rejectItem ''a'' ''r'' 3 [kindIs ''Pod'']]"
  by (simp add: candidateRules_def sharedStore_def reject_eval admits_def)

lemma shared_match: "IsMatch (rejectItem ''a'' ''r'' 3 [kindIs ''Pod'']) aPod = Inr True"
proof -
  have "compiledStore sampleEnv sharedStore"
    by (auto simp: compiledStore_def sharedStore_def rulesOf_sampleStore rejectItem_compiled rejectItem_rule)
  from candidate_IsMatch [OF this, of "rejectItem ''a'' ''r'' 3 [kindIs ''Pod'']" "''CREATE''" "''a''" aPod] shared_candidates
  show ?thesis by (simp add: reject_eval ruleHolds_def selectsSafe_def)
qed

lemma shared_tiers:
  "inc16 MinInt16 \<le> toInt16 3" "\<not> inc16 (toInt16 3) \<le> toInt16 3" "toInt16 3 < MaxInt16" "toInt16 3 \<noteq> MaxInt16" "toInt16 3 \<noteq> MinInt16"
  by (simp_all add: less_eq_int16_def less_int16_def i16_inc16 i16_toInt16 flip: i16_inject)

lemma shared_potential:
  "potentialRules sharedStore ''CREATE'' ''a'' m =
     (if m \<le> toInt16 3 then ([rejectItem ''a'' ''r'' 3 [kindIs ''Pod'']], toInt16 3) else ([], MaxInt16))"
  by (simp add: potentialRules_def sharedStore_def reject_eval processPotentialRule_def Let_def shared_tiers)

lemma shared_queries:
  "queryResult sharedStore (rejectQuery ''CREATE'' ''a'' MinInt16 aPod) = Inr ([rejectItem ''a'' ''r'' 3 [kindIs ''Pod'']], toInt16 3)"
  "queryResult sharedStore (rejectQuery ''CREATE'' ''a'' (toInt16 3) aPod) = Inr ([], MaxInt16)"
  by (simp_all add: queryResult_def rejectQuery_def getMatchingModRuleStoreItems_def shared_potential shared_tiers
      shared_match reject_eval ModRuleTypeReject_def)

lemma query_atomic: "atomicCall E s (QueryCall q) = (s, QueryDone (queryResult s q))"
  by (simp add: atomicCall_def queryResult_def)

lemma shared_log:
  "logOf (sortingBy sampleEnv insertionSwaps) (NewModRuleStore ''km'') sharedCalls =
    [(1, PutCall (rejectRule ''a'' ''r'' 3 [kindIs ''Pod'']), PutDone (Inr None)),
     (2, QueryCall (rejectQuery ''CREATE'' ''a'' MinInt16 aPod), QueryDone (Inr ([rejectItem ''a'' ''r'' 3 [kindIs ''Pod'']], toInt16 3))),
     (1, DeleteCall ''b'' ''x'', DeleteDone (Inr ())),
     (2, QueryCall (rejectQuery ''CREATE'' ''a'' (toInt16 3) aPod), QueryDone (Inr ([], MaxInt16)))]"
  by (simp add: sharedCalls_def shared_put shared_delete query_atomic shared_queries)

lemma rejections_on_shared_store_witness:
  "\<exists>w. lockReachable sampleEnv insertionSwaps ''km'' w \<and>
     (\<exists>ms. rejectLoop ''CREATE'' ''a'' aPod MinInt16 [] (answersOf 2 (ls_log w)) = Some (Inr ms) \<and>
       ''a/r: '' @ [CHR 0x22] @ ''no'' @ [CHR 0x22] \<in> set ms)"
proof -
  let ?x = "rejectItem ''a'' ''r'' 3 [kindIs ''Pod'']" and ?E = "sortingBy sampleEnv insertionSwaps"
  obtain w where w: "lockReachable sampleEnv insertionSwaps ''km'' w"
      "ls_log w = logOf ?E (NewModRuleStore ''km'') sharedCalls"
    using run_calls [OF insertionSwaps_range, of sampleEnv "''km''" sharedCalls] by blast
  have ok: "isOk (rejectionMessage ''a'' aPod ?x)" by (simp add: rejectionMessage_def reject_eval)
  then obtain new where new: "rejectionMessage ''a'' aPod ?x = Inr new" by (auto simp: isOk_iff)
  have loop: "rejectLoop ''CREATE'' ''a'' aPod MinInt16 [] (answersOf 2 (ls_log w)) = Some (Inr (new @ []))"
    by (simp add: w(2) shared_log shared_tiers new)
  have "queriesOf ?E (NewModRuleStore ''km'') 2 (ls_log w) =
      [(rejectQuery ''CREATE'' ''a'' MinInt16 aPod, sharedStore), (rejectQuery ''CREATE'' ''a'' (toInt16 3) aPod, sharedStore)]"
    by (simp add: w(2) shared_log shared_put shared_delete query_atomic)
  moreover have "ruleMatches ModRuleTypeReject aPod ?x" by (simp add: ruleMatches_def shared_match reject_eval ModRuleTypeReject_def)
  ultimately have "rejectionText ''a'' aPod ?x \<in> set (new @ [])"
    using rejections_on_shared_store [OF insertionSwaps_range w(1) loop, of ?x] ok
    by (simp add: shared_candidates shared_match shared_tiers reject_eval)
  then show ?thesis using w(1) loop by (auto simp: rejectItem_text)
qed

end
