(* ===== verification/SharedDragnet.thy ===== *)
theory SharedDragnet imports SharedStore WebhookProps begin

text \<open>
  The dragnet on the shared store. A goroutine that handles an admission request runs
  \<open>CalculatePatch\<close> and then \<open>DetermineRejections\<close>, both as sequences of query calls of theory
  \<open>Locking\<close>: the lock is free between two of them, so the rules may change under the request.
  The handler is written here as a function of the answers its queries got.
\<close>

section \<open>CalculatePatch as a client of the store\<close>

definition patchQuery :: "string \<Rightarrow> string \<Rightarrow> int16 \<Rightarrow> val \<Rightarrow> storeQuery" where
  "patchQuery admissionOperation namespace currentExecutionTier jsonv =
     \<lparr>q_admissionOperation = admissionOperation, q_namespace = namespace,
      q_minExecutionTier = inc16 currentExecutionTier, q_modRuleType = ModRuleTypePatch, q_jsonv = jsonv\<rparr>"

text \<open>
  The loop on the answers it gets, with the answers it leaves: \<open>None\<close> when a query is not the one
  it makes, or when it needs another answer.
\<close>

fun patchLoop :: "('p, 'o) env \<Rightarrow> string \<Rightarrow> string \<Rightarrow> int16 \<Rightarrow> patchState \<Rightarrow> answers \<Rightarrow> (patchState res \<times> answers) option" where
  "patchLoop E op ns cur st [] = None"
| "patchLoop E op ns cur st ((q, answer) # answers) =
     (if q \<noteq> patchQuery op ns cur (jsonDoc st) then None
      else (case answer of
          Inl e \<Rightarrow> Some (Inl e, answers)
        | Inr (matchingModRules, t) \<Rightarrow>
            if t = MaxInt16 then Some (Inr st, answers)
            else (case foldM (applyRule E ns) st matchingModRules of
                Inl e \<Rightarrow> Some (Inl e, answers)
              | Inr st' \<Rightarrow> patchLoop E op ns t st' answers)))"

definition patchCall :: "('p, 'o) env \<Rightarrow> string \<Rightarrow> string \<Rightarrow> string \<Rightarrow> answers \<Rightarrow> ((val \<times> 'o list) res \<times> answers) option" where
  "patchCall E op ns originalJSON answers =
     (case jsonUnmarshal E (Some originalJSON) of
        Inl e \<Rightarrow> Some (Inl e, answers)
      | Inr jsonv \<Rightarrow> map_option (\<lambda>(r, rest). (bindr r (patchEpilogue E originalJSON), rest))
          (patchLoop E op ns MinInt16 (startState originalJSON jsonv) answers))"

text \<open>The same against a history of the store, as in theory \<open>Interleaving\<close>.\<close>

definition CalculatePatchAcross ::
    "('p, 'o) env \<Rightarrow> (nat \<Rightarrow> modRuleStore) \<Rightarrow> string \<Rightarrow> string \<Rightarrow> string \<Rightarrow> (val \<times> 'o list) res" where
  "CalculatePatchAcross E h op ns originalJSON =
     bindr (jsonUnmarshal E (Some originalJSON)) (\<lambda>jsonv.
     bindr (patchTiersAcross E h 0 op ns MinInt16 (startState originalJSON jsonv)) (patchEpilogue E originalJSON))"

lemma CalculatePatchAcross_const: "CalculatePatchAcross E (\<lambda>_. s) op ns orig = CalculatePatch E s op ns orig"
  by (simp add: CalculatePatchAcross_def CalculatePatch_def patchTiersAcross_const)

lemma patchLoop_across:
  assumes "patchLoop E op ns cur st (answersFrom qs) = Some (r, rest)"
    and "\<And>j. j < length qs \<Longrightarrow> h (i + j) = snd (qs ! j)"
  shows "patchTiersAcross E h i op ns cur st = r \<and> (\<exists>k. rest = answersFrom (drop k qs))"
  using assms
proof (induction qs arbitrary: cur st i)
  case (Cons qs0 qs)
  obtain q s where qs0: "qs0 = (q, s)" by (cases qs0)
  have here: "h i = s" using Cons.prems(2) [of 0] qs0 by simp
  have later: "h (Suc i + j) = snd (qs ! j)" if "j < length qs" for j
    using Cons.prems(2) [of "Suc j"] that by simp
  have q: "q = patchQuery op ns cur (jsonDoc st)"
    using Cons.prems(1) qs0 by (simp split: if_splits)
  have query: "getMatchingModRuleStoreItems (h i) op ns (inc16 cur) ModRuleTypePatch (jsonDoc st) = queryResult s q"
    by (simp add: q here queryResult_def patchQuery_def)
  have here_on: "\<exists>k. rest = answersFrom (drop k (qs0 # qs))" if "rest = answersFrom qs \<or> (\<exists>k. rest = answersFrom (drop k qs))"
    using that by (metis drop0 drop_Suc_Cons)
  show ?case
  proof (cases "queryResult s q")
    case (Inl e)
    then show ?thesis
      using Cons.prems(1) qs0 q here_on by (subst patchTiersAcross.simps) (simp add: query)
  next
    case (Inr ans)
    obtain rules t where ans: "ans = (rules, t)" by (cases ans)
    show ?thesis
    proof (cases "t = MaxInt16")
      case True
      then show ?thesis
        using Cons.prems(1) qs0 q Inr ans here_on by (subst patchTiersAcross.simps) (simp add: query)
    next
      case going: False
      show ?thesis
      proof (cases "foldM (applyRule E ns) st rules")
        case (Inl e)
        then have "r = Inl e" "rest = answersFrom qs"
          using Cons.prems(1) qs0 q \<open>queryResult s q = Inr ans\<close> ans going by auto
        then show ?thesis
          using \<open>queryResult s q = Inr ans\<close> ans going Inl here_on by (subst patchTiersAcross.simps) (simp add: query)
      next
        case (Inr st')
        then have "patchLoop E op ns t st' (answersFrom qs) = Some (r, rest)"
          using Cons.prems(1) qs0 q \<open>queryResult s q = Inr ans\<close> ans going by simp
        from Cons.IH [OF this later] here_on show ?thesis
          using \<open>queryResult s q = Inr ans\<close> ans going Inr by (subst patchTiersAcross.simps) (simp add: query)
      qed
    qed
  qed
qed simp

lemma patchCall_across:
  assumes "patchCall E op ns orig (answersFrom qs) = Some (r, rest)" and "\<And>j. j < length qs \<Longrightarrow> h j = snd (qs ! j)"
  shows "CalculatePatchAcross E h op ns orig = r \<and> (\<exists>k. rest = answersFrom (drop k qs))"
proof (cases "jsonUnmarshal E (Some orig)")
  case (Inl e)
  then show ?thesis using assms(1) by (auto simp: patchCall_def CalculatePatchAcross_def intro: exI [of _ 0])
next
  case (Inr v)
  then obtain r' where loop: "patchLoop E op ns MinInt16 (startState orig v) (answersFrom qs) = Some (r', rest)"
    "r = bindr r' (patchEpilogue E orig)"
    using assms(1) by (auto simp: patchCall_def)
  from patchLoop_across [OF loop(1), of h 0] assms(2) loop(2) Inr show ?thesis
    by (simp add: CalculatePatchAcross_def)
qed

lemma patchCall_same:
  assumes "patchCall E op ns orig (answersFrom qs) = Some (r, rest)" and "\<forall>(q, s') \<in> set qs. s' = s"
  shows "r = CalculatePatch E s op ns orig" "\<exists>k. rest = answersFrom (drop k qs)"
proof -
  have "s = snd (qs ! j)" if "j < length qs" for j
    using assms(2) nth_mem [OF that] by (auto simp: case_prod_beta)
  from patchCall_across [OF assms(1) this]
  show "r = CalculatePatch E s op ns orig" "\<exists>k. rest = answersFrom (drop k qs)"
    by (simp_all add: CalculatePatchAcross_const)
qed

text \<open>
  C12: patching on the shared store. A goroutine runs \<open>CalculatePatch\<close> while others put, delete
  and query in small steps under the lock. If its queries have all seen one store, it returns
  what \<open>CalculatePatch\<close> returns on that store, errors and panics included. Whatever they have
  seen, when it returns a document the rules were applied tier by tier in strictly ascending order,
  each tier from the store of one query and on the document the tiers below produced, and the
  tier of a rule that was a candidate at every query was not skipped.
\<close>

theorem patches_on_shared_store:
  assumes "swapsInRange sw" and "lockReachable E sw cl w"
    and "patchCall E op ns orig (answersOf t (ls_log w)) = Some (r, rest)"
    and "qs = queriesOf (sortingBy E sw) (NewModRuleStore cl) t (ls_log w)"
  shows "(\<forall>s. (\<forall>(q, s') \<in> set qs. s' = s) \<longrightarrow> r = CalculatePatch E s op ns orig) \<and>
    (\<forall>v ops. r = Inr (v, ops) \<longrightarrow> (\<exists>doc st ts.
       jsonUnmarshal E (Some orig) = Inr doc \<and> patchEpilogue E orig st = Inr (v, ops) \<and>
       sorted_wrt (<) ts \<and> (\<forall>t \<in> set ts. MinInt16 < t \<and> t < MaxInt16) \<and>
       patchAlong E (historyOf qs) 0 op ns (startState orig doc) ts = Inr st \<and>
       (\<forall>x. (\<forall>(q, s) \<in> set qs. x \<in> set (candidateRules s op ns)) \<longrightarrow> MinInt16 < tier x \<longrightarrow> tier x < MaxInt16 \<longrightarrow> tier x \<in> set ts)))"
proof (intro conjI allI impI)
  have call: "patchCall E op ns orig (answersFrom qs) = Some (r, rest)"
    using assms(3) unfolding answersOf_from [OF assms(1,2)] assms(4) .
  show "r = CalculatePatch E s op ns orig" if "\<forall>(q, s') \<in> set qs. s' = s" for s
    by (rule patchCall_same(1) [OF call that])
  fix v ops assume "r = Inr (v, ops)"
  then have "CalculatePatchAcross E (historyOf qs) op ns orig = Inr (v, ops)"
    using patchCall_across [OF call, of "historyOf qs"] by (simp add: historyOf_nth)
  then obtain doc st where doc: "jsonUnmarshal E (Some orig) = Inr doc" "patchEpilogue E orig st = Inr (v, ops)"
    and run: "patchTiersAcross E (historyOf qs) 0 op ns MinInt16 (startState orig doc) = Inr st"
    by (auto simp: CalculatePatchAcross_def bindr_Inr_iff)
  have "qs \<noteq> []" using call doc(1) by (auto simp: patchCall_def)
  then have each: "x \<in> set (candidateRules (historyOf qs k) op ns)" if "\<forall>(q, s) \<in> set qs. x \<in> set (candidateRules s op ns)" for x k
    using that historyOf_query [of qs k] by auto
  show "\<exists>doc st ts. jsonUnmarshal E (Some orig) = Inr doc \<and> patchEpilogue E orig st = Inr (v, ops) \<and>
      sorted_wrt (<) ts \<and> (\<forall>t \<in> set ts. MinInt16 < t \<and> t < MaxInt16) \<and>
      patchAlong E (historyOf qs) 0 op ns (startState orig doc) ts = Inr st \<and>
      (\<forall>x. (\<forall>(q, s) \<in> set qs. x \<in> set (candidateRules s op ns)) \<longrightarrow> MinInt16 < tier x \<longrightarrow> tier x < MaxInt16 \<longrightarrow> tier x \<in> set ts)"
    using doc patches_under_writes [OF run] each by blast
qed

section \<open>The handler as a client of the store\<close>

text \<open>An end that leaves no answer over.\<close>

definition ended :: "answers \<Rightarrow> 'a \<Rightarrow> 'a option" where
  "ended answers r = (if answers = [] then Some r else None)"

definition dragnetCall :: "('p, 'o) env \<Rightarrow> k8s \<Rightarrow> admissionRequest \<Rightarrow> answers \<Rightarrow> 'o response res option" where
  "dragnetCall E K req answers =
     (let op = req_Operation req; storeNamespace = requestNamespace req in
      case injectSyntheticRefs K (requestObject req) storeNamespace of
        Inl (GoErr e) \<Rightarrow> ended answers (Inr (Allowed ''failed to inject syntheticRefs into object manifest''))
      | Inl (GoPanic p) \<Rightarrow> ended answers (Inl (GoPanic p))
      | Inr obj \<Rightarrow> Option.bind (patchCall E op storeNamespace obj answers) (\<lambda>(r, rest). case r of
            Inl (GoErr e) \<Rightarrow> ended rest (Inr (Allowed ''failed to calculate patch''))
          | Inl (GoPanic p) \<Rightarrow> ended rest (Inl (GoPanic p))
          | Inr (patchedJSON, patch) \<Rightarrow>
              map_option (\<lambda>r. bindr r (\<lambda>rejections. Inr (dragnetVerdict rejections patch)))
                (rejectLoop op storeNamespace patchedJSON MinInt16 [] rest)))"

lemma rejectLoop_same:
  assumes "rejectLoop op ns v MinInt16 [] (answersFrom qs) = Some r" and "\<forall>(q, s') \<in> set qs. s' = s"
  shows "r = DetermineRejections s op ns v"
proof -
  have "s = snd (qs ! j)" if "j < length qs" for j
    using assms(2) nth_mem [OF that] by (auto simp: case_prod_beta)
  from rejectLoop_across [OF assms(1) this] show ?thesis
    by (simp add: rejectTiersAcross_const DetermineRejections_def)
qed

lemma dragnet_same:
  assumes "swapsInRange sw" and "lockReachable E sw cl w"
    and "dragnetCall E K req (answersOf t (ls_log w)) = Some resp"
    and "\<forall>(q, s') \<in> set (queriesOf (sortingBy E sw) (NewModRuleStore cl) t (ls_log w)). s' = s"
  shows "resp = DragnetHandle E K s req"
proof -
  define qs where "qs = queriesOf (sortingBy E sw) (NewModRuleStore cl) t (ls_log w)"
  have call: "dragnetCall E K req (answersFrom qs) = Some resp"
    using assms(3) unfolding answersOf_from [OF assms(1,2)] qs_def .
  have same: "\<forall>(q, s') \<in> set qs. s' = s" using assms(4) unfolding qs_def .
  show ?thesis
  proof (cases "injectSyntheticRefs K (requestObject req) (requestNamespace req)")
    case (Inl e)
    then show ?thesis
      using call by (cases e) (auto simp: dragnetCall_def DragnetHandle_def Let_def ended_def split: if_splits)
  next
    case (Inr obj)
    then obtain r rest where patch: "patchCall E (req_Operation req) (requestNamespace req) obj (answersFrom qs) = Some (r, rest)"
      using call by (auto simp: dragnetCall_def Let_def bind_eq_Some_conv)
    from patchCall_same [OF this same] obtain k where
      k: "r = CalculatePatch E s (req_Operation req) (requestNamespace req) obj" "rest = answersFrom (drop k qs)"
      by blast
    show ?thesis
    proof (cases r)
      case (Inl e)
      then show ?thesis
        using call \<open>injectSyntheticRefs _ _ _ = Inr obj\<close> patch k(1)
        by (cases e) (auto simp: dragnetCall_def DragnetHandle_def Let_def ended_def split: if_splits)
    next
      case (Inr vo)
      obtain v ops where vo: "vo = (v, ops)" by (cases vo)
      obtain r' where r': "rejectLoop (req_Operation req) (requestNamespace req) v MinInt16 [] (answersFrom (drop k qs)) = Some r'"
        "resp = bindr r' (\<lambda>rejections. Inr (dragnetVerdict rejections ops))"
        using call \<open>injectSyntheticRefs _ _ _ = Inr obj\<close> patch Inr vo k(2) by (auto simp: dragnetCall_def Let_def)
      have "r' = DetermineRejections s (req_Operation req) (requestNamespace req) v"
        using same in_set_dropD by (intro rejectLoop_same [OF r'(1)]) fast
      then show ?thesis
        using r'(2) \<open>injectSyntheticRefs _ _ _ = Inr obj\<close> k(1) [symmetric] Inr vo by (simp add: DragnetHandle_def Let_def)
    qed
  qed
qed

text \<open>
  C14: a request that no write disturbs is handled in one step. If the queries of a goroutine that
  handles a request have all seen one store, whatever else other goroutines were doing in
  between, its response is the one \<open>DragnetHandle\<close> gives on that store.
\<close>

theorem undisturbed_dragnet:
  assumes "swapsInRange sw" and "lockReachable E sw cl w"
    and "dragnetCall E K req (answersOf t (ls_log w)) = Some resp"
    and "\<forall>(q, s') \<in> set (queriesOf (sortingBy E sw) (NewModRuleStore cl) t (ls_log w)). s' = s"
  shows "resp = DragnetHandle E K s req"
  using dragnet_same [OF assms] .

text \<open>
  C6: no interleaving lets a request past a standing Reject rule. Goroutines put, delete and query
  in small steps under the lock while one of them handles an admission request. If the references
  are injected, the patch is calculated, and a Reject rule of a tier between the extreme ones
  matches the patched document and is a candidate in the store at every query, the request is
  denied with a message that names the rule, and with no text but that of matching Reject rules
  the store held at some query, provided no expression or template that is met panics.
\<close>

theorem dragnet_on_shared_store:
  assumes "swapsInRange sw" and "lockReachable E sw cl w"
    and "dragnetCall E K req (answersOf t (ls_log w)) = Some resp"
    and "op = req_Operation req" and "ns = requestNamespace req"
    and "injectSyntheticRefs K (requestObject req) ns = Inr obj"
    and "patchCall E op ns obj (answersOf t (ls_log w)) = Some (Inr (v, ops), rest)"
    and "qs = queriesOf (sortingBy E sw) (NewModRuleStore cl) t (ls_log w)"
    and "\<forall>(q, s) \<in> set qs. x \<in> set (candidateRules s op ns) \<and>
      (\<forall>y \<in> set (candidateRules s op ns). isOk (IsMatch y v) \<and> isOk (rejectionMessage ns v y))"
    and "ruleMatches ModRuleTypeReject v x" and "tier x \<noteq> MinInt16" and "tier x \<noteq> MaxInt16"
  shows "\<exists>ms. resp = Inr (Denied (''operation rejected by the following ModRule(s): '' @ strJoin ms '','')) \<and>
    rejectionText ns v x \<in> set ms \<and>
    (\<forall>m \<in> set ms. \<exists>(q, s) \<in> set qs. \<exists>y \<in> set (candidateRules s op ns). ruleMatches ModRuleTypeReject v y \<and> m = rejectionText ns v y)"
proof -
  have from_qs: "answersOf t (ls_log w) = answersFrom qs"
    using answersOf_from [OF assms(1,2)] assms(8) by simp
  from patchCall_across [OF assms(7) [unfolded from_qs], of "historyOf qs"] obtain k where
    k: "rest = answersFrom (drop k qs)" by (auto simp: historyOf_nth)
  obtain r where r: "rejectLoop op ns v MinInt16 [] (answersFrom (drop k qs)) = Some r"
    "resp = bindr r (\<lambda>rejections. Inr (dragnetVerdict rejections ops))"
    using assms(3,6,7) k by (auto simp: dragnetCall_def Let_def assms(4,5))
  have "\<forall>(q, s) \<in> set (drop k qs). x \<in> set (candidateRules s op ns) \<and>
      (\<forall>y \<in> set (candidateRules s op ns). isOk (IsMatch y v) \<and> isOk (rejectionMessage ns v y))"
    using assms(9) set_drop_subset by fast
  from rejectLoop_complete [OF r(1) this assms(10-12)] obtain ms where
    ms: "r = Inr ms" "rejectionText ns v x \<in> set ms"
      "\<forall>m \<in> set ms. \<exists>(q, s) \<in> set (drop k qs). \<exists>y \<in> set (candidateRules s op ns). ruleMatches ModRuleTypeReject v y \<and> m = rejectionText ns v y"
    by blast
  have "resp = Inr (Denied (''operation rejected by the following ModRule(s): '' @ strJoin ms '',''))"
    using r(2) ms(1,2) by (auto simp: dragnetVerdict_def)
  moreover have "\<forall>m \<in> set ms. \<exists>(q, s) \<in> set qs. \<exists>y \<in> set (candidateRules s op ns). ruleMatches ModRuleTypeReject v y \<and> m = rejectionText ns v y"
    using ms(3) in_set_dropD by fast
  ultimately show ?thesis using ms(2) by blast
qed

section \<open>A request between two writes\<close>

text \<open>
  A rule is put; a request is handled, and between the queries of its patch loop and those of
  its rejections another goroutine deletes a rule that is not there.
\<close>

definition dragnetCalls :: "(nat \<times> storeCall) list" where
  "dragnetCalls = [(1, PutCall (rejectRule ''a'' ''r'' 3 [kindIs ''Pod''])),
     (2, QueryCall (patchQuery ''CREATE'' ''a'' MinInt16 aPod)), (2, QueryCall (patchQuery ''CREATE'' ''a'' (toInt16 3) aPod)),
     (1, DeleteCall ''b'' ''x''), (3, StatsCall),
     (2, QueryCall (rejectQuery ''CREATE'' ''a'' MinInt16 aPod)), (2, QueryCall (rejectQuery ''CREATE'' ''a'' (toInt16 3) aPod))]"

lemma shared_patch_queries:
  "queryResult sharedStore (patchQuery ''CREATE'' ''a'' MinInt16 aPod) = Inr ([], toInt16 3)"
  "queryResult sharedStore (patchQuery ''CREATE'' ''a'' (toInt16 3) aPod) = Inr ([], MaxInt16)"
  by (simp_all add: queryResult_def patchQuery_def getMatchingModRuleStoreItems_def shared_potential shared_tiers
      shared_match reject_eval ModRuleTypePatch_def)

lemma stats_atomic: "atomicCall E s StatsCall = (s, StatsDone (GetStats s))"
  by (simp add: atomicCall_def)

definition dragnetQueries :: "(storeQuery \<times> modRuleStore) list" where
  "dragnetQueries = [(patchQuery ''CREATE'' ''a'' MinInt16 aPod, sharedStore), (patchQuery ''CREATE'' ''a'' (toInt16 3) aPod, sharedStore),
     (rejectQuery ''CREATE'' ''a'' MinInt16 aPod, sharedStore), (rejectQuery ''CREATE'' ''a'' (toInt16 3) aPod, sharedStore)]"

lemma dragnetCalls_run:
  "\<exists>w. lockReachable sampleEnv insertionSwaps ''km'' w \<and> answersOf 2 (ls_log w) = answersFrom dragnetQueries \<and>
     queriesOf (sortingBy sampleEnv insertionSwaps) (NewModRuleStore ''km'') 2 (ls_log w) = dragnetQueries"
proof -
  let ?E = "sortingBy sampleEnv insertionSwaps"
  obtain w where w: "lockReachable sampleEnv insertionSwaps ''km'' w"
      "ls_log w = logOf ?E (NewModRuleStore ''km'') dragnetCalls"
    using run_calls [OF insertionSwaps_range, of sampleEnv "''km''" dragnetCalls] by blast
  have "queriesOf ?E (NewModRuleStore ''km'') 2 (ls_log w) = dragnetQueries"
    by (simp add: w(2) dragnetCalls_def dragnetQueries_def shared_put shared_delete query_atomic stats_atomic)
  with answersOf_from [OF insertionSwaps_range w(1)] w(1) show ?thesis by auto
qed

lemma idle_epilogue: "patchEpilogue sampleEnv ''Pod'' (startState ''Pod'' aPod) = Inr (aPod, [])"
  by (simp add: patchEpilogue_def startState_def aPod_not_applied) (simp add: sampleEnv_def sampleCreatePatch_def)

lemma dragnet_patch:
  "patchCall sampleEnv ''CREATE'' ''a'' ''Pod'' (answersFrom dragnetQueries) = Some (Inr (aPod, []), answersFrom (drop 2 dragnetQueries))"
proof -
  have doc: "jsonDoc (startState ''Pod'' aPod) = aPod" by (simp add: startState_def)
  have "MaxInt16 \<noteq> toInt16 3" using shared_tiers(4) by simp
  then show ?thesis
    by (simp add: patchCall_def sample_decodes_pod dragnetQueries_def shared_patch_queries doc idle_epilogue shared_tiers)
qed

lemma dragnet_response:
  "dragnetCall sampleEnv sampleK8s createPod (answersFrom dragnetQueries) =
     Some (Inr (dragnetVerdict [rejectionText ''a'' aPod (rejectItem ''a'' ''r'' 3 [kindIs ''Pod''])] []))"
proof -
  let ?x = "rejectItem ''a'' ''r'' 3 [kindIs ''Pod'']"
  have "isOk (rejectionMessage ''a'' aPod ?x)" by (simp add: rejectionMessage_def reject_eval)
  then have "rejectionMessage ''a'' aPod ?x = Inr [rejectionText ''a'' aPod ?x]" by (rule rejectionMessage_ok)
  then have "rejectLoop ''CREATE'' ''a'' aPod MinInt16 [] (answersFrom (drop 2 dragnetQueries)) = Some (Inr [rejectionText ''a'' aPod ?x])"
    by (simp add: dragnetQueries_def shared_queries shared_tiers)
  then show ?thesis
    using createPod_injected by (simp add: dragnetCall_def Let_def createPod_fields dragnet_patch)
qed

lemma shared_calm:
  "\<forall>(q, s) \<in> set dragnetQueries. rejectItem ''a'' ''r'' 3 [kindIs ''Pod''] \<in> set (candidateRules s ''CREATE'' ''a'') \<and>
     (\<forall>y \<in> set (candidateRules s ''CREATE'' ''a''). isOk (IsMatch y aPod) \<and> isOk (rejectionMessage ''a'' aPod y))"
  by (simp add: dragnetQueries_def shared_candidates shared_match) (simp add: rejectionMessage_def reject_eval)

lemma patches_on_shared_store_witness:
  "\<exists>w st ts. lockReachable sampleEnv insertionSwaps ''km'' w \<and>
     patchCall sampleEnv ''CREATE'' ''a'' ''Pod'' (answersOf 2 (ls_log w)) = Some (Inr (aPod, []), answersFrom (drop 2 dragnetQueries)) \<and>
     patchAlong sampleEnv (historyOf dragnetQueries) 0 ''CREATE'' ''a'' (startState ''Pod'' aPod) ts = Inr st \<and> toInt16 3 \<in> set ts"
proof -
  obtain w where w: "lockReachable sampleEnv insertionSwaps ''km'' w" "answersOf 2 (ls_log w) = answersFrom dragnetQueries"
      "queriesOf (sortingBy sampleEnv insertionSwaps) (NewModRuleStore ''km'') 2 (ls_log w) = dragnetQueries"
    using dragnetCalls_run by blast
  from patches_on_shared_store [OF insertionSwaps_range w(1) _ w(3) [symmetric], of "''CREATE''" "''a''" "''Pod''"]
  obtain doc st ts where "jsonUnmarshal sampleEnv (Some ''Pod'') = Inr doc"
      "patchAlong sampleEnv (historyOf dragnetQueries) 0 ''CREATE'' ''a'' (startState ''Pod'' doc) ts = Inr st"
      "\<forall>x. (\<forall>(q, s) \<in> set dragnetQueries. x \<in> set (candidateRules s ''CREATE'' ''a'')) \<longrightarrow>
         MinInt16 < tier x \<longrightarrow> tier x < MaxInt16 \<longrightarrow> tier x \<in> set ts"
    using dragnet_patch w(2) by fastforce
  moreover have "MinInt16 < toInt16 3" "toInt16 3 < MaxInt16" using shared_tiers MinInt16_less by blast+
  ultimately have "jsonUnmarshal sampleEnv (Some ''Pod'') = Inr doc"
      "patchAlong sampleEnv (historyOf dragnetQueries) 0 ''CREATE'' ''a'' (startState ''Pod'' doc) ts = Inr st" "toInt16 3 \<in> set ts"
    using shared_calm by (auto dest: spec [of _ "rejectItem ''a'' ''r'' 3 [kindIs ''Pod'']"] simp: reject_eval)
  then show ?thesis
    using sample_decodes_pod by (intro exI [of _ w] exI [of _ st] exI [of _ ts]) (simp add: w dragnet_patch)
qed

lemma undisturbed_dragnet_witness:
  "\<exists>msg. DragnetHandle sampleEnv sampleK8s sharedStore createPod = Inr (Denied msg)"
proof -
  obtain w where w: "lockReachable sampleEnv insertionSwaps ''km'' w" "answersOf 2 (ls_log w) = answersFrom dragnetQueries"
      "queriesOf (sortingBy sampleEnv insertionSwaps) (NewModRuleStore ''km'') 2 (ls_log w) = dragnetQueries"
    using dragnetCalls_run by blast
  have "\<forall>(q, s) \<in> set dragnetQueries. s = sharedStore" by (simp add: dragnetQueries_def)
  from undisturbed_dragnet [where t = 2, OF insertionSwaps_range w(1), unfolded w(2,3), OF dragnet_response this, symmetric] show ?thesis
    by (simp add: dragnetVerdict_def)
qed

lemma dragnet_on_shared_store_witness:
  "\<exists>w ms. lockReachable sampleEnv insertionSwaps ''km'' w \<and>
     dragnetCall sampleEnv sampleK8s createPod (answersOf 2 (ls_log w)) =
       Some (Inr (Denied (''operation rejected by the following ModRule(s): '' @ strJoin ms '',''))) \<and>
     ''a/r: '' @ [CHR 0x22] @ ''no'' @ [CHR 0x22] \<in> set ms"
proof -
  let ?x = "rejectItem ''a'' ''r'' 3 [kindIs ''Pod'']"
  obtain w where w: "lockReachable sampleEnv insertionSwaps ''km'' w" "answersOf 2 (ls_log w) = answersFrom dragnetQueries"
      "queriesOf (sortingBy sampleEnv insertionSwaps) (NewModRuleStore ''km'') 2 (ls_log w) = dragnetQueries"
    using dragnetCalls_run by blast
  have match: "ruleMatches ModRuleTypeReject aPod ?x" "tier ?x \<noteq> MinInt16" "tier ?x \<noteq> MaxInt16"
    by (simp_all add: ruleMatches_def shared_match shared_tiers reject_eval ModRuleTypeReject_def)
  from dragnet_on_shared_store [where t = 2, OF insertionSwaps_range w(1), unfolded w(2,3), OF dragnet_response
      createPod_fields [symmetric] createPod_injected [unfolded createPod_fields] dragnet_patch refl shared_calm match]
  obtain ms where "Inr (dragnetVerdict [rejectionText ''a'' aPod ?x] []) =
      (Inr (Denied (''operation rejected by the following ModRule(s): '' @ strJoin ms '','')) :: string response res)"
      "rejectionText ''a'' aPod ?x \<in> set ms"
    by blast
  moreover have "rejectionText ''a'' aPod ?x = ''a/r: '' @ [CHR 0x22] @ ''no'' @ [CHR 0x22]" by (simp add: rejectItem_text)
  ultimately show ?thesis
    using dragnet_response w(1,2) by (intro exI [of _ w] exI [of _ ms]) (simp only: simp_thms)
qed

end
