(* ===== verification/DragnetEnds.thy ===== *)
theory DragnetEnds imports SharedDragnet begin

text \<open>
  The handler comes to its end on a store that changes under it: whatever its queries are
  answered from, it has its response after a number of them that is bounded by the width of the
  tiers.
\<close>

section \<open>Queries along a history\<close>

fun along :: "(nat \<Rightarrow> modRuleStore) \<Rightarrow> nat \<Rightarrow> (storeQuery \<times> modRuleStore) list \<Rightarrow> bool" where
  "along h i [] \<longleftrightarrow> True"
| "along h i ((q, s) # qs) \<longleftrightarrow> s = h i \<and> along h (Suc i) qs"

lemma along_append: "along h i (qs @ qs') \<longleftrightarrow> along h i qs \<and> along h (i + length qs) qs'"
  by (induction h i qs rule: along.induct) simp_all

text \<open>The loop has this many queries left at most.\<close>

definition queriesLeft :: "int16 \<Rightarrow> nat" where
  "queriesLeft cur = Suc (nat (32768 - i16 (inc16 cur)))"

lemma queriesLeft_less:
  "getMatchingModRuleStoreItems s op ns (inc16 cur) ty v = Inr (rs, t) \<Longrightarrow> t \<noteq> MaxInt16 \<Longrightarrow> queriesLeft t < queriesLeft cur"
  using tier_progress by (simp add: queriesLeft_def)

lemma queriesLeft_start: "queriesLeft MinInt16 = 65536"
  by (simp add: queriesLeft_def i16_inc16)

section \<open>Both loops end\<close>

lemma rejectLoop_ends:
  "\<exists>qs r. along h i qs \<and> length qs \<le> queriesLeft cur \<and> rejectLoop op ns v cur ms (answersFrom qs) = Some r"
proof (induction "queriesLeft cur" arbitrary: cur i ms rule: less_induct)
  case less
  let ?q = "rejectQuery op ns cur v"
  have query: "queryResult (h i) ?q = getMatchingModRuleStoreItems (h i) op ns (inc16 cur) ModRuleTypeReject v"
    by (simp add: queryResult_def rejectQuery_def)
  have one: ?case if "rejectLoop op ns v cur ms [(?q, queryResult (h i) ?q)] = Some r" for r
    using that by (intro exI [of _ "[(?q, h i)]"] exI [of _ r]) (simp add: queriesLeft_def)
  show ?case
  proof (cases "queryResult (h i) ?q")
    case (Inl e)
    then show ?thesis using one by simp
  next
    case (Inr ans)
    obtain rules t where ans: "ans = (rules, t)" by (rule prod.exhaust)
    show ?thesis
    proof (cases "t = MaxInt16 \<or> \<not> isOk (concatM (rejectionMessage ns v) rules)")
      case True
      then consider "t = MaxInt16" | e where "t \<noteq> MaxInt16" "concatM (rejectionMessage ns v) rules = Inl e"
        by (cases "concatM (rejectionMessage ns v) rules") auto
      then show ?thesis
      proof cases
        case 1
        then show ?thesis using one [of "Inr ms"] Inr ans by simp
      next
        case (2 e)
        then show ?thesis using one [of "Inl e"] Inr ans by simp
      qed
    next
      case False
      then obtain ms' where ms': "concatM (rejectionMessage ns v) rules = Inr ms'" by (auto simp: isOk_iff)
      have "queriesLeft t < queriesLeft cur" using queriesLeft_less Inr ans query False by metis
      from less [OF this, of "Suc i" "ms @ ms'"] obtain qs r where
        "along h (Suc i) qs" "length qs \<le> queriesLeft t" "rejectLoop op ns v t (ms @ ms') (answersFrom qs) = Some r" by blast
      then show ?thesis
        using Inr ans ms' False \<open>queriesLeft t < queriesLeft cur\<close>
        by (intro exI [of _ "(?q, h i) # qs"] exI [of _ r]) simp
    qed
  qed
qed

lemma patchLoop_ends:
  "\<exists>qs r. along h i qs \<and> length qs \<le> queriesLeft cur \<and> (\<forall>rest. patchLoop E op ns cur st (answersFrom qs @ rest) = Some (r, rest))"
proof (induction "queriesLeft cur" arbitrary: cur i st rule: less_induct)
  case less
  let ?q = "patchQuery op ns cur (jsonDoc st)"
  have query: "queryResult (h i) ?q = getMatchingModRuleStoreItems (h i) op ns (inc16 cur) ModRuleTypePatch (jsonDoc st)"
    by (simp add: queryResult_def patchQuery_def)
  have one: ?case if "\<And>rest. patchLoop E op ns cur st ((?q, queryResult (h i) ?q) # rest) = Some (r, rest)" for r
    using that by (intro exI [of _ "[(?q, h i)]"] exI [of _ r]) (simp add: queriesLeft_def)
  show ?case
  proof (cases "queryResult (h i) ?q")
    case (Inl e)
    then show ?thesis using one by simp
  next
    case (Inr ans)
    obtain rules t where ans: "ans = (rules, t)" by (rule prod.exhaust)
    show ?thesis
    proof (cases "t = MaxInt16 \<or> \<not> isOk (foldM (applyRule E ns) st rules)")
      case True
      then consider "t = MaxInt16" | e where "t \<noteq> MaxInt16" "foldM (applyRule E ns) st rules = Inl e"
        by (cases "foldM (applyRule E ns) st rules") auto
      then show ?thesis
      proof cases
        case 1
        then show ?thesis using one [of "Inr st"] Inr ans by simp
      next
        case (2 e)
        then show ?thesis using one [of "Inl e"] Inr ans by simp
      qed
    next
      case False
      then obtain st' where st': "foldM (applyRule E ns) st rules = Inr st'" by (auto simp: isOk_iff)
      have "queriesLeft t < queriesLeft cur" using queriesLeft_less Inr ans query False by metis
      from less [OF this, of "Suc i" st'] obtain qs r where
        "along h (Suc i) qs" "length qs \<le> queriesLeft t" "\<forall>rest. patchLoop E op ns t st' (answersFrom qs @ rest) = Some (r, rest)"
        by blast
      then show ?thesis
        using Inr ans st' False \<open>queriesLeft t < queriesLeft cur\<close>
        by (intro exI [of _ "(?q, h i) # qs"] exI [of _ r]) simp
    qed
  qed
qed

lemma patchCall_ends:
  "\<exists>qs r. along h 0 qs \<and> length qs \<le> 65536 \<and> (\<forall>rest. patchCall E op ns orig (answersFrom qs @ rest) = Some (r, rest))"
proof (cases "jsonUnmarshal E (Some orig)")
  case (Inl e)
  then show ?thesis by (intro exI [of _ "[]"]) (simp add: patchCall_def)
next
  case (Inr v)
  obtain qs r where qs: "along h 0 qs" "length qs \<le> queriesLeft MinInt16"
      "\<forall>rest. patchLoop E op ns MinInt16 (startState orig v) (answersFrom qs @ rest) = Some (r, rest)"
    using patchLoop_ends by blast
  then show ?thesis using Inr by (intro exI [of _ qs]) (simp add: patchCall_def queriesLeft_start)
qed

text \<open>
  C19: the handler ends, whatever becomes of the store. For every history of the store, one state for
  each query that the handler makes, there are queries on these states after which it has its
  response: at most 131072 of them, twice the number of tiers. Rules that are put and deleted all the
  time cannot keep it from answering.
\<close>

theorem dragnet_ends:
  "\<exists>qs resp. along h 0 qs \<and> length qs \<le> 131072 \<and> dragnetCall E K req (answersFrom qs) = Some resp"
proof (cases "injectSyntheticRefs K (requestObject req) (requestNamespace req)")
  case (Inl e)
  then show ?thesis
    by (cases e) (auto simp: dragnetCall_def Let_def ended_def intro!: exI [of _ "[]"])
next
  case inj: (Inr obj)
  let ?op = "req_Operation req" and ?ns = "requestNamespace req"
  obtain qs r where qs: "along h 0 qs" "length qs \<le> 65536" "\<forall>rest. patchCall E ?op ?ns obj (answersFrom qs @ rest) = Some (r, rest)"
    using patchCall_ends by blast
  show ?thesis
  proof (cases r)
    case (Inl e)
    then show ?thesis
      using inj qs(1,2) qs(3) [rule_format, of "[]"]
      by (cases e) (auto simp: dragnetCall_def Let_def ended_def intro!: exI [of _ qs])
  next
    case (Inr vo)
    obtain v ops where vo: "vo = (v, ops)" by (rule prod.exhaust)
    obtain qs' r' where qs': "along h (length qs) qs'" "length qs' \<le> queriesLeft MinInt16"
        "rejectLoop ?op ?ns v MinInt16 [] (answersFrom qs') = Some r'"
      using rejectLoop_ends by blast
    have "answersFrom (qs @ qs') = answersFrom qs @ answersFrom qs'" by (simp add: answersFrom_def)
    then have "dragnetCall E K req (answersFrom (qs @ qs')) =
        Some (bindr r' (\<lambda>rejections. Inr (dragnetVerdict rejections ops)))"
      using inj qs(3) Inr vo qs'(3) by (simp add: dragnetCall_def Let_def)
    then show ?thesis
      using qs(1,2) qs'(1,2) by (intro exI [of _ "qs @ qs'"]) (simp add: along_append queriesLeft_start)
  qed
qed

end
