(* ===== verification/ControlLoop.thy ===== *)
theory ControlLoop imports SharedDragnet EndToEnd begin

text \<open>
  The controller on the shared store (src/controllers/modrule_controller.go over
  src/core/modrulestore.go). Theory \<open>Reconciler\<close> takes a run of \<open>Reconcile\<close> as one step; here it is
  taken apart: the worker takes a key off the queue, fetches the rule, and calls the store, whose
  steps it makes under the lock between those of the webhooks. Users may change the
  cluster at every point, also between the fetch and the call, so the worker may store a rule that is no
  longer the one of the cluster; the change has queued the key again.
\<close>

section \<open>The call that a run makes\<close>

definition reconcileCall :: "string \<times> string \<Rightarrow> getResult \<Rightarrow> storeCall option" where
  "reconcileCall k got = (case got of
     NotFound \<Rightarrow> Some (DeleteCall (fst k) (snd k))
   | GetFailed e \<Rightarrow> None
   | Found r \<Rightarrow> Some (PutCall (r\<lparr>Namespace := fst k\<rparr>)))"

text \<open>It is the one that \<open>Reconcile\<close> makes.\<close>

lemma reconcileCall_Reconcile:
  "reconcileCall k got = None \<Longrightarrow> Reconcile E s k got = Inr (s', err) \<Longrightarrow> s' = s \<and> err \<noteq> None"
  "reconcileCall k got = Some c \<Longrightarrow> Reconcile E s k got = Inr (s', err) \<Longrightarrow> s' = fst (atomicCall E s c) \<and> err = None"
  by (auto simp: reconcileCall_def Reconcile_def atomicCall_def Let_def bindr_Inr_iff split: getResult.splits sum.splits)

section \<open>The system\<close>

datatype worker = Idle | Fetching "string \<times> string" | Fetched "string \<times> string" getResult | Storing "string \<times> string"

record ctl =
  ct_cluster :: "string \<times> string \<rightharpoonup> modRule"
  ct_queue :: "(string \<times> string) set"
  ct_worker :: worker
  ct_locked :: lockedStore

definition clusterGet :: "ctl \<Rightarrow> string \<times> string \<Rightarrow> getResult" where
  "clusterGet c k = (case ct_cluster c k of None \<Rightarrow> NotFound | Some r \<Rightarrow> Found r)"

text \<open>
  Goroutine 0 is the worker; the others only read. A key that is changed while it is
  worked on waits in the queue until the worker is done with it. A fetch that fails queues its key
  again. A \<open>Put\<close> that panics ends the process: the worker does not go on.
\<close>

definition panicked :: "lockedStore \<Rightarrow> bool" where
  "panicked w \<longleftrightarrow> (\<exists>call f. (0, call, PutDone (Inl f)) \<in> set (ls_log w))"

inductive ctlStep :: "('p, 'o) env \<Rightarrow> swaps \<Rightarrow> string \<Rightarrow> ctl \<Rightarrow> ctl \<Rightarrow> bool"
  for E :: "('p, 'o) env" and sw :: swaps and cl :: string where
  userPut: "ctlStep E sw cl c (c\<lparr>ct_cluster := (ct_cluster c)((Namespace r, Name r) \<mapsto> r),
      ct_queue := insert (Namespace r, Name r) (ct_queue c)\<rparr>)"
| userDelete: "ctlStep E sw cl c (c\<lparr>ct_cluster := (ct_cluster c)(k := None), ct_queue := insert k (ct_queue c)\<rparr>)"
| take: "ct_worker c = Idle \<Longrightarrow> k \<in> ct_queue c \<Longrightarrow>
    ctlStep E sw cl c (c\<lparr>ct_queue := ct_queue c - {k}, ct_worker := Fetching k\<rparr>)"
| fetch: "ct_worker c = Fetching k \<Longrightarrow> ctlStep E sw cl c (c\<lparr>ct_worker := Fetched k (clusterGet c k)\<rparr>)"
| fetch_failed: "ct_worker c = Fetching k \<Longrightarrow>
    ctlStep E sw cl c (c\<lparr>ct_queue := insert k (ct_queue c), ct_worker := Idle\<rparr>)"
| store: "ct_worker c = Fetched k got \<Longrightarrow> reconcileCall k got = Some call \<Longrightarrow>
    ctlStep E sw cl c (c\<lparr>ct_worker := Storing k, ct_locked := begins 0 call (ct_locked c)\<rparr>)"
| finished: "ct_worker c = Storing k \<Longrightarrow> ls_pc (ct_locked c) 0 = Outside \<Longrightarrow> \<not> panicked (ct_locked c) \<Longrightarrow>
    ctlStep E sw cl c (c\<lparr>ct_worker := Idle\<rparr>)"
| query: "t \<noteq> 0 \<Longrightarrow> readsOnly call \<Longrightarrow> ls_pc (ct_locked c) t = Outside \<Longrightarrow>
    ctlStep E sw cl c (c\<lparr>ct_locked := begins t call (ct_locked c)\<rparr>)"
| running: "quietStep E sw cl (ct_locked c) w \<Longrightarrow> ctlStep E sw cl c (c\<lparr>ct_locked := w\<rparr>)"

inductive ctlReachable :: "('p, 'o) env \<Rightarrow> swaps \<Rightarrow> string \<Rightarrow> ctl \<Rightarrow> bool"
  for E :: "('p, 'o) env" and sw :: swaps and cl :: string where
  start: "ctlReachable E sw cl \<lparr>ct_cluster = Map.empty, ct_queue = {}, ct_worker = Idle, ct_locked = emptyStore\<rparr>"
| step: "ctlReachable E sw cl c \<Longrightarrow> ctlStep E sw cl c d \<Longrightarrow> ctlReachable E sw cl d"

section \<open>What a call of the worker does to the store\<close>

lemma rulesOf_slotted: "rulesOf (slotted s ns) = rulesOf s"
  by (auto simp: slotted_def rulesOf_def fun_eq_iff split: option.splits)

definition wants :: "('p, 'o) env \<Rightarrow> modRuleStore \<Rightarrow> string \<times> string \<Rightarrow> getResult \<Rightarrow> bool" where
  "wants E s k got = (case got of
     NotFound \<Rightarrow> lookupRule s k = None
   | Found r \<Rightarrow> (case NewModRuleStoreItem E r of Inr i \<Rightarrow> lookupRule s k = Some i | Inl _ \<Rightarrow> True)
   | GetFailed e \<Rightarrow> False)"

lemma worker_call:
  assumes "sortsByTier E" and "storeInv s" and "reconcileCall k got = Some call"
    and "\<forall>r. got = Found r \<longrightarrow> k = (Namespace r, Name r)"
  shows "storeInv (fst (atomicCall E s call)) \<and> wants E (fst (atomicCall E s call)) k got \<and>
    (\<forall>k'. k' \<noteq> k \<longrightarrow> lookupRule (fst (atomicCall E s call)) k' = lookupRule s k')"
proof (cases got)
  case NotFound
  then have "fst (atomicCall E s call) = Delete s (fst k) (snd k)"
    using assms(3) by (auto simp: reconcileCall_def atomicCall_def)
  then show ?thesis
    using NotFound Delete_storeInv [OF assms(2)] Delete_lookup [OF assms(2), of "fst k" "snd k"] by (simp add: wants_def)
next
  case (GetFailed e)
  then show ?thesis using assms(3) by (simp add: reconcileCall_def)
next
  case (Found r)
  then have k: "k = (Namespace r, Name r)" and call: "call = PutCall r"
    using assms(3,4) by (auto simp: reconcileCall_def)
  show ?thesis
  proof (cases "NewModRuleStoreItem E r")
    case (Inr i)
    from Put_contract(1) [OF assms(1,2) this] show ?thesis
      by (auto simp: call atomicCall_def wants_def Found k Inr)
  next
    case (Inl f)
    have "storeInv (fst (atomicCall E s call)) \<and> lookupRule (fst (atomicCall E s call)) = lookupRule s"
    proof (cases f)
      case (GoErr e)
      with Inl have "NewModRuleStoreItem E r = Inl (GoErr e)" by simp
      from Put_contract(2) [OF assms(1,2) this] show ?thesis by (auto simp: call atomicCall_def)
    next
      case (GoPanic p)
      with Inl have "NewModRuleStoreItem E r = Inl (GoPanic p)" by simp
      from Put_panic [OF this, of s] assms(2) show ?thesis
        by (simp add: call atomicCall_def storeInv_cong [OF rulesOf_slotted] lookupRule_cong [OF rulesOf_slotted])
    qed
    then show ?thesis by (simp add: wants_def Found Inl)
  qed
qed

lemma reader_call: "readsOnly call \<Longrightarrow> fst (atomicCall E s call) = s"
  by (cases call) (simp_all add: atomicCall_def)

section \<open>The invariant\<close>

text \<open>The keys whose rule in the store may differ from the cluster's: queued, or being worked on.\<close>

fun inWork :: "worker \<Rightarrow> pc \<Rightarrow> (string \<times> string) set" where
  "inWork Idle p = {}"
| "inWork (Fetching k) p = {k}"
| "inWork (Fetched k got) p = {k}"
| "inWork (Storing k) p = (if p = Outside then {} else {k})"

lemma inWork_finite [simp]: "finite (inWork wk p)"
  by (cases wk) auto

definition unsettled :: "ctl \<Rightarrow> (string \<times> string) set" where
  "unsettled c = ct_queue c \<union> inWork (ct_worker c) (ls_pc (ct_locked c) 0)"

text \<open>The state of theory \<open>Reconciler\<close> that it stands for.\<close>

definition settledView :: "('p, 'o) env \<Rightarrow> swaps \<Rightarrow> string \<Rightarrow> ctl \<Rightarrow> sys" where
  "settledView E sw cl c = \<lparr>sys_store = storeNow E sw cl (ct_locked c), sys_cluster = ct_cluster c, sys_queue = unsettled c\<rparr>"

text \<open>What the worker has fetched is the cluster's rule, or its key is queued again.\<close>

definition fresh :: "ctl \<Rightarrow> string \<times> string \<Rightarrow> getResult \<Rightarrow> bool" where
  "fresh c k got \<longleftrightarrow> (\<nexists>e. got = GetFailed e) \<and> (\<forall>r. got = Found r \<longrightarrow> k = (Namespace r, Name r)) \<and> (k \<notin> ct_queue c \<longrightarrow> got = clusterGet c k)"

lemma fresh_frame: "ct_cluster d = ct_cluster c \<Longrightarrow> ct_queue d = ct_queue c \<Longrightarrow> fresh d k got \<longleftrightarrow> fresh c k got"
  by (simp add: fresh_def clusterGet_def)

definition workerInv :: "ctl \<Rightarrow> bool" where
  "workerInv c \<longleftrightarrow> (case ct_worker c of
     Fetched k got \<Rightarrow> ls_pc (ct_locked c) 0 = Outside \<and> fresh c k got
   | Storing k \<Rightarrow> ls_pc (ct_locked c) 0 = Outside \<or> (\<exists>got call. fresh c k got \<and>
       reconcileCall k got = Some call \<and> callOf (ls_pc (ct_locked c) 0) = Some call)
   | _ \<Rightarrow> ls_pc (ct_locked c) 0 = Outside)"

definition othersRead :: "lockedStore \<Rightarrow> bool" where
  "othersRead w \<longleftrightarrow> (\<forall>t call. t \<noteq> 0 \<longrightarrow> callOf (ls_pc w t) = Some call \<longrightarrow> readsOnly call)"

definition ctlInv :: "('p, 'o) env \<Rightarrow> swaps \<Rightarrow> string \<Rightarrow> ctl \<Rightarrow> bool" where
  "ctlInv E sw cl c \<longleftrightarrow> lockReachable E sw cl (ct_locked c) \<and> sysInv (sortingBy E sw) (settledView E sw cl c) \<and>
     othersRead (ct_locked c) \<and> workerInv c"

lemma storeNow_begins: "storeNow E sw cl (begins t call w) = storeNow E sw cl w"
  by (simp add: storeNow_def begins_def)

lemma inSync_view: "inSync E (settledView E' sw cl c) k \<longleftrightarrow> wants E (storeNow E' sw cl (ct_locked c)) k (clusterGet c k)"
  by (cases "ct_cluster c k") (simp_all add: settledView_def inSync_def wants_def clusterGet_def split: sum.splits)

lemma sysInv_view:
  "sysInv E (settledView E' sw cl c) \<longleftrightarrow> storeInv (storeNow E' sw cl (ct_locked c)) \<and> finite (unsettled c) \<and>
     (\<forall>k r. ct_cluster c k = Some r \<longrightarrow> k = (Namespace r, Name r)) \<and>
     (\<forall>k. k \<notin> unsettled c \<longrightarrow> wants E (storeNow E' sw cl (ct_locked c)) k (clusterGet c k))"
  unfolding sysInv_def inSync_view by (simp add: settledView_def)

lemma wants_frame: "lookupRule s' k = lookupRule s k \<Longrightarrow> wants E s' k got \<longleftrightarrow> wants E s k got"
  by (cases got) (auto simp: wants_def split: sum.splits)

lemma clusterGet_other: "ct_cluster d k = ct_cluster c k \<Longrightarrow> clusterGet d k = clusterGet c k"
  by (simp add: clusterGet_def)

text \<open>A step that leaves the store as it is and unsettles every key whose rule changes.\<close>

lemma ctlInv_frame:
  assumes inv: "ctlInv E sw cl c"
    and "lockReachable E sw cl (ct_locked d)" and "storeNow E sw cl (ct_locked d) = storeNow E sw cl (ct_locked c)"
    and "\<And>k r. ct_cluster d k = Some r \<Longrightarrow> k = (Namespace r, Name r)"
    and "finite (unsettled d)" and "unsettled c \<subseteq> unsettled d" and "\<And>k. k \<notin> unsettled d \<Longrightarrow> ct_cluster d k = ct_cluster c k"
    and "othersRead (ct_locked d)" and "workerInv d"
  shows "ctlInv E sw cl d"
proof -
  have "wants (sortingBy E sw) (storeNow E sw cl (ct_locked d)) k (clusterGet d k)" if "k \<notin> unsettled d" for k
    using inv that assms(6) clusterGet_other [OF assms(7) [OF that]] unfolding ctlInv_def sysInv_view assms(3)
    by (auto simp del: split_paired_All)
  then show ?thesis
    using inv assms unfolding ctlInv_def sysInv_view by simp
qed

lemma ctlInv_start: "ctlInv E sw cl \<lparr>ct_cluster = Map.empty, ct_queue = {}, ct_worker = Idle, ct_locked = emptyStore\<rparr>"
  by (simp add: ctlInv_def lockReachable_def sysInv_view storeNow_def emptyStore_def storeInv_New unsettled_def
      clusterGet_def wants_def lookupRule_New othersRead_def workerInv_def)

section \<open>Every step keeps the invariant\<close>

lemma storeNow_ended:
  "ls_log w' = ls_log w @ [(t, call, out)] \<Longrightarrow> storeNow E sw cl w' = fst (atomicCall (sortingBy E sw) (storeNow E sw cl w) call)"
  by (simp add: storeNow_def replays_snoc)

lemma quiet_lock: "lockReachable E sw cl w \<Longrightarrow> quietStep E sw cl w w' \<Longrightarrow> lockReachable E sw cl w'"
  using quiet_reachable r_into_rtranclp by metis

text \<open>Steps that leave the worker in its call, or outside.\<close>

lemma ctlInv_quiet:
  assumes inv: "ctlInv E sw cl c" and reach: "lockReachable E sw cl w"
    and "storeNow E sw cl w = storeNow E sw cl (ct_locked c)"
    and same: "callOf (ls_pc w 0) = callOf (ls_pc (ct_locked c) 0)" and "othersRead w"
  shows "ctlInv E sw cl (c\<lparr>ct_locked := w\<rparr>)"
proof -
  have out: "ls_pc w 0 = Outside \<longleftrightarrow> ls_pc (ct_locked c) 0 = Outside" using same callOf_Outside by metis
  then have set: "unsettled (c\<lparr>ct_locked := w\<rparr>) = unsettled c" by (cases "ct_worker c") (simp_all add: unsettled_def)
  have "workerInv c" using inv by (simp add: ctlInv_def)
  then have "workerInv (c\<lparr>ct_locked := w\<rparr>)"
    by (auto simp: workerInv_def fresh_def clusterGet_def out same split: worker.splits)
  then show ?thesis
    using inv assms(2,3,5) set by (intro ctlInv_frame [OF inv]) (auto simp: ctlInv_def sysInv_view)
qed

lemma ctlInv_stored:
  assumes inv: "ctlInv E sw cl c" and sorts: "sortsByTier (sortingBy E sw)" and reach: "lockReachable E sw cl w"
    and "callOf (ls_pc (ct_locked c) 0) = Some call" and "ls_pc w = (ls_pc (ct_locked c))(0 := Outside)"
    and "ls_log w = ls_log (ct_locked c) @ [(0, call, out)]"
  shows "ctlInv E sw cl (c\<lparr>ct_locked := w\<rparr>)"
proof -
  let ?E = "sortingBy E sw" and ?s = "storeNow E sw cl (ct_locked c)"
  have "ls_pc (ct_locked c) 0 \<noteq> Outside" using assms(4) by auto
  moreover have "workerInv c" using inv by (simp add: ctlInv_def)
  ultimately obtain k got where w: "ct_worker c = Storing k" "fresh c k got" "reconcileCall k got = Some call"
    using assms(4) by (auto simp: workerInv_def split: worker.splits)
  have s: "storeNow E sw cl w = fst (atomicCall ?E ?s call)" by (rule storeNow_ended [OF assms(6)])
  have store: "storeInv ?s" "\<And>k'. k' \<notin> unsettled c \<Longrightarrow> wants ?E ?s k' (clusterGet c k')"
    using inv by (simp_all add: ctlInv_def sysInv_view del: split_paired_All)
  have key: "\<forall>r. got = Found r \<longrightarrow> k = (Namespace r, Name r)" and current: "k \<notin> ct_queue c \<Longrightarrow> got = clusterGet c k"
    using w(2) by (simp_all add: fresh_def)
  note call = worker_call [OF sorts store(1) w(3) key, folded s]
  have done_sets: "unsettled (c\<lparr>ct_locked := w\<rparr>) = ct_queue c" "unsettled c = insert k (ct_queue c)"
    using w(1) \<open>ls_pc (ct_locked c) 0 \<noteq> Outside\<close> assms(5) by (auto simp: unsettled_def)
  have "wants ?E (storeNow E sw cl w) k' (clusterGet c k')" if "k' \<notin> ct_queue c" for k'
  proof (cases "k' = k")
    case True
    then show ?thesis using call current that by simp
  next
    case False
    then have "lookupRule (storeNow E sw cl w) k' = lookupRule ?s k'" using call by blast
    from wants_frame [OF this] show ?thesis using store(2) [of k'] False that done_sets(2) by blast
  qed
  moreover have "storeInv (storeNow E sw cl w)" using call by blast
  moreover have "workerInv (c\<lparr>ct_locked := w\<rparr>)" using w(1) assms(5) by (simp add: workerInv_def)
  moreover have "othersRead w" using inv assms(5) by (simp add: ctlInv_def othersRead_def)
  ultimately show ?thesis
    using inv reach done_sets unfolding ctlInv_def sysInv_view by (simp add: clusterGet_def)
qed

lemma ctlInv_running:
  assumes inv: "ctlInv E sw cl c" and sorts: "sortsByTier (sortingBy E sw)" and step: "quietStep E sw cl (ct_locked c) w"
  shows "ctlInv E sw cl (c\<lparr>ct_locked := w\<rparr>)"
proof -
  have reach: "lockReachable E sw cl w" using quiet_lock [OF _ step] inv by (simp add: ctlInv_def)
  have others: "othersRead (ct_locked c)" using inv by (simp add: ctlInv_def)
  from quiet_calls [OF step] show ?thesis
  proof (elim disjE exE conjE)
    assume "ls_log w = ls_log (ct_locked c)" "\<forall>u. callOf (ls_pc w u) = callOf (ls_pc (ct_locked c) u)"
    then show ?thesis
      using others by (intro ctlInv_quiet [OF inv reach]) (simp_all add: storeNow_def othersRead_def)
  next
    fix t call out
    assume call: "callOf (ls_pc (ct_locked c) t) = Some call" "ls_pc w = (ls_pc (ct_locked c))(t := Outside)"
      "ls_log w = ls_log (ct_locked c) @ [(t, call, out)]"
    show ?thesis
    proof (cases "t = 0")
      case True
      then show ?thesis using call by (intro ctlInv_stored [OF inv sorts reach]) auto
    next
      case False
      then have "readsOnly call" using others call(1) by (simp add: othersRead_def)
      then have "storeNow E sw cl w = storeNow E sw cl (ct_locked c)" using storeNow_ended [OF call(3)] reader_call by metis
      then show ?thesis
        using others False call(2) by (intro ctlInv_quiet [OF inv reach]) (simp_all add: othersRead_def)
    qed
  qed
qed

lemma ctlInv_step:
  assumes sorts: "sortsByTier (sortingBy E sw)" and "ctlStep E sw cl c d" and inv: "ctlInv E sw cl c"
  shows "ctlInv E sw cl d"
  using assms(2)
proof (cases rule: ctlStep.cases)
  case (userPut r)
  have "workerInv c" using inv by (simp add: ctlInv_def)
  then have "workerInv d" by (auto simp: userPut workerInv_def fresh_def clusterGet_def split: worker.splits)
  then show ?thesis
    using inv by (intro ctlInv_frame [OF inv]) (auto simp: userPut ctlInv_def sysInv_view unsettled_def split: if_splits)
next
  case (userDelete k)
  have "workerInv c" using inv by (simp add: ctlInv_def)
  then have "workerInv d" by (auto simp: userDelete workerInv_def fresh_def clusterGet_def split: worker.splits)
  then show ?thesis
    using inv by (intro ctlInv_frame [OF inv]) (auto simp: userDelete ctlInv_def sysInv_view unsettled_def split: if_splits)
next
  case (take k)
  then show ?thesis
    using inv by (intro ctlInv_frame [OF inv]) (auto simp: ctlInv_def sysInv_view unsettled_def workerInv_def)
next
  case (fetch k)
  have "fresh d k (clusterGet c k)"
    using inv by (cases k) (auto simp: fetch fresh_def clusterGet_def ctlInv_def sysInv_view split: option.splits)
  then show ?thesis
    using fetch inv by (intro ctlInv_frame [OF inv]) (auto simp: ctlInv_def sysInv_view unsettled_def workerInv_def)
next
  case (fetch_failed k)
  then show ?thesis
    using inv by (intro ctlInv_frame [OF inv]) (auto simp: ctlInv_def sysInv_view unsettled_def workerInv_def)
next
  case (store k got call)
  have w: "ls_pc (ct_locked c) 0 = Outside" "fresh c k got" using inv store(2) by (simp_all add: ctlInv_def workerInv_def)
  have "fresh d k got" using w(2) fresh_frame [of d c] by (simp add: store(1))
  moreover have "callOf (ls_pc (ct_locked d) 0) = Some call" by (simp add: store(1) begins_def)
  ultimately have "workerInv d" using store(3) by (auto simp: store(1) workerInv_def)
  moreover have "unsettled d = unsettled c" using store(2) by (simp add: store(1) unsettled_def begins_def)
  moreover have "othersRead (ct_locked d)" using inv by (simp add: store(1) ctlInv_def othersRead_def begins_def)
  moreover have "lockReachable E sw cl (ct_locked d)"
    using inv by (auto simp: store(1) ctlInv_def intro: begins_reachable w(1))
  ultimately show ?thesis
    using inv by (intro ctlInv_frame [OF inv]) (auto simp: store(1) storeNow_begins ctlInv_def sysInv_view)
next
  case (finished k)
  then show ?thesis
    using inv by (intro ctlInv_frame [OF inv]) (auto simp: ctlInv_def sysInv_view unsettled_def workerInv_def)
next
  case (query t call)
  have "othersRead (begins t call (ct_locked c))"
    using inv query(3) by (auto simp: ctlInv_def othersRead_def begins_def)
  moreover have "callOf (ls_pc (begins t call (ct_locked c)) 0) = callOf (ls_pc (ct_locked c) 0)"
    using query(2) by (simp add: begins_def)
  ultimately show ?thesis
    using inv unfolding query(1)
    by (intro ctlInv_quiet [OF inv] begins_reachable query(4)) (simp_all add: storeNow_begins ctlInv_def)
next
  case (running w)
  then show ?thesis using ctlInv_running [OF inv sorts] by simp
qed

lemma ctlReachable_inv:
  assumes "sortsByTier (sortingBy E sw)" and "ctlReachable E sw cl c"
  shows "ctlInv E sw cl c"
  using assms(2) by (induction rule: ctlReachable.induct) (auto simp: ctlInv_start intro: ctlInv_step [OF assms(1)])

end
