(* ===== verification/ControlRuns.thy ===== *)
theory ControlRuns imports ControlLoop begin

text \<open>
  Runs of the system of theory \<open>ControlLoop\<close>: calls under way can be finished, the worker can
  finish its run, and the keys in the queue can be worked off one by one.
\<close>

section \<open>Runs\<close>

lemma ctl_reach:
  assumes "ctlReachable E sw cl c" and "(ctlStep E sw cl)\<^sup>*\<^sup>* c d"
  shows "ctlReachable E sw cl d"
  using assms(2,1) by (induction rule: rtranclp_induct) (auto intro: ctlReachable.step)

lemma ctl_lift:
  assumes "(quietStep E sw cl)\<^sup>*\<^sup>* (ct_locked c) w"
  shows "(ctlStep E sw cl)\<^sup>*\<^sup>* c (c\<lparr>ct_locked := w\<rparr>)"
  using assms
proof (induction rule: rtranclp_induct)
  case (step v w)
  have "ctlStep E sw cl (c\<lparr>ct_locked := v\<rparr>) (c\<lparr>ct_locked := v\<rparr>\<lparr>ct_locked := w\<rparr>)"
    by (rule ctlStep.running) (simp add: step.hyps(2))
  with step.IH show ?case by (simp add: rtranclp.rtrancl_into_rtrancl)
qed simp

lemma ctl_query:
  assumes "swapsInRange sw" and "lockReachable E sw cl (ct_locked c)" and "idle (ct_locked c)" and "t \<noteq> 0" and "readsOnly call"
  shows "\<exists>w out. (ctlStep E sw cl)\<^sup>*\<^sup>* c (c\<lparr>ct_locked := w\<rparr>) \<and> idle w \<and> ls_log w = ls_log (ct_locked c) @ [(t, call, out)]"
proof -
  let ?d = "c\<lparr>ct_locked := begins t call (ct_locked c)\<rparr>"
  obtain w out where w: "(quietStep E sw cl)\<^sup>*\<^sup>* (begins t call (ct_locked c)) w" "idle w"
      "ls_log w = ls_log (ct_locked c) @ [(t, call, out)]"
    using run_call_quiet [OF assms(1-3)] by blast
  have "ctlStep E sw cl c ?d" using assms(3-5) by (intro ctlStep.query) (simp_all add: idle_def)
  moreover have "(ctlStep E sw cl)\<^sup>*\<^sup>* ?d (c\<lparr>ct_locked := w\<rparr>)" using ctl_lift [of E sw cl ?d w] w(1) by simp
  ultimately show ?thesis using w(2,3) by (meson converse_rtranclp_into_rtranclp)
qed

lemma ctl_store:
  assumes "swapsInRange sw" and "lockReachable E sw cl (ct_locked c)" and "idle (ct_locked c)"
    and "ct_worker c = Fetched k got" and "reconcileCall k got = Some call"
  shows "\<exists>w out. (ctlStep E sw cl)\<^sup>*\<^sup>* c (c\<lparr>ct_worker := Storing k, ct_locked := w\<rparr>) \<and> idle w \<and>
    ls_log w = ls_log (ct_locked c) @ [(0, call, out)]"
proof -
  let ?d = "c\<lparr>ct_worker := Storing k, ct_locked := begins 0 call (ct_locked c)\<rparr>"
  obtain w out where w: "(quietStep E sw cl)\<^sup>*\<^sup>* (begins 0 call (ct_locked c)) w" "idle w"
      "ls_log w = ls_log (ct_locked c) @ [(0, call, out)]"
    using run_call_quiet [OF assms(1-3)] by blast
  have "ctlStep E sw cl c ?d" by (rule ctlStep.store [OF assms(4,5)])
  moreover have "(ctlStep E sw cl)\<^sup>*\<^sup>* ?d (c\<lparr>ct_worker := Storing k, ct_locked := w\<rparr>)"
    using ctl_lift [of E sw cl ?d w] w(1) by simp
  ultimately show ?thesis using w(2,3) by (meson converse_rtranclp_into_rtranclp)
qed

text \<open>The end of a run that has not panicked.\<close>

definition safeCall :: "('p, 'o) env \<Rightarrow> storeCall \<Rightarrow> bool" where
  "safeCall E call \<longleftrightarrow> (\<forall>r. call = PutCall r \<longrightarrow> noPanic (NewModRuleStoreItem E r))"

lemma safe_outcome: "safeCall E call \<Longrightarrow> snd (atomicCall (sortingBy E sw) s call) \<noteq> PutDone (Inl f)"
proof (cases call)
  case (PutCall r)
  then show "safeCall E call \<Longrightarrow> ?thesis"
    unfolding PutCall atomicCall_put by (cases "NewModRuleStoreItem E r") (auto simp: safeCall_def split: fail.splits)
qed (simp_all add: atomicCall_def)

lemma panicked_step:
  assumes "swapsInRange sw" and "lockReachable E sw cl w'" and "ls_log w' = ls_log w @ [(t, call, out)]" and "safeCall E call"
  shows "panicked w' \<longleftrightarrow> panicked w"
proof -
  have "out = snd (atomicCall (sortingBy E sw) (afterCalls (sortingBy E sw) (NewModRuleStore cl) (ls_log w)) call)"
    using reachable_inv [OF assms(2,1)] by (simp add: lockInv_def assms(3) replays_snoc)
  then have "out \<noteq> PutDone (Inl f)" for f using safe_outcome [OF assms(4)] by simp
  then show ?thesis by (auto simp: panicked_def assms(3))
qed

section \<open>The queue drains\<close>

text \<open>What the worker still has to do to the store for the key it works on.\<close>

definition heldCall :: "ctl \<Rightarrow> storeCall option" where
  "heldCall c = (case ct_worker c of Fetched k got \<Rightarrow> reconcileCall k got | _ \<Rightarrow> callOf (ls_pc (ct_locked c) 0))"

definition calm :: "('p, 'o) env \<Rightarrow> ctl \<Rightarrow> bool" where
  "calm E c \<longleftrightarrow> \<not> panicked (ct_locked c) \<and> (\<forall>call. heldCall c = Some call \<longrightarrow> safeCall E call) \<and>
     (\<forall>k r. ct_cluster c k = Some r \<longrightarrow> noPanic (NewModRuleStoreItem E r))"

text \<open>A state between two runs.\<close>

definition resting :: "ctl \<Rightarrow> bool" where
  "resting c \<longleftrightarrow> ct_worker c = Idle \<and> idle (ct_locked c) \<and> \<not> panicked (ct_locked c)"

lemma safe_fetch:
  assumes "ctlInv E sw cl c" and "\<forall>k r. ct_cluster c k = Some r \<longrightarrow> noPanic (NewModRuleStoreItem E r)"
  obtains call where "reconcileCall k (clusterGet c k) = Some call" and "safeCall E call"
proof (cases "ct_cluster c k")
  case None
  then show thesis using that by (auto simp: reconcileCall_def clusterGet_def safeCall_def)
next
  case (Some r)
  then have k: "k = (Namespace r, Name r)" using assms(1) unfolding ctlInv_def sysInv_view by blast
  then have "reconcileCall k (clusterGet c k) = Some (PutCall r)" using Some by (simp add: reconcileCall_def clusterGet_def)
  moreover have "safeCall E (PutCall r)" using assms(2) Some unfolding safeCall_def by blast
  ultimately show thesis by (rule that)
qed

lemma worker_stores:
  assumes sw: "swapsInRange sw" and reach: "ctlReachable E sw cl c" and sorts: "sortsByTier (sortingBy E sw)"
    and "idle (ct_locked c)" and "ct_worker c = Fetched k got" and "reconcileCall k got = Some call" and "safeCall E call"
    and "\<not> panicked (ct_locked c)"
  shows "\<exists>w. (ctlStep E sw cl)\<^sup>*\<^sup>* c (c\<lparr>ct_worker := Idle, ct_locked := w\<rparr>) \<and> resting (c\<lparr>ct_worker := Idle, ct_locked := w\<rparr>) \<and>
    (\<exists>out. ls_log w = ls_log (ct_locked c) @ [(0, call, out)])"
proof -
  have lock: "lockReachable E sw cl (ct_locked c)" using ctlReachable_inv [OF sorts reach] by (simp add: ctlInv_def)
  obtain w out where w: "(ctlStep E sw cl)\<^sup>*\<^sup>* c (c\<lparr>ct_worker := Storing k, ct_locked := w\<rparr>)" "idle w"
      "ls_log w = ls_log (ct_locked c) @ [(0, call, out)]"
    using ctl_store [OF sw lock assms(4-6)] by blast
  have "lockReachable E sw cl w"
    using ctlReachable_inv [OF sorts ctl_reach [OF reach w(1)]] by (simp add: ctlInv_def)
  from panicked_step [OF sw this w(3) assms(7)] have calm: "\<not> panicked w" using assms(8) by simp
  have "ctlStep E sw cl (c\<lparr>ct_worker := Storing k, ct_locked := w\<rparr>) (c\<lparr>ct_worker := Storing k, ct_locked := w\<rparr>\<lparr>ct_worker := Idle\<rparr>)"
    using w(2) calm by (intro ctlStep.finished) (auto simp: idle_def)
  also have "c\<lparr>ct_worker := Storing k, ct_locked := w\<rparr>\<lparr>ct_worker := Idle\<rparr> = c\<lparr>ct_worker := Idle, ct_locked := w\<rparr>"
    by (cases c) simp
  finally have "(ctlStep E sw cl)\<^sup>*\<^sup>* c (c\<lparr>ct_worker := Idle, ct_locked := w\<rparr>)" using w(1) by (meson rtranclp.rtrancl_into_rtrancl)
  then show ?thesis using w(2,3) calm by (auto simp: resting_def)
qed

text \<open>One run, from a queued key to the end.\<close>

lemma worker_round:
  assumes sw: "swapsInRange sw" and reach: "ctlReachable E sw cl c" and sorts: "sortsByTier (sortingBy E sw)"
    and rest: "resting c" and k: "k \<in> ct_queue c" and safe: "\<forall>k r. ct_cluster c k = Some r \<longrightarrow> noPanic (NewModRuleStoreItem E r)"
  shows "\<exists>d. (ctlStep E sw cl)\<^sup>*\<^sup>* c d \<and> resting d \<and> ct_queue d = ct_queue c - {k} \<and> ct_cluster d = ct_cluster c \<and>
    (\<exists>call out. reconcileCall k (clusterGet c k) = Some call \<and> ls_log (ct_locked d) = ls_log (ct_locked c) @ [(0, call, out)])"
proof -
  let ?a = "c\<lparr>ct_queue := ct_queue c - {k}, ct_worker := Fetching k\<rparr>"
  let ?b = "?a\<lparr>ct_worker := Fetched k (clusterGet ?a k)\<rparr>"
  have "ctlStep E sw cl c ?a" using rest k by (intro ctlStep.take) (simp_all add: resting_def)
  moreover have "ctlStep E sw cl ?a ?b" by (rule ctlStep.fetch) simp
  ultimately have ab: "(ctlStep E sw cl)\<^sup>*\<^sup>* c ?b" by simp
  have inv: "ctlInv E sw cl ?a"
    using ctlInv_step [OF sorts \<open>ctlStep E sw cl c ?a\<close> ctlReachable_inv [OF sorts reach]] .
  obtain call where call: "reconcileCall k (clusterGet ?a k) = Some call" "safeCall E call"
    using safe_fetch [OF inv, of k] safe by auto
  have "idle (ct_locked ?b)" "\<not> panicked (ct_locked ?b)" using rest by (simp_all add: resting_def)
  then obtain w out where w: "(ctlStep E sw cl)\<^sup>*\<^sup>* ?b (?b\<lparr>ct_worker := Idle, ct_locked := w\<rparr>)" "resting (?b\<lparr>ct_worker := Idle, ct_locked := w\<rparr>)"
      "ls_log w = ls_log (ct_locked c) @ [(0, call, out)]"
    using worker_stores [OF sw ctl_reach [OF reach ab] sorts _ _ call] by auto
  have "(ctlStep E sw cl)\<^sup>*\<^sup>* c (?b\<lparr>ct_worker := Idle, ct_locked := w\<rparr>)" using ab w(1) by (rule rtranclp_trans)
  moreover have "clusterGet ?a k = clusterGet c k" by (rule clusterGet_other) simp
  ultimately show ?thesis
    using w(2,3) call(1) by (intro exI [of _ "?b\<lparr>ct_worker := Idle, ct_locked := w\<rparr>"]) simp
qed

lemma queue_finite: "ctlInv E sw cl c \<Longrightarrow> finite (ct_queue c)"
  by (simp add: ctlInv_def sysInv_view unsettled_def)

lemma worker_drains:
  assumes sw: "swapsInRange sw" and sorts: "sortsByTier (sortingBy E sw)" and "finite Q"
  shows "ctlReachable E sw cl c \<Longrightarrow> resting c \<Longrightarrow> ct_queue c = Q \<Longrightarrow>
    \<forall>k r. ct_cluster c k = Some r \<longrightarrow> noPanic (NewModRuleStoreItem E r) \<Longrightarrow>
    \<exists>d. (ctlStep E sw cl)\<^sup>*\<^sup>* c d \<and> resting d \<and> ct_queue d = {} \<and> ct_cluster d = ct_cluster c"
  using assms(3)
proof (induction Q arbitrary: c rule: finite_psubset_induct)
  case (psubset Q)
  show ?case
  proof (cases "Q = {}")
    case True
    then show ?thesis using psubset.prems by blast
  next
    case False
    then obtain k where k: "k \<in> ct_queue c" using psubset.prems(3) by blast
    obtain d where d: "(ctlStep E sw cl)\<^sup>*\<^sup>* c d" "resting d" "ct_queue d = Q - {k}" "ct_cluster d = ct_cluster c"
      using worker_round [OF sw psubset.prems(1) sorts psubset.prems(2) k psubset.prems(4)] psubset.prems(3) by blast
    have "Q - {k} \<subset> Q" using k psubset.prems(3) by blast
    from psubset.IH [OF this ctl_reach [OF psubset.prems(1) d(1)] d(2,3)] psubset.prems(4) d(1,4) show ?thesis
      by (metis rtranclp_trans)
  qed
qed

lemma quiet_panicked:
  assumes "swapsInRange sw" and "(quietStep E sw cl)\<^sup>*\<^sup>* v w"
  shows "lockReachable E sw cl v \<and> \<not> panicked v \<and> (\<forall>call. callOf (ls_pc v 0) = Some call \<longrightarrow> safeCall E call) \<Longrightarrow>
    lockReachable E sw cl w \<and> \<not> panicked w \<and> (\<forall>call. callOf (ls_pc w 0) = Some call \<longrightarrow> safeCall E call)"
  using assms(2)
proof (induction rule: rtranclp_induct)
  case (step w w')
  then have IH: "lockReachable E sw cl w" "\<not> panicked w" "\<And>call. callOf (ls_pc w 0) = Some call \<Longrightarrow> safeCall E call" by simp_all
  have reach: "lockReachable E sw cl w'" by (rule quiet_lock [OF IH(1) step.hyps(2)])
  from quiet_calls [OF step.hyps(2)] show ?case
  proof (elim disjE exE conjE)
    assume "ls_log w' = ls_log w" "\<forall>u. callOf (ls_pc w' u) = callOf (ls_pc w u)"
    then show ?thesis using IH reach by (simp add: panicked_def)
  next
    fix t call out
    assume ended: "callOf (ls_pc w t) = Some call" "ls_pc w' = (ls_pc w)(t := Outside)" "ls_log w' = ls_log w @ [(t, call, out)]"
    have "\<not> panicked w'"
    proof (cases "t = 0")
      case True
      then show ?thesis using panicked_step [OF assms(1) reach ended(3)] IH(2,3) ended(1) by simp
    next
      case False
      then show ?thesis using IH(2) ended(3) by (simp add: panicked_def)
    qed
    then show ?thesis using IH(3) reach ended(2) by simp
  qed
qed simp

lemma fetched_rests:
  assumes sw: "swapsInRange sw" and reach: "ctlReachable E sw cl c" and sorts: "sortsByTier (sortingBy E sw)"
    and a: "(ctlStep E sw cl)\<^sup>*\<^sup>* c a" "ct_worker a = Fetched k got" "idle (ct_locked a)" "\<not> panicked (ct_locked a)"
    and call: "reconcileCall k got = Some call" "safeCall E call"
  shows "\<exists>d. (ctlStep E sw cl)\<^sup>*\<^sup>* c d \<and> resting d \<and> ct_cluster d = ct_cluster a"
proof -
  obtain w where w: "(ctlStep E sw cl)\<^sup>*\<^sup>* a (a\<lparr>ct_worker := Idle, ct_locked := w\<rparr>)" "resting (a\<lparr>ct_worker := Idle, ct_locked := w\<rparr>)"
    using worker_stores [OF sw ctl_reach [OF reach a(1)] sorts a(3,2) call a(4)] by blast
  have "(ctlStep E sw cl)\<^sup>*\<^sup>* c (a\<lparr>ct_worker := Idle, ct_locked := w\<rparr>)" using a(1) w(1) by (rule rtranclp_trans)
  then show ?thesis using w(2) by (intro exI [of _ "a\<lparr>ct_worker := Idle, ct_locked := w\<rparr>"]) simp
qed

lemma worker_rests:
  assumes sw: "swapsInRange sw" and reach: "ctlReachable E sw cl c" and sorts: "sortsByTier (sortingBy E sw)" and "calm E c"
  shows "\<exists>d. (ctlStep E sw cl)\<^sup>*\<^sup>* c d \<and> resting d \<and> ct_cluster d = ct_cluster c"
proof -
  have inv: "ctlInv E sw cl c" by (rule ctlReachable_inv [OF sorts reach])
  then have lock: "lockReachable E sw cl (ct_locked c)" by (simp add: ctlInv_def)
  obtain w where w: "(quietStep E sw cl)\<^sup>*\<^sup>* (ct_locked c) w" "idle w" using quiet_idle [OF sw lock] by blast
  let ?b = "c\<lparr>ct_locked := w\<rparr>"
  have "\<forall>call. callOf (ls_pc (ct_locked c) 0) = Some call \<longrightarrow> safeCall E call"
    using assms(4) inv by (auto simp: calm_def heldCall_def ctlInv_def workerInv_def split: worker.splits)
  with quiet_panicked [OF sw w(1)] lock assms(4) have calm: "\<not> panicked w" by (simp add: calm_def)
  have b: "(ctlStep E sw cl)\<^sup>*\<^sup>* c ?b" by (rule ctl_lift [OF w(1)])
  have reach_b: "ctlReachable E sw cl ?b" by (rule ctl_reach [OF reach b])
  have inv_b: "ctlInv E sw cl ?b" by (rule ctlReachable_inv [OF sorts reach_b])
  show ?thesis
  proof (cases "ct_worker c")
    case Idle
    then show ?thesis using b w(2) calm by (intro exI [of _ ?b]) (simp add: resting_def)
  next
    case (Fetching k)
    have "ctlStep E sw cl ?b (?b\<lparr>ct_worker := Fetched k (clusterGet ?b k)\<rparr>)" using Fetching by (intro ctlStep.fetch) simp
    with b have a: "(ctlStep E sw cl)\<^sup>*\<^sup>* c (?b\<lparr>ct_worker := Fetched k (clusterGet ?b k)\<rparr>)" by (rule rtranclp.rtrancl_into_rtrancl)
    obtain call where call: "reconcileCall k (clusterGet ?b k) = Some call" "safeCall E call"
      using safe_fetch [OF inv_b, of k] assms(4) by (auto simp: calm_def)
    from fetched_rests [OF sw reach sorts a _ _ _ call] w(2) calm show ?thesis by simp
  next
    case (Fetched k got)
    then have "\<nexists>e. got = GetFailed e" using inv by (simp add: ctlInv_def workerInv_def fresh_def)
    then obtain call where call: "reconcileCall k got = Some call" by (cases got) (auto simp: reconcileCall_def)
    then have "safeCall E call" using assms(4) Fetched by (simp add: calm_def heldCall_def)
    from fetched_rests [OF sw reach sorts b _ _ _ call this] w(2) calm Fetched show ?thesis by simp
  next
    case (Storing k)
    have "ctlStep E sw cl ?b (?b\<lparr>ct_worker := Idle\<rparr>)"
      using Storing w(2) calm by (intro ctlStep.finished) (auto simp: idle_def)
    with b have "(ctlStep E sw cl)\<^sup>*\<^sup>* c (?b\<lparr>ct_worker := Idle\<rparr>)" by (rule rtranclp.rtrancl_into_rtrancl)
    then show ?thesis using w(2) calm by (intro exI [of _ "?b\<lparr>ct_worker := Idle\<rparr>"]) (simp add: resting_def)
  qed
qed

lemma ctl_queries:
  assumes sw: "swapsInRange sw" and sorts: "sortsByTier (sortingBy E sw)"
  shows "ctlReachable E sw cl c \<Longrightarrow> idle (ct_locked c) \<Longrightarrow> \<forall>(t, call) \<in> set cs. t \<noteq> 0 \<and> readsOnly call \<Longrightarrow>
    \<exists>w. (ctlStep E sw cl)\<^sup>*\<^sup>* c (c\<lparr>ct_locked := w\<rparr>) \<and> idle w \<and>
      map (\<lambda>(t, call, out). (t, call)) (ls_log w) = map (\<lambda>(t, call, out). (t, call)) (ls_log (ct_locked c)) @ cs"
proof (induction cs arbitrary: c)
  case Nil
  then show ?case by (intro exI [of _ "ct_locked c"]) simp
next
  case (Cons tc cs)
  obtain t call where tc: "tc = (t, call)" by (rule prod.exhaust)
  have t: "t \<noteq> 0" "readsOnly call" using Cons.prems(3) tc by simp_all
  have lock: "lockReachable E sw cl (ct_locked c)"
    using ctlReachable_inv [OF sorts Cons.prems(1)] by (simp add: ctlInv_def)
  obtain w out where w: "(ctlStep E sw cl)\<^sup>*\<^sup>* c (c\<lparr>ct_locked := w\<rparr>)" "idle w"
      "ls_log w = ls_log (ct_locked c) @ [(t, call, out)]"
    using ctl_query [OF sw lock Cons.prems(2) t] by blast
  from Cons.IH [OF ctl_reach [OF Cons.prems(1) w(1)]] w(2) Cons.prems(3)
  obtain w' where w': "(ctlStep E sw cl)\<^sup>*\<^sup>* (c\<lparr>ct_locked := w\<rparr>) (c\<lparr>ct_locked := w'\<rparr>)" "idle w'"
      "map (\<lambda>(t, call, out). (t, call)) (ls_log w') = map (\<lambda>(t, call, out). (t, call)) (ls_log w) @ cs"
    by auto
  show ?case using rtranclp_trans [OF w(1) w'(1)] w'(2,3) w(3) tc by (intro exI [of _ w']) simp
qed

end
