(* ===== verification/ControlProps.thy ===== *)
theory ControlProps imports ControlRuns begin

text \<open>
  What users, controller and webhooks achieve together on the shared store: the store follows
  the cluster, the controller catches up from every state, and a request is answered by the
  rules of the cluster.
\<close>

section \<open>Convergence and admission\<close>

lemma inSync_sortingBy: "inSync (sortingBy E sw) = inSync E"
  unfolding inSync_def [abs_def] NewModRuleStoreItem_sortingBy ..

lemma sysInv_sortingBy: "sysInv (sortingBy E sw) \<sigma> \<longleftrightarrow> sysInv E \<sigma>"
  unfolding sysInv_def inSync_sortingBy ..

text \<open>
  C7: the shared store follows the cluster. In every state that users, the worker and the
  webhooks can reach together, taking the worker's runs apart into fetch, call and the steps under the
  lock: every key that is neither queued nor being worked on is in sync, whatever stale rules
  the worker has fetched on the way; and while the worker does not hold the lock, the arrays in
  memory represent the store of which this is said.
\<close>

theorem shared_store_converges:
  assumes "swapsInRange sw" and "sortsByTier (sortingBy E sw)" and "ctlReachable E sw cl c"
  shows "(\<forall>k. k \<notin> unsettled c \<longrightarrow> inSync E (settledView E sw cl c) k) \<and>
    (ls_writer (ct_locked c) = None \<longrightarrow>
      memRep (ls_memory (ct_locked c)) (modRuleListMap (sys_store (settledView E sw cl c))))"
proof -
  have inv: "ctlInv E sw cl c" by (rule ctlReachable_inv [OF assms(2,3)])
  then have "\<forall>k. k \<notin> unsettled c \<longrightarrow> inSync (sortingBy E sw) (settledView E sw cl c) k"
    by (simp add: ctlInv_def sysInv_def settledView_def del: split_paired_All)
  moreover have "inSync (sortingBy E sw) = inSync E" by (rule inSync_sortingBy)
  moreover have "lockInv E sw cl (ct_locked c)" using inv by (auto simp: ctlInv_def intro: reachable_inv assms(1))
  ultimately show ?thesis by (simp add: lockInv_def settledView_def)
qed

text \<open>
  C2: users, controller and webhooks together. Users write rules to the cluster; the worker
  compiles them into the shared store; webhooks query it; all in small steps, in any order. When the
  worker has nothing left to do and every rule of the cluster compiles, a request whose queries have
  all seen the store as it is, and whose object was patched to the document \<open>v\<close>, has been denied exactly when the cluster holds a Reject rule that is for the request's operation and namespace,
  is in neither of the two extreme tiers, and whose match items hold of \<open>v\<close>, with the messages of just those rules. It is assumed that
  no query and no message template of a rule of the cluster panics on \<open>v\<close>.
\<close>

theorem concurrent_admission:
  assumes "swapsInRange sw" and "sortsByTier (sortingBy E sw)" and "ctlReachable E sw cl c" and "unsettled c = {}"
    and "\<forall>k r. ct_cluster c k = Some r \<longrightarrow> isOk (NewModRuleStoreItem E r) \<and> selectsSafe E r v \<and>
      messageSafe (requestNamespace req) v (projr (NewModRuleStoreItem E r))"
    and "dragnetCall E K req (answersOf t (ls_log (ct_locked c))) = Some resp"
    and "\<forall>(q, s) \<in> set (queriesOf (sortingBy E sw) (NewModRuleStore cl) t (ls_log (ct_locked c))). s = storeNow E sw cl (ct_locked c)"
    and "injectSyntheticRefs K (requestObject req) (requestNamespace req) = Inr obj"
    and "patchCall E (req_Operation req) (requestNamespace req) obj (answersOf t (ls_log (ct_locked c))) = Some (Inr (v, ops), rest)"
  shows "\<exists>ms. set ms = (\<lambda>r. rejectionText (requestNamespace req) v (projr (NewModRuleStoreItem E r))) `
      {r. (\<exists>k. ct_cluster c k = Some r) \<and> rejects E cl (req_Operation req) (requestNamespace req) v r} \<and>
    resp = Inr (dragnetVerdict ms ops)"
proof -
  let ?\<sigma> = "settledView E sw cl c"
  have inv: "ctlInv E sw cl c" by (rule ctlReachable_inv [OF assms(2,3)])
  then have reach: "lockReachable E sw cl (ct_locked c)" and sys: "sysInv E ?\<sigma>"
    by (simp_all add: ctlInv_def sysInv_sortingBy)
  have store: "sys_store ?\<sigma> = storeNow E sw cl (ct_locked c)" "sys_cluster ?\<sigma> = ct_cluster c" "sys_queue ?\<sigma> = {}"
    using assms(4) by (simp_all add: settledView_def)
  have call: "patchCall E (req_Operation req) (requestNamespace req) obj
      (answersFrom (queriesOf (sortingBy E sw) (NewModRuleStore cl) t (ls_log (ct_locked c)))) = Some (Inr (v, ops), rest)"
    using assms(9) answersOf_from [OF assms(1) reach] by simp
  from patchCall_same(1) [OF call assms(7)] have patch:
    "CalculatePatch E (sys_store ?\<sigma>) (req_Operation req) (requestNamespace req) obj = Inr (v, ops)" by (simp add: store)
  have "clusterModRulesNamespace (sys_store ?\<sigma>) = cl" by (simp add: store storeNow_cluster)
  from settled_admission [OF sys store(3) this assms(5) [folded store(2)] assms(8) patch]
  show ?thesis
    using dragnet_same [OF assms(1) reach assms(6,7)] by (simp add: store)
qed

text \<open>
  C13: the controller catches up. From every state that users, the worker and the webhooks can
  reach, with the worker anywhere in a run and any goroutine anywhere in a call: if no rule of the
  cluster, nor the one the worker holds, makes a compiler panic, then the calls under way
  can be finished and the queue worked off, without another change to the cluster, and the
  shared store ends in sync with the cluster on every key.
\<close>

theorem controller_catches_up:
  assumes "swapsInRange sw" and "sortsByTier (sortingBy E sw)" and "ctlReachable E sw cl c" and "calm E c"
  shows "\<exists>d. (ctlStep E sw cl)\<^sup>*\<^sup>* c d \<and> unsettled d = {} \<and> idle (ct_locked d) \<and> ct_cluster d = ct_cluster c \<and>
    (\<forall>k. inSync E (settledView E sw cl d) k)"
proof -
  obtain b where b: "(ctlStep E sw cl)\<^sup>*\<^sup>* c b" "resting b" "ct_cluster b = ct_cluster c"
    using worker_rests [OF assms(1,3,2,4)] by blast
  have reach: "ctlReachable E sw cl b" by (rule ctl_reach [OF assms(3) b(1)])
  have safe: "\<forall>k r. ct_cluster b k = Some r \<longrightarrow> noPanic (NewModRuleStoreItem E r)" using assms(4) b(3) by (simp add: calm_def)
  obtain d where d: "(ctlStep E sw cl)\<^sup>*\<^sup>* b d" "resting d" "ct_queue d = {}" "ct_cluster d = ct_cluster b"
    using worker_drains [OF assms(1,2) queue_finite [OF ctlReachable_inv [OF assms(2) reach]] reach b(2) refl safe] by blast
  have settled: "unsettled d = {}" using d(2,3) by (simp add: unsettled_def resting_def)
  have "sysInv E (settledView E sw cl d)"
    using ctlReachable_inv [OF assms(2) ctl_reach [OF reach d(1)]] by (simp add: ctlInv_def sysInv_sortingBy)
  then have "\<forall>k. inSync E (settledView E sw cl d) k"
    using settled by (simp add: sysInv_def settledView_def del: split_paired_All)
  with rtranclp_trans [OF b(1) d(1)] d(2,4) b(3) settled show ?thesis by (auto simp: resting_def simp del: split_paired_All)
qed

section \<open>A rule on its way\<close>

text \<open>
  A user creates a rule; the worker stores it; a webhook handles a request, while another
  goroutine asks for the statistics.
\<close>

definition createdCtl :: ctl where
  "createdCtl = \<lparr>ct_cluster = [(''a'', ''r'') \<mapsto> rejectRule ''a'' ''r'' 3 [kindIs ''Pod'']], ct_queue = {(''a'', ''r'')},
     ct_worker = Idle, ct_locked = emptyStore\<rparr>"

lemma createdCtl_reachable: "ctlReachable E sw cl createdCtl"
proof -
  have "ctlReachable E sw cl (\<lparr>ct_cluster = Map.empty, ct_queue = {}, ct_worker = Idle, ct_locked = emptyStore\<rparr>
      \<lparr>ct_cluster := Map.empty((''a'', ''r'') \<mapsto> rejectRule ''a'' ''r'' 3 [kindIs ''Pod'']), ct_queue := insert (''a'', ''r'') {}\<rparr>)"
    using ctlReachable.step [OF ctlReachable.start ctlStep.userPut, of E sw cl "rejectRule ''a'' ''r'' 3 [kindIs ''Pod'']"]
    by (simp add: rejectRule_fields)
  then show ?thesis by (simp add: createdCtl_def)
qed

lemma createdCtl_calm: "calm sampleEnv createdCtl"
  by (simp add: calm_def createdCtl_def panicked_def emptyStore_def heldCall_def rejectItem_compiled)

definition servingCalls :: "(nat \<times> storeCall) list" where
  "servingCalls = [(2, QueryCall (patchQuery ''CREATE'' ''a'' MinInt16 aPod)), (2, QueryCall (patchQuery ''CREATE'' ''a'' (toInt16 3) aPod)),
     (3, StatsCall),
     (2, QueryCall (rejectQuery ''CREATE'' ''a'' MinInt16 aPod)), (2, QueryCall (rejectQuery ''CREATE'' ''a'' (toInt16 3) aPod))]"

lemma served:
  "\<exists>c. ctlReachable sampleEnv insertionSwaps ''km'' c \<and> unsettled c = {} \<and> ct_cluster c = ct_cluster createdCtl \<and>
     ls_log (ct_locked c) = logOf (sortingBy sampleEnv insertionSwaps) (NewModRuleStore ''km'')
       ((0, PutCall (rejectRule ''a'' ''r'' 3 [kindIs ''Pod''])) # servingCalls)"
proof -
  let ?r = "rejectRule ''a'' ''r'' 3 [kindIs ''Pod'']" and ?E = "sortingBy sampleEnv insertionSwaps"
  let ?reach = "ctlReachable sampleEnv insertionSwaps ''km''" and ?calls = "map (\<lambda>(t, call, out). (t, call))"
  have "resting createdCtl" "(''a'', ''r'') \<in> ct_queue createdCtl"
    by (simp_all add: resting_def createdCtl_def idle_def emptyStore_def panicked_def)
  moreover have "\<forall>k r. ct_cluster createdCtl k = Some r \<longrightarrow> noPanic (NewModRuleStoreItem sampleEnv r)"
    using createdCtl_calm by (simp add: calm_def)
  moreover have "reconcileCall (''a'', ''r'') (clusterGet createdCtl (''a'', ''r'')) = Some (PutCall ?r)"
    by (simp add: reconcileCall_def clusterGet_def createdCtl_def rejectRule_def)
  ultimately obtain b out where b: "(ctlStep sampleEnv insertionSwaps ''km'')\<^sup>*\<^sup>* createdCtl b" "resting b" "ct_queue b = {}"
      "ct_cluster b = ct_cluster createdCtl" "ls_log (ct_locked b) = [(0, PutCall ?r, out)]"
    using worker_round [where E = sampleEnv and cl = "''km''" and k = "(''a'', ''r'')",
        OF insertionSwaps_range createdCtl_reachable sortsByTier_insertionSwaps]
    by (auto simp: createdCtl_def emptyStore_def)
  have reach: "?reach b" by (rule ctl_reach [OF createdCtl_reachable b(1)])
  obtain w where w: "(ctlStep sampleEnv insertionSwaps ''km'')\<^sup>*\<^sup>* b (b\<lparr>ct_locked := w\<rparr>)" "idle w"
      "?calls (ls_log w) = (0, PutCall ?r) # servingCalls"
    using ctl_queries [OF insertionSwaps_range sortsByTier_insertionSwaps reach, of servingCalls] b(2,5)
    by (auto simp: resting_def servingCalls_def)
  let ?c = "b\<lparr>ct_locked := w\<rparr>"
  have c: "?reach ?c" by (rule ctl_reach [OF reach w(1)])
  then have "lockReachable sampleEnv insertionSwaps ''km'' w"
    using ctlReachable_inv [OF sortsByTier_insertionSwaps c] by (simp add: ctlInv_def)
  then have "replays ?E (NewModRuleStore ''km'') (ls_log w)"
    using reachable_inv [OF _ insertionSwaps_range] by (auto simp: lockInv_def)
  from replays_logOf [OF this] have "ls_log w = logOf ?E (NewModRuleStore ''km'') ((0, PutCall ?r) # servingCalls)"
    by (simp only: w(3))
  then show ?thesis using c b(2,3,4) by (intro exI [of _ ?c]) (simp add: unsettled_def resting_def)
qed

lemma served_store:
  assumes "ls_log w = logOf (sortingBy sampleEnv insertionSwaps) (NewModRuleStore ''km'')
       ((0, PutCall (rejectRule ''a'' ''r'' 3 [kindIs ''Pod''])) # servingCalls)"
  shows "storeNow sampleEnv insertionSwaps ''km'' w = sharedStore"
    "queriesOf (sortingBy sampleEnv insertionSwaps) (NewModRuleStore ''km'') 2 (ls_log w) = dragnetQueries"
  by (simp_all add: assms storeNow_def servingCalls_def shared_put query_atomic stats_atomic dragnetQueries_def)

lemma shared_store_converges_witness:
  "\<exists>c. ctlReachable sampleEnv insertionSwaps ''km'' c \<and>
     lookupRule (sys_store (settledView sampleEnv insertionSwaps ''km'' c)) (''a'', ''r'') = Some (rejectItem ''a'' ''r'' 3 [kindIs ''Pod''])"
proof -
  obtain c where c: "ctlReachable sampleEnv insertionSwaps ''km'' c" "unsettled c = {}" "ct_cluster c = ct_cluster createdCtl"
    using served by blast
  from shared_store_converges [OF insertionSwaps_range sortsByTier_insertionSwaps c(1)] c(2)
  have "inSync sampleEnv (settledView sampleEnv insertionSwaps ''km'' c) (''a'', ''r'')" by blast
  then show ?thesis
    using c(1,3) by (auto simp: inSync_def settledView_def createdCtl_def rejectItem_compiled)
qed

lemma concurrent_admission_witness:
  "\<exists>c ms. ctlReachable sampleEnv insertionSwaps ''km'' c \<and>
     dragnetCall sampleEnv sampleK8s createPod (answersOf 2 (ls_log (ct_locked c))) = Some (Inr (dragnetVerdict ms [])) \<and>
     set ms = {rejectionText ''a'' aPod (rejectItem ''a'' ''r'' 3 [kindIs ''Pod''])}"
proof -
  let ?r = "rejectRule ''a'' ''r'' 3 [kindIs ''Pod'']" and ?x = "rejectItem ''a'' ''r'' 3 [kindIs ''Pod'']"
  let ?E = "sortingBy sampleEnv insertionSwaps"
  obtain c where c: "ctlReachable sampleEnv insertionSwaps ''km'' c" "unsettled c = {}" "ct_cluster c = ct_cluster createdCtl"
      "ls_log (ct_locked c) = logOf ?E (NewModRuleStore ''km'') ((0, PutCall ?r) # servingCalls)"
    using served by blast
  have "lockReachable sampleEnv insertionSwaps ''km'' (ct_locked c)"
    using ctlReachable_inv [OF sortsByTier_insertionSwaps c(1)] by (simp add: ctlInv_def)
  from answersOf_from [OF insertionSwaps_range this, of 2] have answers: "answersOf 2 (ls_log (ct_locked c)) = answersFrom dragnetQueries"
    by (simp only: served_store(2) [OF c(4)])
  have rules: "(\<exists>k. ct_cluster c k = Some r) \<longleftrightarrow> r = ?r" for r by (auto simp: c(3) createdCtl_def split: if_splits)
  have "rejects sampleEnv ''km'' ''CREATE'' ''a'' aPod ?r"
    by (simp add: rejects_def concerns_def reject_eval ModRuleTypeReject_def ruleHolds_def less_int16_def i16_toInt16)
  then have rejecting: "{r. (\<exists>k. ct_cluster c k = Some r) \<and> rejects sampleEnv ''km'' ''CREATE'' ''a'' aPod r} = {?r}"
    unfolding rules by blast
  have "\<forall>k r. ct_cluster c k = Some r \<longrightarrow> isOk (NewModRuleStoreItem sampleEnv r) \<and> selectsSafe sampleEnv r aPod \<and>
      messageSafe (requestNamespace createPod) aPod (projr (NewModRuleStoreItem sampleEnv r))"
    by (auto simp: c(3) createdCtl_def createPod_fields rejectItem_compiled isOk_def selectsSafe_def messageSafe_def reject_eval
        split: if_splits)
  moreover have "\<forall>(q, s) \<in> set (queriesOf ?E (NewModRuleStore ''km'') 2 (ls_log (ct_locked c))). s = storeNow sampleEnv insertionSwaps ''km'' (ct_locked c)"
    unfolding served_store [OF c(4)] by (simp add: dragnetQueries_def)
  moreover have "patchCall sampleEnv (req_Operation createPod) (requestNamespace createPod) ''Pod'' (answersOf 2 (ls_log (ct_locked c))) =
      Some (Inr (aPod, []), answersFrom (drop 2 dragnetQueries))"
    by (simp only: createPod_fields answers dragnet_patch)
  ultimately obtain ms where ms: "set ms = (\<lambda>r. rejectionText (requestNamespace createPod) aPod (projr (NewModRuleStoreItem sampleEnv r))) `
      {r. (\<exists>k. ct_cluster c k = Some r) \<and> rejects sampleEnv ''km'' (req_Operation createPod) (requestNamespace createPod) aPod r}"
      "Inr (dragnetVerdict [rejectionText ''a'' aPod ?x] []) = (Inr (dragnetVerdict ms []) :: string response res)"
    using concurrent_admission [OF insertionSwaps_range sortsByTier_insertionSwaps c(1,2) _
        dragnet_response [folded answers] _ createPod_injected] by blast
  have "set ms = {rejectionText ''a'' aPod ?x}"
    unfolding ms(1) createPod_fields rejecting by (simp add: rejectItem_compiled)
  then show ?thesis using c(1) dragnet_response ms(2) unfolding answers [symmetric] by metis
qed

lemma controller_catches_up_witness:
  "\<exists>d. (ctlStep sampleEnv insertionSwaps ''km'')\<^sup>*\<^sup>* createdCtl d \<and> unsettled d = {} \<and>
     lookupRule (sys_store (settledView sampleEnv insertionSwaps ''km'' d)) (''a'', ''r'') = Some (rejectItem ''a'' ''r'' 3 [kindIs ''Pod''])"
proof -
  obtain d where d: "(ctlStep sampleEnv insertionSwaps ''km'')\<^sup>*\<^sup>* createdCtl d" "unsettled d = {}"
      "ct_cluster d = ct_cluster createdCtl" "\<forall>k. inSync sampleEnv (settledView sampleEnv insertionSwaps ''km'' d) k"
    using controller_catches_up [OF insertionSwaps_range sortsByTier_insertionSwaps createdCtl_reachable createdCtl_calm] by blast
  from d(4) have "inSync sampleEnv (settledView sampleEnv insertionSwaps ''km'' d) (''a'', ''r'')" by blast
  then show ?thesis
    using d(1,2,3) by (auto simp: inSync_def settledView_def createdCtl_def rejectItem_compiled)
qed

end
