(* ===== verification/Flags.thy ===== *)
theory Flags imports MainRun begin

text \<open>
  The command line (src/main.go, \<open>main\<close>): the eight flags with their defaults, parsed by the
  standard library's \<open>flag\<close> package into the \<open>Config\<close> that \<open>run\<close> is given. Flags that other
  packages register on the same set (controller-runtime's \<open>kubeconfig\<close>) are the parameter
  \<open>others\<close>: whether the flag is a boolean one, and the values it accepts.
\<close>

section \<open>The flags of the program\<close>

datatype flagKind =
    BoolVar "bool \<Rightarrow> config \<Rightarrow> config"
  | StringVar "string \<Rightarrow> config \<Rightarrow> config"

definition defaultConfig :: config where
  "defaultConfig = \<lparr>RunOperator = False, RunWebApp = False, WebAppAddr = '':8081'', OperatorMetricsAddr = '':8082'',
     OperatorHealthProbeAddr = '':8083'', ClusterModRulesNamespace = ''kubemod-system'',
     EnableLeaderElection = False, EnableDevModeLog = False\<rparr>"

definition configFlags :: "string \<rightharpoonup> flagKind" where
  "configFlags = [
     ''operator'' \<mapsto> BoolVar (\<lambda>b c. c\<lparr>RunOperator := b\<rparr>),
     ''webapp'' \<mapsto> BoolVar (\<lambda>b c. c\<lparr>RunWebApp := b\<rparr>),
     ''webapp-addr'' \<mapsto> StringVar (\<lambda>s c. c\<lparr>WebAppAddr := s\<rparr>),
     ''operator-metrics-addr'' \<mapsto> StringVar (\<lambda>s c. c\<lparr>OperatorMetricsAddr := s\<rparr>),
     ''operator-health-probe-addr'' \<mapsto> StringVar (\<lambda>s c. c\<lparr>OperatorHealthProbeAddr := s\<rparr>),
     ''cluster-modrules-namespace'' \<mapsto> StringVar (\<lambda>s c. c\<lparr>ClusterModRulesNamespace := s\<rparr>),
     ''enable-leader-election'' \<mapsto> BoolVar (\<lambda>b c. c\<lparr>EnableLeaderElection := b\<rparr>),
     ''enable-dev-mode-log'' \<mapsto> BoolVar (\<lambda>b c. c\<lparr>EnableDevModeLog := b\<rparr>)]"

section \<open>flag.Parse\<close>

text \<open>\<open>strconv.ParseBool\<close>.\<close>

definition ParseBool :: "string \<Rightarrow> bool option" where
  "ParseBool s =
     (if s \<in> {''1'', ''t'', ''T'', ''true'', ''TRUE'', ''True''} then Some True
      else if s \<in> {''0'', ''f'', ''F'', ''false'', ''FALSE'', ''False''} then Some False
      else None)"

record otherFlag =
  of_isBool :: bool
  of_accepts :: "string \<Rightarrow> bool"

type_synonym otherFlags = "string \<rightharpoonup> otherFlag"

text \<open>
  \<open>flag.Parse\<close> on an \<open>ExitOnError\<close> set leaves the arguments after the flags, or ends the
  process: with 0 when help is asked for, with 2 on an error.
\<close>

datatype flagOutcome = Parsed config "string list" | Exits int

text \<open>A flag's name, and its value when it has one: the text is cut at the first \<open>=\<close> after its first byte.\<close>

definition splitFlag :: "string \<Rightarrow> string \<times> string option" where
  "splitFlag s =
     (let name = hd s # takeWhile (\<lambda>c. c \<noteq> CHR ''='') (tl s);
          rest = dropWhile (\<lambda>c. c \<noteq> CHR ''='') (tl s)
      in (name, if rest = [] then None else Some (tl rest)))"

text \<open>What a flag of the name is, and what setting it to a value does; \<open>None\<close> is an error of \<open>Set\<close>.\<close>

definition isBoolFlag :: "otherFlags \<Rightarrow> string \<Rightarrow> bool option" where
  "isBoolFlag others name =
     (case configFlags name of
        Some (BoolVar f) \<Rightarrow> Some True
      | Some (StringVar f) \<Rightarrow> Some False
      | None \<Rightarrow> map_option of_isBool (others name))"

definition setFlag :: "otherFlags \<Rightarrow> string \<Rightarrow> string \<Rightarrow> config \<Rightarrow> config option" where
  "setFlag others name v cfg =
     (case configFlags name of
        Some (BoolVar f) \<Rightarrow> map_option (\<lambda>b. f b cfg) (ParseBool v)
      | Some (StringVar f) \<Rightarrow> Some (f v cfg)
      | None \<Rightarrow> (case others name of
            Some fl \<Rightarrow> if of_accepts fl v then Some cfg else None
          | None \<Rightarrow> None))"

definition isHelp :: "string \<Rightarrow> bool" where
  "isHelp name \<longleftrightarrow> name = ''help'' \<or> name = ''h''"

text \<open>The text of a flag without its one or two dashes; \<open>None\<close> for an argument that is no flag.\<close>

definition flagBody :: "string \<Rightarrow> string option" where
  "flagBody s =
     (if length s < 2 \<or> hd s \<noteq> CHR ''-'' then None
      else Some (if s ! 1 = CHR ''-'' then drop 2 s else drop 1 s))"

definition badSyntax :: "string \<Rightarrow> bool" where
  "badSyntax name \<longleftrightarrow> name = [] \<or> hd name = CHR ''-'' \<or> hd name = CHR ''=''"

text \<open>
  The loop of \<open>Parse\<close>: two dashes alone end the flags, a boolean flag takes no further argument,
  any other takes the next one when it has no value of its own.
\<close>

fun parseFlags :: "otherFlags \<Rightarrow> string list \<Rightarrow> config \<Rightarrow> flagOutcome" where
  "parseFlags others [] cfg = Parsed cfg []"
| "parseFlags others (s # args) cfg =
     (case flagBody s of
        None \<Rightarrow> Parsed cfg (s # args)
      | Some body \<Rightarrow>
          if s = ''--'' then Parsed cfg args
          else if badSyntax body then Exits 2
          else (case splitFlag body of (name, v) \<Rightarrow>
            (case isBoolFlag others name of
               None \<Rightarrow> Exits (if isHelp name then 0 else 2)
             | Some True \<Rightarrow>
                 (case setFlag others name (case v of Some x \<Rightarrow> x | None \<Rightarrow> ''true'') cfg of
                    None \<Rightarrow> Exits 2
                  | Some cfg' \<Rightarrow> parseFlags others args cfg')
             | Some False \<Rightarrow>
                 (case v of
                    Some x \<Rightarrow> (case setFlag others name x cfg of
                        None \<Rightarrow> Exits 2
                      | Some cfg' \<Rightarrow> parseFlags others args cfg')
                  | None \<Rightarrow> (case args of
                        [] \<Rightarrow> Exits 2
                      | x # args' \<Rightarrow> (case setFlag others name x cfg of
                            None \<Rightarrow> Exits 2
                          | Some cfg' \<Rightarrow> parseFlags others args' cfg'))))))"

section \<open>The program\<close>

text \<open>The exit code of the process: of a command line that ends it, or of a run to its end.\<close>

definition mainExits :: "otherFlags \<Rightarrow> (app \<Rightarrow> string option) \<Rightarrow> string list \<Rightarrow> int \<Rightarrow> bool" where
  "mainExits others outcome args code \<longleftrightarrow>
     (case parseFlags others args defaultConfig of
        Exits c \<Rightarrow> code = c
      | Parsed cfg rest \<Rightarrow> \<exists>\<sigma> r. runs cfg outcome \<sigma> \<and> mainGo \<sigma> = Returned r \<and> code = exitCode r)"

section \<open>Writing a configuration as arguments\<close>

definition boolText :: "bool \<Rightarrow> string" where
  "boolText b = (if b then ''true'' else ''false'')"

definition flagArg :: "string \<Rightarrow> string \<Rightarrow> string" where
  "flagArg name v = CHR ''-'' # name @ CHR ''='' # v"

definition configArgs :: "config \<Rightarrow> string list" where
  "configArgs cfg =
     [flagArg ''operator'' (boolText (RunOperator cfg)), flagArg ''webapp'' (boolText (RunWebApp cfg)),
      flagArg ''webapp-addr'' (WebAppAddr cfg), flagArg ''operator-metrics-addr'' (OperatorMetricsAddr cfg),
      flagArg ''operator-health-probe-addr'' (OperatorHealthProbeAddr cfg),
      flagArg ''cluster-modrules-namespace'' (ClusterModRulesNamespace cfg),
      flagArg ''enable-leader-election'' (boolText (EnableLeaderElection cfg)),
      flagArg ''enable-dev-mode-log'' (boolText (EnableDevModeLog cfg))]"

definition plainName :: "string \<Rightarrow> bool" where
  "plainName name \<longleftrightarrow> name \<noteq> [] \<and> hd name \<noteq> CHR ''-'' \<and> CHR ''='' \<notin> set name"

lemma splitFlag_value: "plainName name \<Longrightarrow> splitFlag (name @ CHR ''='' # v) = (name, Some v)"
  by (cases name) (auto simp: plainName_def splitFlag_def Let_def takeWhile_append dropWhile_append takeWhile_eq_all_conv)

lemma splitFlag_name: "plainName name \<Longrightarrow> splitFlag name = (name, None)"
  by (cases name) (auto simp: plainName_def splitFlag_def Let_def takeWhile_eq_all_conv)

lemma flagBody_dash: "plainName name \<Longrightarrow> flagBody (CHR ''-'' # name @ t) = Some (name @ t)"
  by (cases name) (auto simp: flagBody_def plainName_def)

lemma plainName_syntax: "plainName name \<Longrightarrow> \<not> badSyntax (name @ t) \<and> CHR ''-'' # name @ t \<noteq> ''--''"
  by (cases name) (auto simp: badSyntax_def plainName_def)

lemma parse_flagArg:
  assumes "plainName name" and "isBoolFlag others name = Some b" and "setFlag others name v cfg = Some cfg'"
  shows "parseFlags others (flagArg name v # args) cfg = parseFlags others args cfg'"
  using assms flagBody_dash [OF assms(1), of "CHR ''='' # v"] plainName_syntax [OF assms(1), of "CHR ''='' # v"]
  by (cases b) (simp_all add: flagArg_def splitFlag_value)

lemma configFlags_lookup:
  "configFlags ''operator'' = Some (BoolVar (\<lambda>b c. c\<lparr>RunOperator := b\<rparr>))"
  "configFlags ''webapp'' = Some (BoolVar (\<lambda>b c. c\<lparr>RunWebApp := b\<rparr>))"
  "configFlags ''webapp-addr'' = Some (StringVar (\<lambda>s c. c\<lparr>WebAppAddr := s\<rparr>))"
  "configFlags ''operator-metrics-addr'' = Some (StringVar (\<lambda>s c. c\<lparr>OperatorMetricsAddr := s\<rparr>))"
  "configFlags ''operator-health-probe-addr'' = Some (StringVar (\<lambda>s c. c\<lparr>OperatorHealthProbeAddr := s\<rparr>))"
  "configFlags ''cluster-modrules-namespace'' = Some (StringVar (\<lambda>s c. c\<lparr>ClusterModRulesNamespace := s\<rparr>))"
  "configFlags ''enable-leader-election'' = Some (BoolVar (\<lambda>b c. c\<lparr>EnableLeaderElection := b\<rparr>))"
  "configFlags ''enable-dev-mode-log'' = Some (BoolVar (\<lambda>b c. c\<lparr>EnableDevModeLog := b\<rparr>))"
  by (simp_all add: configFlags_def)

lemma plainName_flags:
  "plainName ''operator''" "plainName ''webapp''" "plainName ''webapp-addr''" "plainName ''operator-metrics-addr''"
  "plainName ''operator-health-probe-addr''" "plainName ''cluster-modrules-namespace''"
  "plainName ''enable-leader-election''" "plainName ''enable-dev-mode-log''"
  by (simp_all add: plainName_def)

lemma ParseBool_boolText: "ParseBool (boolText b) = Some b"
  by (simp add: ParseBool_def boolText_def)

lemma parse_bool:
  "plainName name \<Longrightarrow> configFlags name = Some (BoolVar f) \<Longrightarrow>
   parseFlags others (flagArg name (boolText b) # args) cfg = parseFlags others args (f b cfg)"
  by (rule parse_flagArg) (simp_all add: isBoolFlag_def setFlag_def ParseBool_boolText)

lemma parse_string:
  "plainName name \<Longrightarrow> configFlags name = Some (StringVar f) \<Longrightarrow>
   parseFlags others (flagArg name v # args) cfg = parseFlags others args (f v cfg)"
  by (rule parse_flagArg [where b = False]) (simp_all add: isBoolFlag_def setFlag_def)

lemmas parse_configArgs = parse_bool [OF plainName_flags(1) configFlags_lookup(1)]
  parse_bool [OF plainName_flags(2) configFlags_lookup(2)] parse_string [OF plainName_flags(3) configFlags_lookup(3)]
  parse_string [OF plainName_flags(4) configFlags_lookup(4)] parse_string [OF plainName_flags(5) configFlags_lookup(5)]
  parse_string [OF plainName_flags(6) configFlags_lookup(6)] parse_bool [OF plainName_flags(7) configFlags_lookup(7)]
  parse_bool [OF plainName_flags(8) configFlags_lookup(8)]

lemma parse_rest: "rest = [] \<or> flagBody (hd rest) = None \<Longrightarrow> parseFlags others rest cfg = Parsed cfg rest"
  by (cases rest) auto

text \<open>
  C34: every configuration can be given on the command line. The eight flags written as
  \<open>-name=value\<close> parse back to the configuration they were written from, whatever the
  addresses and the namespace contain (dashes and equal signs too), whatever flags other
  packages register, and whatever the configuration held before; parsing stops at the first
  argument that is no flag.
\<close>

theorem config_roundtrip:
  assumes "rest = [] \<or> flagBody (hd rest) = None"
  shows "parseFlags others (configArgs cfg @ rest) start = Parsed cfg rest"
  using parse_rest [OF assms] by (simp add: configArgs_def parse_configArgs del: parseFlags.simps)

lemma config_roundtrip_witness:
  "parseFlags Map.empty (configArgs (defaultConfig\<lparr>RunOperator := True, WebAppAddr := ''-a=b''\<rparr>) @ [''x'']) defaultConfig =
     Parsed (defaultConfig\<lparr>RunOperator := True, WebAppAddr := ''-a=b''\<rparr>) [''x'']"
  using config_roundtrip [of "[''x'']"] by (simp add: flagBody_def)

section \<open>The command line as a grammar\<close>

text \<open>
  The settings of a command line, in the three forms that a flag can be given in, and their effect on
  the configuration; a name may follow one dash or two.
\<close>

definition dashes :: "string set" where
  "dashes = {''-'', ''--''}"

inductive settings :: "otherFlags \<Rightarrow> config \<Rightarrow> string list \<Rightarrow> config \<Rightarrow> bool"
  for others :: otherFlags where
  none: "settings others cfg [] cfg"
| joined: "d \<in> dashes \<Longrightarrow> plainName name \<Longrightarrow> isBoolFlag others name \<noteq> None \<Longrightarrow>
    setFlag others name v cfg = Some cfg1 \<Longrightarrow> settings others cfg1 args cfg' \<Longrightarrow>
    settings others cfg ((d @ name @ CHR ''='' # v) # args) cfg'"
| switch: "d \<in> dashes \<Longrightarrow> plainName name \<Longrightarrow> isBoolFlag others name = Some True \<Longrightarrow>
    setFlag others name ''true'' cfg = Some cfg1 \<Longrightarrow> settings others cfg1 args cfg' \<Longrightarrow>
    settings others cfg ((d @ name) # args) cfg'"
| separate: "d \<in> dashes \<Longrightarrow> plainName name \<Longrightarrow> isBoolFlag others name = Some False \<Longrightarrow>
    setFlag others name v cfg = Some cfg1 \<Longrightarrow> settings others cfg1 args cfg' \<Longrightarrow>
    settings others cfg ((d @ name) # v # args) cfg'"

text \<open>
  A line is accepted when settings are all it has up to two dashes alone, or up to an argument that
  has no dash in front or is a dash alone. It asks for help when settings are followed by one of the
  two help flags, with or without a value.
\<close>

definition endsFlags :: "string list \<Rightarrow> bool" where
  "endsFlags rest \<longleftrightarrow> rest = [] \<or> hd rest = [] \<or> hd rest = ''-'' \<or> hd (hd rest) \<noteq> CHR ''-''"

definition accepts :: "otherFlags \<Rightarrow> config \<Rightarrow> string list \<Rightarrow> config \<Rightarrow> string list \<Rightarrow> bool" where
  "accepts others cfg args cfg' rest \<longleftrightarrow> (\<exists>given. settings others cfg given cfg' \<and>
     (args = given @ ''--'' # rest \<or> args = given @ rest \<and> endsFlags rest))"

definition asksHelp :: "otherFlags \<Rightarrow> config \<Rightarrow> string list \<Rightarrow> bool" where
  "asksHelp others cfg args \<longleftrightarrow> (\<exists>given cfg' d name v rest. settings others cfg given cfg' \<and>
     args = given @ (d @ name @ v) # rest \<and> d \<in> dashes \<and> name \<in> {''help'', ''h''} \<and>
     isBoolFlag others name = None \<and> (v = [] \<or> hd v = CHR ''=''))"

lemma flagBody_dashes: "d \<in> dashes \<Longrightarrow> plainName name \<Longrightarrow> flagBody (d @ name @ t) = Some (name @ t)"
  using flagBody_dash [of name t] by (cases name) (auto simp: dashes_def flagBody_def plainName_def)

lemma dashes_syntax: "d \<in> dashes \<Longrightarrow> plainName name \<Longrightarrow> \<not> badSyntax (name @ t) \<and> d @ name @ t \<noteq> ''--''"
  by (cases name) (auto simp: badSyntax_def plainName_def dashes_def)

lemma flagBody_None: "flagBody s = None \<longleftrightarrow> endsFlags (s # rest)"
  by (cases s; cases "tl s") (auto simp: flagBody_def endsFlags_def)

lemma flagBody_Some:
  assumes "flagBody s = Some body"
  obtains d where "d \<in> dashes" "s = d @ body"
proof -
  obtain c s' where s: "s = CHR ''-'' # c # s'"
    using assms by (cases s; cases "tl s") (auto simp: flagBody_def split: if_splits)
  have "s = ''-'' @ body \<or> s = ''--'' @ body" using assms by (auto simp: s flagBody_def split: if_splits)
  then show thesis using that [of "''-''"] that [of "''--''"] unfolding dashes_def by blast
qed

lemma splitFlag_plain:
  assumes "\<not> badSyntax body" and "splitFlag body = (name, v)"
  shows "plainName name" and "body = name @ (case v of None \<Rightarrow> [] | Some x \<Rightarrow> CHR ''='' # x)"
proof -
  obtain c s where body: "body = c # s" using assms(1) by (cases body) (auto simp: badSyntax_def)
  let ?name = "takeWhile (\<lambda>c. c \<noteq> CHR ''='') s" and ?rest = "dropWhile (\<lambda>c. c \<noteq> CHR ''='') s"
  have name: "name = c # ?name" and v: "v = (if ?rest = [] then None else Some (tl ?rest))"
    using assms(2) by (simp_all add: body splitFlag_def Let_def)
  have "CHR ''='' \<notin> set ?name" by (auto dest: set_takeWhileD)
  then show "plainName name" using assms(1) by (auto simp: name body plainName_def badSyntax_def)
  have rest: "?rest = (case v of None \<Rightarrow> [] | Some x \<Rightarrow> CHR ''='' # x)"
  proof (cases "?rest = []")
    case False
    then have "hd ?rest = CHR ''=''" using hd_dropWhile [of "\<lambda>c. c \<noteq> CHR ''=''" s] by simp
    then have "?rest = CHR ''='' # tl ?rest" using False by (metis list.collapse)
    then show ?thesis using False v by simp
  qed (simp add: v)
  have "body = name @ ?rest" by (simp add: body name)
  then show "body = name @ (case v of None \<Rightarrow> [] | Some x \<Rightarrow> CHR ''='' # x)" by (simp only: rest)
qed

text \<open>The parser reads the grammar.\<close>

definition flagResult :: "otherFlags \<Rightarrow> string \<Rightarrow> string option \<Rightarrow> string list \<Rightarrow> config \<Rightarrow> flagOutcome" where
  "flagResult others name v args cfg =
     (let continue = (\<lambda>x args. case setFlag others name x cfg of None \<Rightarrow> Exits 2 | Some cfg' \<Rightarrow> parseFlags others args cfg')
      in case isBoolFlag others name of
          None \<Rightarrow> Exits (if isHelp name then 0 else 2)
        | Some b \<Rightarrow> (case v of
              Some x \<Rightarrow> continue x args
            | None \<Rightarrow> if b then continue ''true'' args
                else (case args of [] \<Rightarrow> Exits 2 | x # args' \<Rightarrow> continue x args')))"

lemma parse_flag:
  assumes "flagBody s = Some body" and "s \<noteq> ''--''" and "\<not> badSyntax body" and "splitFlag body = (name, v)"
  shows "parseFlags others (s # args) cfg = flagResult others name v args cfg"
proof (cases "isBoolFlag others name")
  case (Some b)
  then show ?thesis using assms by (cases b) (simp_all add: flagResult_def split: option.split)
qed (use assms in \<open>simp add: flagResult_def\<close>)

lemma parse_named:
  assumes "d \<in> dashes" and "plainName name"
  shows "parseFlags others ((d @ name @ CHR ''='' # v) # args) cfg = flagResult others name (Some v) args cfg"
    and "parseFlags others ((d @ name) # args) cfg = flagResult others name None args cfg"
proof -
  show "parseFlags others ((d @ name @ CHR ''='' # v) # args) cfg = flagResult others name (Some v) args cfg"
    by (rule parse_flag [OF flagBody_dashes [OF assms] _ _ splitFlag_value [OF assms(2)]])
      (use dashes_syntax [OF assms] in blast)+
  show "parseFlags others ((d @ name) # args) cfg = flagResult others name None args cfg"
    by (rule parse_flag [OF flagBody_dashes [OF assms, of "[]", simplified] _ _ splitFlag_name [OF assms(2)]])
      (use dashes_syntax [OF assms, of "[]"] in simp_all)
qed

lemma parse_settings: "settings others cfg given cfg' \<Longrightarrow> parseFlags others (given @ rest) cfg = parseFlags others rest cfg'"
  by (induction rule: settings.induct) (auto simp: parse_named flagResult_def simp del: parseFlags.simps(2))

lemma accepts_parsed: "accepts others cfg args cfg' rest \<Longrightarrow> parseFlags others args cfg = Parsed cfg' rest"
proof -
  assume "accepts others cfg args cfg' rest"
  then obtain given where g: "settings others cfg given cfg'" "args = given @ ''--'' # rest \<or> args = given @ rest \<and> endsFlags rest"
    by (auto simp: accepts_def)
  have "parseFlags others (''--'' # rest) cfg' = Parsed cfg' rest" by (simp add: flagBody_def)
  moreover have "endsFlags rest \<Longrightarrow> parseFlags others rest cfg' = Parsed cfg' rest"
    by (cases rest) (simp_all add: flagBody_None [symmetric])
  ultimately show ?thesis using g(2) parse_settings [OF g(1)] by auto
qed

lemma asksHelp_exits: "asksHelp others cfg args \<Longrightarrow> parseFlags others args cfg = Exits 0"
proof -
  assume "asksHelp others cfg args"
  then obtain given cfg' d name v rest where g: "settings others cfg given cfg'" "args = given @ (d @ name @ v) # rest"
    "d \<in> dashes" "name \<in> {''help'', ''h''}" "isBoolFlag others name = None" "v = [] \<or> hd v = CHR ''=''"
    unfolding asksHelp_def by blast
  have plain: "plainName name" using g(4) by (auto simp: plainName_def)
  have "parseFlags others ((d @ name @ v) # rest) cfg' = Exits 0"
  proof (cases v)
    case Nil
    then show ?thesis using g(4,5) unfolding Nil append_Nil2 parse_named(2) [OF g(3) plain] by (auto simp: flagResult_def isHelp_def)
  next
    case (Cons c x)
    then have v: "v = CHR ''='' # x" using g(6) by simp
    show ?thesis using g(4,5) unfolding v parse_named(1) [OF g(3) plain] by (auto simp: flagResult_def isHelp_def)
  qed
  then show ?thesis using parse_settings [OF g(1)] g(2) by simp
qed

lemma accepts_step:
  assumes "\<And>given. settings others cfg1 given cfg' \<Longrightarrow> settings others cfg (front @ given) cfg'"
    and "accepts others cfg1 args cfg' rest"
  shows "accepts others cfg (front @ args) cfg' rest"
  using assms unfolding accepts_def by (metis append.assoc)

lemma asksHelp_step:
  assumes "\<And>given cfg'. settings others cfg1 given cfg' \<Longrightarrow> settings others cfg (front @ given) cfg'"
    and "asksHelp others cfg1 args"
  shows "asksHelp others cfg (front @ args)"
  using assms unfolding asksHelp_def by (metis append.assoc)

text \<open>Every line that the parser does not end with 2 is one of the grammar.\<close>

definition readAs :: "otherFlags \<Rightarrow> config \<Rightarrow> string list \<Rightarrow> flagOutcome \<Rightarrow> bool" where
  "readAs others cfg args out \<longleftrightarrow> (case out of
      Parsed cfg' rest \<Rightarrow> accepts others cfg args cfg' rest
    | Exits c \<Rightarrow> c = 2 \<or> c = 0 \<and> asksHelp others cfg args)"

lemma readAs_step:
  assumes "\<And>given cfg'. settings others cfg1 given cfg' \<Longrightarrow> settings others cfg (front @ given) cfg'"
    and "readAs others cfg1 args out"
  shows "readAs others cfg (front @ args) out"
  using assms(2) accepts_step [OF assms(1)] asksHelp_step [OF assms(1)] by (auto simp: readAs_def split: flagOutcome.splits)

lemma flagResult_readAs:
  assumes IH: "\<And>args' cfg'. length args' \<le> length args \<Longrightarrow> readAs others cfg' args' (parseFlags others args' cfg')"
    and d: "d \<in> dashes" and plain: "plainName name"
  shows "readAs others cfg ((d @ name @ (case v of None \<Rightarrow> [] | Some x \<Rightarrow> CHR ''='' # x)) # args) (flagResult others name v args cfg)"
proof (cases "isBoolFlag others name")
  case None
  have "asksHelp others cfg ((d @ name @ (case v of None \<Rightarrow> [] | Some x \<Rightarrow> CHR ''='' # x)) # args)" if "isHelp name"
    using that settings.none [of others cfg] None d unfolding asksHelp_def isHelp_def
    by (intro exI [of _ "[]"] exI [of _ cfg] exI [of _ d] exI [of _ name]
        exI [of _ "case v of None \<Rightarrow> [] | Some x \<Rightarrow> CHR ''='' # x"] exI [of _ args]) (auto split: option.splits)
  then show ?thesis using None by (simp add: flagResult_def readAs_def)
next
  case (Some b)
  have refused: "readAs others cfg args' (Exits 2)" for args' by (simp add: readAs_def)
  note eqs = flagResult_def Some
  show ?thesis
  proof (cases v)
    case None
    show ?thesis
    proof (cases b)
      case True
      have "readAs others cfg ([d @ name] @ args) (parseFlags others args cfg1)" if "setFlag others name ''true'' cfg = Some cfg1" for cfg1
        by (rule readAs_step [OF _ IH]) (use settings.switch [OF d plain _ that] Some True in simp_all)
      then show ?thesis using None True refused by (simp add: eqs split: option.split)
    next
      case False
      have "readAs others cfg ([d @ name, x] @ args') (parseFlags others args' cfg1)"
        if "args = x # args'" "setFlag others name x cfg = Some cfg1" for x args' cfg1
        by (rule readAs_step [OF _ IH]) (use settings.separate [OF d plain _ that(2)] Some False that(1) in simp_all)
      then show ?thesis using None False refused by (simp add: eqs split: option.split list.split)
    qed
  next
    case given: (Some x)
    have "readAs others cfg ([d @ name @ CHR ''='' # x] @ args) (parseFlags others args cfg1)" if "setFlag others name x cfg = Some cfg1" for cfg1
      by (rule readAs_step [OF _ IH]) (use settings.joined [OF d plain _ that] Some in simp_all)
    then show ?thesis using given refused by (simp add: eqs split: option.split)
  qed
qed

lemma parseFlags_readAs: "readAs others cfg args (parseFlags others args cfg)"
proof (induction "length args" arbitrary: args cfg rule: less_induct)
  case less
  note none = settings.none [of others cfg]
  show ?case
  proof (cases args)
    case Nil
    then show ?thesis using none by (auto simp: readAs_def accepts_def endsFlags_def)
  next
    case (Cons s rest)
    show ?thesis
    proof (cases "flagBody s")
      case None
      then show ?thesis using none flagBody_None [of s rest] Cons by (fastforce simp: readAs_def accepts_def)
    next
      case (Some body)
      then obtain d where d: "d \<in> dashes" "s = d @ body" by (rule flagBody_Some)
      consider "s = ''--''" | "s \<noteq> ''--''" "badSyntax body" | "s \<noteq> ''--''" "\<not> badSyntax body" by blast
      then show ?thesis
      proof cases
        case 1
        then show ?thesis using none Cons by (fastforce simp: readAs_def accepts_def flagBody_def)
      next
        case 2
        then show ?thesis using Some Cons by (simp add: readAs_def)
      next
        case 3
        obtain name v where split: "splitFlag body = (name, v)" by (rule prod.exhaust)
        note plain = splitFlag_plain [OF 3(2) split]
        have "readAs others cfg ((d @ body) # rest) (flagResult others name v rest cfg)"
          unfolding plain(2) by (rule flagResult_readAs [OF _ d(1) plain(1)]) (simp add: less Cons)
        then show ?thesis unfolding Cons parse_flag [OF Some 3 split] by (simp only: d(2))
      qed
    qed
  qed
qed

lemma parseFlags_grammar:
  "parseFlags others args cfg = Parsed cfg' rest \<longleftrightarrow> accepts others cfg args cfg' rest"
  "parseFlags others args cfg = Exits c \<longleftrightarrow>
     (if asksHelp others cfg args then c = 0 else c = 2 \<and> (\<forall>cfg' rest. \<not> accepts others cfg args cfg' rest))"
proof -
  note sound = accepts_parsed [of others cfg args] asksHelp_exits [of others cfg args]
  show "parseFlags others args cfg = Parsed cfg' rest \<longleftrightarrow> accepts others cfg args cfg' rest"
    using parseFlags_readAs [of others cfg args] sound(1) unfolding readAs_def by (metis flagOutcome.simps(5))
  show "parseFlags others args cfg = Exits c \<longleftrightarrow>
     (if asksHelp others cfg args then c = 0 else c = 2 \<and> (\<forall>cfg' rest. \<not> accepts others cfg args cfg' rest))"
  proof (cases "parseFlags others args cfg")
    case (Parsed cfg0 rest0)
    then have "accepts others cfg args cfg0 rest0" "\<not> asksHelp others cfg args"
      using parseFlags_readAs [of others cfg args] sound(2) by (auto simp: readAs_def)
    then show ?thesis using Parsed by auto
  next
    case (Exits c0)
    then have "c0 = 2 \<or> c0 = 0 \<and> asksHelp others cfg args" "\<forall>cfg' rest. \<not> accepts others cfg args cfg' rest"
      using parseFlags_readAs [of others cfg args] sound(1) by (auto simp: readAs_def)
    then show ?thesis using Exits sound(2) by auto
  qed
qed

text \<open>
  C33: the exit code of the program, in terms of the grammar of its command line. A line whose settings
  are followed by a help flag makes it exit with 0; a line that is neither that nor accepted makes it
  exit with 2; and on an accepted line, whatever the schedule, when it exits it does so with 1 exactly if an
  application that the line enables fails to start or stops with an error, and with 0 otherwise. The
  three cases exclude each other, and an accepted line determines the configuration.
\<close>

theorem exit_codes:
  "(asksHelp others defaultConfig args \<longrightarrow> (mainExits others outcome args code \<longleftrightarrow> code = 0) \<and>
      (\<nexists>cfg rest. accepts others defaultConfig args cfg rest)) \<and>
   (accepts others defaultConfig args cfg rest \<longrightarrow>
      (mainExits others outcome args code \<longrightarrow> code = (if \<exists>a. enabled cfg a \<and> outcome a \<noteq> None then 1 else 0)) \<and>
      (\<forall>cfg' rest'. accepts others defaultConfig args cfg' rest' \<longrightarrow> cfg' = cfg \<and> rest' = rest)) \<and>
   (\<not> asksHelp others defaultConfig args \<and> (\<nexists>cfg rest. accepts others defaultConfig args cfg rest) \<longrightarrow>
      (mainExits others outcome args code \<longleftrightarrow> code = 2))"
proof -
  have code: "exitCode r = (if \<exists>a. enabled cfg a \<and> outcome a \<noteq> None then 1 else 0)"
    if "runs cfg outcome \<sigma>" "mainGo \<sigma> = Returned r" for cfg \<sigma> r
    using run_failures [OF that] by (simp add: exitCode_def split: if_splits)
  show ?thesis
  proof (cases "parseFlags others args defaultConfig")
    case (Parsed cfg0 rest0)
    then have iff: "accepts others defaultConfig args cfg' rest' \<longleftrightarrow> cfg' = cfg0 \<and> rest' = rest0" for cfg' rest'
      using parseFlags_grammar(1) [of others args defaultConfig cfg' rest'] by auto
    have "\<not> asksHelp others defaultConfig args" using asksHelp_exits [of others defaultConfig args] Parsed by auto
    then show ?thesis unfolding iff using code [of cfg0] Parsed by (auto simp only: mainExits_def flagOutcome.case)
  next
    case (Exits c)
    then show ?thesis
      using parseFlags_grammar(2) [of others args defaultConfig c] accepts_parsed [of others defaultConfig args]
      by (auto simp: mainExits_def split: if_splits)
  qed
qed

text \<open>
  A boolean flag takes no further argument: \<open>-operator false\<close> enables the operator. The flag
  \<open>--metrics-addr\<close> of config/default/manager_auth_proxy_patch.yaml is not one of the program's, and so
  ends it with 2 in whatever place.
\<close>

lemma operator_false:
  "accepts others defaultConfig [''-operator'', ''false''] (defaultConfig\<lparr>RunOperator := True\<rparr>) [''false'']"
  unfolding parseFlags_grammar(1) [symmetric]
  by (simp add: flagBody_def badSyntax_def splitFlag_def Let_def isBoolFlag_def setFlag_def configFlags_lookup ParseBool_def)

lemma metrics_addr:
  assumes "others ''metrics-addr'' = None" and "settings others defaultConfig given cfg"
  shows "mainExits others outcome (given @ (''--metrics-addr='' @ v) # rest) code \<longleftrightarrow> code = 2"
proof -
  have plain: "plainName ''metrics-addr''" and d: "''--'' \<in> dashes" by (simp_all add: plainName_def dashes_def)
  have unknown: "isBoolFlag others ''metrics-addr'' = None" using assms(1) by (simp add: isBoolFlag_def configFlags_def)
  have "parseFlags others ((''--metrics-addr='' @ v) # rest) cfg = Exits 2"
    using parse_named(1) [OF d plain, of others v rest cfg] unknown by (simp add: flagResult_def isHelp_def del: parseFlags.simps)
  then show ?thesis using parse_settings [OF assms(2)] by (simp add: mainExits_def del: parseFlags.simps)
qed

lemma exit_codes_witness:
  "mainExits Map.empty (\<lambda>_. Some ''no config'') [''-operator'', ''--help''] 0 \<and>
   mainExits Map.empty (\<lambda>_. None) [''--metrics-addr=127.0.0.1:8082'', ''--enable-leader-election''] 2 \<and>
   \<not> mainExits Map.empty (\<lambda>_. Some ''no config'') [''-operator'', ''false''] 0"
proof (intro conjI)
  note eval = flagBody_def badSyntax_def splitFlag_def Let_def isBoolFlag_def setFlag_def configFlags_lookup ParseBool_def isHelp_def
  let ?ask = "[''-operator'', ''--help'']" and ?bad = "[''--metrics-addr=127.0.0.1:8082'', ''--enable-leader-election'']"
  have "parseFlags Map.empty ?ask defaultConfig = Exits 0" by (simp add: eval configFlags_def)
  then have "asksHelp Map.empty defaultConfig ?ask" using parseFlags_grammar(2) by (metis zero_neq_numeral)
  then show "mainExits Map.empty (\<lambda>_. Some ''no config'') ?ask 0"
    using exit_codes [of Map.empty ?ask "\<lambda>_. Some ''no config''" 0] by blast
  have "parseFlags Map.empty ?bad defaultConfig = Exits 2" by (simp add: eval configFlags_def)
  then have "\<not> asksHelp Map.empty defaultConfig ?bad" "\<nexists>cfg rest. accepts Map.empty defaultConfig ?bad cfg rest"
    using parseFlags_grammar(2) by (metis zero_neq_numeral)+
  then show "mainExits Map.empty (\<lambda>_. None) ?bad 2" using exit_codes [of Map.empty ?bad "\<lambda>_. None" 2] by blast
  have "enabled (defaultConfig\<lparr>RunOperator := True\<rparr>) OperatorApp" by (simp add: enabled_def)
  then have "\<exists>a. enabled (defaultConfig\<lparr>RunOperator := True\<rparr>) a \<and> Some ''no config'' \<noteq> None" by blast
  then show "\<not> mainExits Map.empty (\<lambda>_. Some ''no config'') [''-operator'', ''false''] 0"
    using exit_codes [of Map.empty "[''-operator'', ''false'']" "\<lambda>_. Some ''no config''" 0] operator_false [of Map.empty]
    by (metis zero_neq_one)
qed

end
