(* ===== verification/AdmittedDocument.thy ===== *)
theory AdmittedDocument imports WebhookProps begin

text \<open>
  The two halves of the dragnet together: the patch that it sends is the difference between the
  object and the very document that it tested against the Reject rules, so what is admitted is
  what was judged.
\<close>

section \<open>The document of the loop\<close>

text \<open>
  The loop keeps the document twice, as text and decoded. Except after a failed application, which
  leaves the nil text, the text decodes to the document.
\<close>

definition inStep :: "('p, 'o) env \<Rightarrow> patchState \<Rightarrow> bool" where
  "inStep E st \<longleftrightarrow> modifiedJSON st = None \<or> jsonUnmarshal E (modifiedJSON st) = Inr (jsonDoc st)"

text \<open>What evanphx/json-patch returns beside an error is the nil document.\<close>

definition applyReturnsNil :: "('p, 'o) env \<Rightarrow> bool" where
  "applyReturnsNil E \<longleftrightarrow> (\<forall>p doc opts doc' err. ApplyWithOptions E p doc opts = Inr (doc', Some err) \<longrightarrow> doc' = None)"

text \<open>There is no difference to the nil document.\<close>

definition noDiffToNil :: "('p, 'o) env \<Rightarrow> bool" where
  "noDiffToNil E \<longleftrightarrow> (\<forall>doc ops. CreatePatch E doc None \<noteq> Inr ops)"

lemma foldM_invariant:
  assumes "\<And>s x s'. P s \<Longrightarrow> f s x = Inr s' \<Longrightarrow> P s'"
  shows "P s \<Longrightarrow> foldM f s xs = Inr s' \<Longrightarrow> P s'"
  by (induction xs arbitrary: s) (auto simp: bindr_Inr_iff intro: assms)

lemma applyRule_inStep:
  assumes "applyReturnsNil E" and "inStep E st" and "applyRule E ns st x = Inr st'"
  shows "inStep E st'"
proof (cases "calculatePatch E ns x (jsonDoc st)")
  case (Inl e)
  then show ?thesis using assms(2,3) by (cases e) (simp_all add: applyRule_def)
next
  case (Inr epatch)
  then obtain doc err where app: "ApplyWithOptions E epatch (modifiedJSON st) jsonPatchApplyOptions = Inr (doc, err)"
    using assms(3) by (auto simp: applyRule_def bindr_Inr_iff)
  show ?thesis
  proof (cases err)
    case None
    then obtain v where "jsonUnmarshal E doc = Inr v"
      using assms(3) Inr app by (auto simp: applyRule_def Let_def bindr_Inr_iff)
    then show ?thesis
      using assms(3) Inr app None by (auto simp: applyRule_def Let_def inStep_def bindr_Inr_iff split: if_splits)
  next
    case (Some e)
    then have "doc = None" using assms(1) app unfolding applyReturnsNil_def by blast
    then show ?thesis using assms(3) Inr app Some by (auto simp: applyRule_def Let_def inStep_def)
  qed
qed

lemma patchTiers_inStep:
  assumes "applyReturnsNil E" and "inStep E st" and "patchTiers E s op ns MinInt16 st = Inr st'"
  shows "inStep E st'"
proof -
  have tier: "inStep E st2" if st: "inStep E st1" and step: "patchTier E s op ns st1 t = Inr st2" for st1 st2 t
  proof -
    obtain rs where "foldM (applyRule E ns) st1 rs = Inr st2"
      using step by (auto simp: patchTier_def bindr_Inr_iff)
    then show ?thesis
      by (rule foldM_invariant [where P = "inStep E", rotated 2, OF _ _ st]) (rule applyRule_inStep [OF assms(1)])
  qed
  have "foldM (patchTier E s op ns) st (candidateTiers s op ns) = Inr st'"
    using assms(3) by (auto simp: patchTiers_fold bindr_Inr_iff)
  then show ?thesis
    by (rule foldM_invariant [where P = "inStep E", rotated 2, OF _ _ assms(2)]) (rule tier)
qed

text \<open>The operations that \<open>CalculatePatch\<close> returns lead to a text of the document it returns.\<close>

definition textOf :: "('p, 'o) env \<Rightarrow> val \<Rightarrow> string \<Rightarrow> bool" where
  "textOf E v js \<longleftrightarrow> jsonUnmarshal E (Some js) = Inr v \<or> jsonMarshal E v = Inr js"

lemma CalculatePatch_text:
  assumes "applyReturnsNil E" and "noDiffToNil E" and "CalculatePatch E s op ns orig = Inr (v, ops)"
  shows "\<exists>js. textOf E v js \<and> CreatePatch E (Some orig) (Some js) = Inr ops"
proof -
  obtain v0 st where start: "jsonUnmarshal E (Some orig) = Inr v0"
    and run: "patchTiers E s op ns MinInt16 (startState orig v0) = Inr st" and fin: "patchEpilogue E orig st = Inr (v, ops)"
    using assms(3) by (auto simp: CalculatePatch_def bindr_Inr_iff)
  have step: "inStep E st"
    by (rule patchTiers_inStep [OF assms(1) _ run]) (simp add: inStep_def startState_def start)
  show ?thesis
  proof (cases "lastAppliedConfigurationJSON st")
    case None
    then have diff: "v = jsonDoc st" "CreatePatch E (Some orig) (modifiedJSON st) = Inr ops"
      using fin by (auto simp: patchEpilogue_def bindr_Inr_iff)
    then obtain js where "modifiedJSON st = Some js"
      using assms(2) by (cases "modifiedJSON st") (auto simp: noDiffToNil_def)
    then show ?thesis using step diff by (auto simp: inStep_def textOf_def)
  next
    case (Some la)
    then show ?thesis using fin by (auto simp: patchEpilogue_def textOf_def bindr_Inr_iff)
  qed
qed

section \<open>No rejections\<close>

lemma rejectionMessage_some: "rejectionMessage ns v x = Inr ms \<Longrightarrow> ms \<noteq> []"
  by (auto simp: rejectionMessage_def onErr_def split: option.splits sum.splits fail.splits)

lemma selectRules_none:
  "selectRules ty v rs = Inr [] \<Longrightarrow> x \<in> set rs \<Longrightarrow> Type (Spec (si_modRule x)) = ty \<Longrightarrow> IsMatch x v = Inr False"
proof (induction rs)
  case (Cons r rs)
  then show ?case by (auto simp: selectRules_def bindr_Inr_iff split: if_splits)
qed simp

lemma rejectTier_appends:
  assumes "rejectTier s op ns v ms t = Inr ms'"
  shows "\<exists>new. ms' = ms @ new \<and> (new = [] \<longrightarrow> selectRules ModRuleTypeReject v (rulesOfTier s op ns t) = Inr [])"
proof -
  obtain rs new where "selectRules ModRuleTypeReject v (rulesOfTier s op ns t) = Inr rs"
    "concatM (rejectionMessage ns v) rs = Inr new" "ms' = ms @ new"
    using assms by (auto simp: rejectTier_def bindr_Inr_iff)
  moreover from this(2) have "new = [] \<Longrightarrow> rs = []"
    by (cases rs) (auto simp: bindr_Inr_iff dest: rejectionMessage_some)
  ultimately show ?thesis by auto
qed

lemma rejectTier_fold_none:
  "foldM (rejectTier s op ns v) [] ts = Inr [] \<Longrightarrow> t \<in> set ts \<Longrightarrow>
   selectRules ModRuleTypeReject v (rulesOfTier s op ns t) = Inr []"
proof -
  have "ms' = [] \<longrightarrow> ms = [] \<and> (\<forall>t \<in> set ts. selectRules ModRuleTypeReject v (rulesOfTier s op ns t) = Inr [])"
    if "foldM (rejectTier s op ns v) ms ts = Inr ms'" for ms ms'
    using that
  proof (induction ts arbitrary: ms)
    case (Cons t ts)
    then obtain ms1 where "rejectTier s op ns v ms t = Inr ms1" "foldM (rejectTier s op ns v) ms1 ts = Inr ms'"
      by (auto simp: bindr_Inr_iff)
    then show ?case using Cons.IH rejectTier_appends by fastforce
  qed simp
  then show "foldM (rejectTier s op ns v) [] ts = Inr [] \<Longrightarrow> t \<in> set ts \<Longrightarrow>
    selectRules ModRuleTypeReject v (rulesOfTier s op ns t) = Inr []" by blast
qed

lemma DetermineRejections_none:
  assumes "DetermineRejections s op ns v = Inr []" and "x \<in> set (candidateRules s op ns)"
    and "Type (Spec (si_modRule x)) = ModRuleTypeReject" and "tier x \<noteq> MinInt16" "tier x \<noteq> MaxInt16"
  shows "IsMatch x v = Inr False"
proof -
  have "foldM (rejectTier s op ns v) [] (candidateTiers s op ns) = Inr []"
    using assms(1) by (auto simp: DetermineRejections_def rejectTiers_fold bindr_Inr_iff)
  moreover have "tier x \<in> set (candidateTiers s op ns)" using assms(2,4,5) by (auto simp: set_candidateTiers)
  ultimately have "selectRules ModRuleTypeReject v (rulesOfTier s op ns (tier x)) = Inr []"
    by (rule rejectTier_fold_none)
  then show ?thesis
    by (rule selectRules_none) (use assms(2,3) in \<open>simp_all add: rulesOfTier_def\<close>)
qed

section \<open>What is admitted was judged\<close>

text \<open>
  C22: what the dragnet admits is what it has judged. When it lets a request through on the regular path, with
  a patch or without, the patch is the difference between the object with its synthetic
  references and a text of some document, and that document is one on which no Reject rule for the
  request matches (those of the two extreme tiers, which the loop never reaches, aside): each of them was
  evaluated on it and found not to match. Neither a patch that fails to apply
  nor one that touches the last-applied annotation can make the patch that is sent and the document that
  is tested differ. This relies on the libraries as documented: a failed application returns the nil
  document, and there is no difference to it; and, as everywhere in the model, on templates that do not write
  into their context.
\<close>

theorem admitted_document:
  assumes "applyReturnsNil E" and "noDiffToNil E"
    and "DragnetHandle E K s req = Inr (if ops \<noteq> [] then Patched ''patched ok'' ops else Allowed ''non-patched ok'')"
  shows "\<exists>obj v js. injectSyntheticRefs K (requestObject req) (requestNamespace req) = Inr obj \<and>
    CreatePatch E (Some obj) (Some js) = Inr ops \<and> textOf E v js \<and>
    (\<forall>x \<in> set (candidateRules s (req_Operation req) (requestNamespace req)).
       Type (Spec (si_modRule x)) = ModRuleTypeReject \<and> tier x \<notin> {MinInt16, MaxInt16} \<longrightarrow> IsMatch x v = Inr False)"
proof -
  let ?op = "req_Operation req" and ?ns = "requestNamespace req"
  obtain obj v ops' ms where inj: "injectSyntheticRefs K (requestObject req) ?ns = Inr obj"
    and patch: "CalculatePatch E s ?op ?ns obj = Inr (v, ops')" and rej: "DetermineRejections s ?op ?ns v = Inr ms"
    and verdict: "dragnetVerdict ms ops' = (if ops \<noteq> [] then Patched ''patched ok'' ops else Allowed ''non-patched ok'')"
    using assms(3) by (auto simp: DragnetHandle_def Let_def onErr_def bindr_Inr_iff split: sum.splits fail.splits if_splits)
  have "ms = []" and ops: "ops' = ops" using verdict by (simp_all add: dragnetVerdict_def split: if_splits)
  then have none: "IsMatch x v = Inr False"
    if "x \<in> set (candidateRules s ?op ?ns)" "Type (Spec (si_modRule x)) = ModRuleTypeReject" "tier x \<notin> {MinInt16, MaxInt16}" for x
    using DetermineRejections_none [of s ?op ?ns v x] rej that by simp
  obtain js where "textOf E v js" "CreatePatch E (Some obj) (Some js) = Inr ops"
    using CalculatePatch_text [OF assms(1,2) patch] ops by blast
  with inj none show ?thesis by blast
qed

text \<open>
  A pod that a Reject rule is for, and a Patch rule of a lower tier that makes another document of it:
  the pod is let through, with the patch.
\<close>

definition patchFirst :: modRuleStore where
  "patchFirst = sampleStore [patchItem ''a'' ''p'' 1 ''1'', rejectItem ''a'' ''r'' 5 [kindIs ''Pod'']]"

lemma sample_laws: "applyReturnsNil sampleEnv" "noDiffToNil sampleEnv"
  by (auto simp: applyReturnsNil_def noDiffToNil_def sampleEnv_def sampleApply_def sampleCreatePatch_def split: option.splits if_splits)

text \<open>The text of the patch, which in the sample environment is the patched document's too.\<close>

definition sampleText :: string where
  "sampleText = ''['' @ operationText ''add'' ''/a'' ''1'' @ '']''"

definition samplePatched :: val where
  "samplePatched = VObj [(''kind'', VStr sampleText)]"

lemma sampleText_neq: "sampleText \<noteq> ''Pod''" "\<not> strContains sampleText ''fail''" "sampleText \<noteq> ''[]''"
  by (simp_all add: sampleText_def operationText_def strContains_def hasPrefix_def Let_def)

lemma kind_of_samplePatched:
  "evaluatePath background samplePatched samplePatched (keyPath ''kind'') = Inr (VStr sampleText)"
  by (simp add: samplePatched_def sample_eval directSelector_def Const_def)

lemma patchFirst_candidates:
  "candidateRules patchFirst ''CREATE'' ''a'' = [patchItem ''a'' ''p'' 1 ''1'', rejectItem ''a'' ''r'' 5 [kindIs ''Pod'']]"
  by (simp add: candidateRules_def patchFirst_def reject_eval admits_def patchItem_fields)

lemma patchFirst_patched: "CalculatePatch sampleEnv patchFirst ''CREATE'' ''a'' ''Pod'' = Inr (samplePatched, [sampleText])"
proof -
  let ?x = "patchItem ''a'' ''p'' 1 ''1''"
  let ?st = "\<lparr>modifiedJSON = Some sampleText, jsonDoc = samplePatched, lastAppliedConfigurationJSON = None\<rparr>"
  have "ApplyWithOptions sampleEnv sampleText (Some ''Pod'') jsonPatchApplyOptions = Inr (Some sampleText, None)"
    by (simp add: sampleEnv_def sampleApply_def sampleText_neq)
  moreover have "jsonUnmarshal sampleEnv (Some sampleText) = Inr samplePatched"
    by (simp add: sampleEnv_def sampleUnmarshal_def samplePatched_def)
  ultimately have "applyRule sampleEnv ''a'' (startState ''Pod'' aPod) ?x = Inr ?st"
    unfolding applyRule_def patchItem_patch sampleText_def [symmetric] by (simp add: startState_def aPod_not_applied)
  then have "patchTiers sampleEnv patchFirst ''CREATE'' ''a'' MinInt16 (startState ''Pod'' aPod) = Inr ?st"
    by (simp add: patchTiers_fold candidateTiers_def tiersAbove_def patchFirst_candidates patchTier_def
        rulesOfTier_def selectRules_def patchItem_fields reject_eval ModRuleTypePatch_def IsMatch_def
        less_int16_def i16_toInt16 MinInt16_less flip: i16_inject)
  from CalculatePatch_start [OF sample_decodes_pod this] show ?thesis
    using sampleText_neq(1) by (simp add: sampleEnv_def sampleCreatePatch_def)
qed

lemma patchFirst_rejections: "DetermineRejections patchFirst ''CREATE'' ''a'' samplePatched = Inr []"
proof -
  have "compiledStore sampleEnv patchFirst"
    by (auto simp: compiledStore_def patchFirst_def reject_eval rejectItem_compiled patchItem_compiled patchItem_fields)
  moreover have "\<forall>x \<in> set (candidateRules patchFirst ''CREATE'' ''a'').
      selectsSafe sampleEnv (si_modRule x) samplePatched \<and> messageSafe ''a'' samplePatched x"
    by (simp add: patchFirst_candidates selectsSafe_def messageSafe_def reject_eval patchItem_fields kind_of_samplePatched)
  moreover have "applicableRules sampleEnv patchFirst ''CREATE'' ''a'' ModRuleTypeReject samplePatched = []"
    using sampleText_neq(1) by (simp add: applicableRules_def patchFirst_candidates ruleHolds_def reject_eval patchItem_fields kind_of_samplePatched ModRuleTypeReject_def)
  ultimately show ?thesis using DetermineRejections_executed_safe by fastforce
qed

lemma patchFirst_handled:
  "DragnetHandle sampleEnv sampleK8s patchFirst createPod = Inr (Patched ''patched ok'' [sampleText])"
  using createPod_injected patchFirst_patched patchFirst_rejections
  by (simp add: DragnetHandle_def dragnetVerdict_def createPod_fields)

lemma admitted_document_witness:
  "\<exists>v js. textOf sampleEnv v js \<and> CreatePatch sampleEnv (Some ''Pod'') (Some js) = Inr [sampleText] \<and>
     IsMatch (rejectItem ''a'' ''r'' 5 [kindIs ''Pod'']) v = Inr False"
proof -
  let ?r = "rejectItem ''a'' ''r'' 5 [kindIs ''Pod'']"
  have "DragnetHandle sampleEnv sampleK8s patchFirst createPod =
      Inr (if [sampleText] \<noteq> [] then Patched ''patched ok'' [sampleText] else Allowed ''non-patched ok'')"
    using patchFirst_handled by simp
  from admitted_document [OF sample_laws this] obtain obj v js
    where obj: "injectSyntheticRefs sampleK8s (requestObject createPod) (requestNamespace createPod) = Inr obj"
      and js: "CreatePatch sampleEnv (Some obj) (Some js) = Inr [sampleText]" "textOf sampleEnv v js"
      and judged: "\<forall>x \<in> set (candidateRules patchFirst (req_Operation createPod) (requestNamespace createPod)).
       Type (Spec (si_modRule x)) = ModRuleTypeReject \<and> tier x \<notin> {MinInt16, MaxInt16} \<longrightarrow> IsMatch x v = Inr False" by blast
  have "obj = ''Pod''" using obj createPod_injected by simp
  moreover have "?r \<in> set (candidateRules patchFirst (req_Operation createPod) (requestNamespace createPod))"
    by (simp add: createPod_fields patchFirst_candidates)
  then have "IsMatch ?r v = Inr False"
    using judged by (auto simp: reject_eval ModRuleTypeReject_def i16_toInt16 simp flip: i16_inject)
  ultimately show ?thesis using js by blast
qed

end
