(* ===== verification/Spec2Isabelle.thy ===== *)
theory Spec2Isabelle
  imports Language DeepCopyProps NamePool ItemProps SelectProps ParseProps EndToEnd WebApp Interleaving Startup
    DragnetEnds ControlProps Flags AdmittedDocument
begin

text \<open>
  A verification of KubeMod, the Kubernetes operator that patches and rejects admitted
  resources by rules called ModRules.

  \<^bold>\<open>The program.\<close> A ModRule (src/api/v1beta1) carries match items (JSONPath queries with tests),
  JSON patch operations with Go templates, a reject message, an execution tier and the
  admission operations it is for. The controller (src/controllers) keeps an in-memory store of
  compiled rules (src/core/modrulestore.go, src/core/modrulestoreitem.go) equal to the rules of
  the cluster. The mutating webhook (src/core/dragnetwebhook.go) asks the store, for each
  admitted object, for the patch that the Patch rules make, tier by tier, and then for the
  messages of the Reject rules that match the patched object. A second webhook
  (src/core/podbindingwebhook.go) records the node of a pod, and a web application
  (src/app/webapp_handlers.go) runs a set of rules on a resource without a cluster. The queries
  run on a fork of PaesslerAG/jsonpath (src/jsonpath) and on operators added to gval
  (src/expressions).

  \<^bold>\<open>The model, theory by theory.\<close>
  \<^item> \<open>Prelude\<close>: results (\<open>Inl (GoErr s)\<close> a returned error, \<open>Inl (GoPanic s)\<close> a panic), the monadic
    folds over lists, 16-bit tiers with their signed order, 64-bit wrap-around;
    \<open>GoString\<close>: decimal numerals, \<open>strconv\<close>, \<open>strings\<close>, \<open>fmt.Sprintf\<close> with \<open>%[i]v\<close>; \<open>GoValue\<close>: a value
    of \<open>interface{}\<close> as JSON decoding and the evaluators produce it, with \<open>reflect.DeepEqual\<close> and \<open>%v\<close>.
  \<^item> \<open>JsonPath\<close> (src/jsonpath/selector.go, src/jsonpath/path.go): the plain and branching selectors and the
    visiting of paths; \<open>Placeholder\<close> (src/jsonpath/placeholder.go): wildcard keys, \<open>#i\<close> and the objects
    \<open>{#: path}\<close>; \<open>Parse\<close> (src/jsonpath/parse.go and the parsers of src/jsonpath/placeholder.go): the
    recursive descent over the scanner of gval; \<open>Expressions\<close> (src/expressions/kubemod_jsonpath.go): the boolean logic, the emptiness
    functions, \<open>in\<close>, \<open>??\<close>, the conditional and \<open>date\<close>; \<open>Language\<close>: the parse of the conditional, the
    languages put together from gval's builders, and the entry points of src/jsonpath/jsonpath.go.
  \<^item> \<open>PathTemplate\<close> (src/util/template.go and the key and path helpers of src/core/modrulestoreitem.go):
    select keys, path templates, value templates. \<open>Externals\<close>: the record \<open>env\<close> of the functions of
    other packages that the store calls (gval, regexp, text/template, json-patch, encoding/json, the
    sort of the standard library), and the template contexts.
  \<^item> \<open>ModRuleApi\<close> (src/api/v1beta1/modrule_types.go, src/api/v1beta1/modrule_webhook.go): the resource, its
    defaults and its validation. \<open>DeepCopy\<close> (src/api/v1beta1/zz_generated.deepcopy.go): the deep copies, over a
    memory of addressed cells, because aliasing is what they are about. \<open>StoreItem\<close> (src/core/modrulestoreitem.go): compiling a rule, testing its
    match items, computing its operations. \<open>ModRuleStore\<close> (src/core/modrulestore.go): \<open>Put\<close>, \<open>Delete\<close>,
    \<open>GetStats\<close>, the query by tier, \<open>CalculatePatch\<close>, \<open>DetermineRejections\<close>.
  \<^item> \<open>Webhooks\<close> (src/core/dragnetwebhook.go, src/core/podbindingwebhook.go), \<open>Reconciler\<close>
    (src/controllers/modrule_controller.go, with the work queue and the cluster as a step relation),
    \<open>WebApp\<close> (src/app/webapp_handlers.go, src/util/diff.go), \<open>NamePool\<close> (src/util/namepool.go).
  \<^item> \<open>Interleaving\<close> (the two loops over the tiers of src/core/modrulestore.go again, with a store that
    changes between their queries), \<open>Locking\<close> (\<open>Put\<close>, \<open>Delete\<close>, the query and \<open>GetStats\<close> of
    src/core/modrulestore.go once more, in the small steps that goroutines take under the read-write lock, on
    slices that share backing arrays), \<open>SharedStore\<close> and \<open>SharedDragnet\<close> (\<open>DetermineRejections\<close>,
    \<open>CalculatePatch\<close> and the handler of src/core/dragnetwebhook.go as clients of it: functions of the answers
    that their queries got), \<open>ControlLoop\<close> (users, the worker of src/controllers/modrule_controller.go
    and webhooks on the locked store, with a run of \<open>Reconcile\<close> taken apart into fetch and call), \<open>Flags\<close> (\<open>main\<close> of src/main.go: flags, defaults and exit codes), \<open>MainRun\<close> (\<open>run\<close> of
    src/main.go: goroutines, channels and wait group as a step relation), \<open>Startup\<close> (src/app/operatorapp.go, src/app/webapp.go, src/app/wire_gen.go: the
    calls that start the two applications).

  \<^bold>\<open>How code becomes definitions.\<close> A struct is a record, a map of Go whose order the code observes an
  association list, a Go error or panic a value of the result type; the fields of a rule keep their
  names. The store is passed and returned, its map from namespaces to slices is a partial function
  because the code never ranges over it except in \<open>GetStats\<close>. Loops are structural
  recursion or functions with a proved measure: the loops over the tiers end because the tier grows
  and is 16 bits wide, the ascending range loop of the JSONPath selector because an index that wraps
  leaves the array. Only the parsers of \<open>Parse\<close> run on fuel, because what bounds them is the input held by
  gval's scanner; fuel beyond the number of tokens left is proved to be enough and not to matter.

  \<^bold>\<open>Interfaces.\<close> Locales carry the proofs between components: \<open>tier_query\<close> (\<open>TierQuery\<close>), what the
  query by tier promises to the two loops that consume it, under which the loop is a fold over
  the ascending tiers; \<open>tier_sort\<close> (\<open>StoreRules\<close>), what the store needs of the sort of the standard
  library, interpreted on its insertion sort; \<open>rule_store\<close> (\<open>StoreRules\<close>), the contract of a
  store as a map from keys to compiled rules, interpreted on \<open>Put\<close> and \<open>Delete\<close> and used by the
  controller; \<open>branching\<close> (\<open>JsonPathProps\<close>), the contract of the selectors with several
  results, interpreted on each of them; \<open>parser_invariant\<close> (\<open>ParseProps\<close>), what a property of the
  parser's state must satisfy to be kept by all the parsers; \<open>copier\<close> (\<open>DeepCopyProps\<close>), the contract of a
  deep copy, closed under pointers, slices and structs and interpreted on the types of the API.

  \<^bold>\<open>What is shown.\<close>
  \<^item> \<open>EndToEnd\<close>: controller, store and webhook together answer a request by the rules of the cluster alone (C5).
    \<open>ControlProps\<close>: so they do when all of them run at the same time, in small steps on the locked store
    (C2); the shared store is in sync with the cluster on every key that is settled, although the
    worker may store a rule that has just been replaced (C7), and from every state the controller can
    catch up (C13). The invariant is in \<open>ControlLoop\<close>, the runs are in \<open>ControlRuns\<close>.
  \<^item> \<open>StoreProps\<close>: rejections are exactly those of the applicable Reject rules in order of
    tiers (C1), whatever the layout of the store (\<open>DetermineRejections_layout\<close>); the store refines a map
    under every history (C3), with the functional behaviour of \<open>Put\<close> and \<open>Delete\<close>
    (C20, C21). \<open>Interleaving\<close>: a standing Reject rule is reported whatever is
    written between the queries (\<open>rejections_under_writes\<close>), and patching keeps its order of tiers (\<open>patches_under_writes\<close>).
  \<^item> \<open>LockingProps\<close>: the step-by-step store is linearizable: whatever goroutines do at the same time, the calls
    that have returned gave what the single steps of \<open>ModRuleStore\<close> give in the order of their unlocks (C4);
    \<open>LockProgress\<close>: every schedule ends with all calls returned (C18), and every sequence of calls can
    happen; \<open>SharedStore\<close>: \<open>DetermineRejections\<close> on a store shared with other goroutines misses no standing
    Reject rule (\<open>rejections_on_shared_store\<close>); \<open>SharedDragnet\<close>: neither does the whole handler (C6), the
    tiers are patched in order and none of a standing rule is skipped (C12), and a request that no write disturbs is
    answered as in one step (C14). \<open>DragnetEnds\<close>: the handler ends after 131072 queries at most,
    whatever happens to the store meanwhile (C19). The invariant of \<open>LockingProps\<close> says what the memory represents at each
    point of a writer and what a reader has collected so far.
  \<^item> \<open>PatchProps\<close>: the order of patching (C8), the idle case (\<open>CalculatePatch_idle\<close>), the failure paths (C23,
    C24) and duplicate candidates (\<open>candidateRules_twice\<close>).
  \<^item> \<open>Reconciler\<close>: convergence of the store to the cluster and draining of the queue, with a run of \<open>Reconcile\<close> as one step (\<open>store_converges\<close>, \<open>queue_drains\<close>), and the
    dropped error (C39). \<open>WebhookProps\<close>: the verdict of the dragnet on each of its branches (C10), its failure path (C25), the
    pod binding hook (C40). \<open>AdmittedDocument\<close>: the patch that is sent leads to the very document on which no
    Reject rule matched (C22). \<open>MainRun\<close>: the errors are all collected (C31) and nothing deadlocks (C32); \<open>Flags\<close>: every
    configuration can be given on the command line (C34), and what the process exits with, by a grammar of the command line that the
    parser is proved to read (C33); \<open>Startup\<close>: the
    order of the set-up calls and what decides the exit code (C35).
  \<^item> \<open>ItemProps\<close>: the meaning of a match (C11), validation (C17) and what it leaves
    unchecked (C15), and that no template reads the environment (C16). \<open>DeepCopyProps\<close>: a copied rule shares nothing with
    its original (C36). \<open>PathProps\<close>: select keys (C26, \<open>key_survives\<close>) and
    path templates (\<open>path_filled\<close>); \<open>SelectProps\<close>: a patch operation with a select makes one operation per match (C9).
  \<^item> \<open>JsonPathProps\<close>: recursive descent and ranges (C29, C30, \<open>rangeUp_overflow_panics\<close>). \<open>ParseProps\<close>: the parser ends (C27), the
    wildcard keys of parsed paths (C28), dotted names (C37), the unchecked colon (\<open>parseJSONObject_any_colon\<close>).
  \<^item> \<open>WebApp\<close>: the dry run applies no rule (C38). \<open>NamePool\<close> has its cycle, \<open>Expressions\<close> and \<open>Language\<close>
    the laws of the operators, of the conditional and of the resolution of names, as lemmas. \<open>Sample\<close> has the
    concrete environment and rules on which the witnesses evaluate.

  \<^bold>\<open>Not modelled.\<close> The gval scanner, parser and evaluator, regular expressions beyond the four fixed ones,
  text/template, json-patch, encoding/json, gin and controller-runtime are parameters.
  A template is a function of its context: templates that write into the document through Sprig's \<open>set\<close> or
  \<open>unset\<close>, which \<open>Target\<close> lets them reach, are outside the model. The times that \<open>date\<close> yields are a type of their own, apart from the
  values of documents. The injector
  declarations of wire, the scheme registration, the logger's set-up and the mocks are left out; logging
  has no effect on results and is dropped. \<open>Put\<close>, \<open>Delete\<close> and each query are single steps outside
  \<open>Locking\<close>, which justifies it. The lock of \<open>Locking\<close> is that of \<open>sync.RWMutex\<close> without its preference for
  waiting writers, which only removes schedules, and none that a free lock needs. \<open>CalculatePatch\<close> and
  \<open>DetermineRejections\<close> make several queries; outside \<open>Interleaving\<close>, \<open>SharedStore\<close>, \<open>SharedDragnet\<close> and
  \<open>ControlLoop\<close> they run against one store, without writes in between. The work queue of \<open>ControlLoop\<close> is that
  of controller-runtime with its default of one worker: a set of keys, to which a change adds its key also while
  the key is worked on, and to which a failed run adds its key again; the delays of retries are left out, and
  so is the lag of the cache that the worker fetches from behind the API server.
\<close>

end
